(* ===== verification/Prelude.thy ===== *)
theory Prelude
  imports Main "HOL-Library.Word" "HOL-Library.Monad_Syntax"
begin

text \<open>
  What the components share: the machine integer types, the outcome of a firmware call
  (return, emergency \<open>longjmp\<close>, or a fault), checked reads of byte buffers, and the generic
  facts on words and lists the component proofs rest on.
\<close>

unbundle bit_operations_syntax

named_theorems outcome_simps \<open>evaluation of firmware calls\<close>

section \<open>Machine integers and buffers\<close>

type_synonym u8 = "8 word"
type_synonym u16 = "16 word"
type_synonym u32 = "32 word"
type_synonym u64 = "64 word"

text \<open>A read of \<open>buf[i]\<close>: \<^const>\<open>None\<close> when the C code would read outside the buffer.\<close>

definition rd :: "'a list \<Rightarrow> nat \<Rightarrow> 'a option" where
  "rd buf i = (if i < length buf then Some (buf ! i) else None)"

lemma rd_Some_iff: "rd buf i = Some x \<longleftrightarrow> i < length buf \<and> buf ! i = x"
  by (simp add: rd_def)

lemma rd_append: "rd (xs @ ys) i = (if i < length xs then rd xs i else rd ys (i - length xs))"
  by (auto simp: rd_def nth_append)

lemma rd_Cons [simp]: "rd (x # xs) 0 = Some x" "rd (x # xs) (Suc i) = rd xs i"
  by (auto simp: rd_def)

text \<open>The bytes \<open>bs\<close> stand in \<open>buf\<close> from index \<open>p\<close> on.\<close>

definition bytes_at :: "'a list \<Rightarrow> nat \<Rightarrow> 'a list \<Rightarrow> bool" where
  "bytes_at buf p bs \<longleftrightarrow> (\<forall>i < length bs. rd buf (p + i) = Some (bs ! i))"

lemma bytes_at_Nil [simp]: "bytes_at buf p []"
  by (simp add: bytes_at_def)

lemma bytes_at_Cons: "bytes_at buf p (b # bs) \<longleftrightarrow> rd buf p = Some b \<and> bytes_at buf (Suc p) bs"
  by (auto simp: bytes_at_def less_Suc_eq_0_disj)

lemma bytes_at_append:
  "bytes_at buf p (xs @ ys) \<longleftrightarrow> bytes_at buf p xs \<and> bytes_at buf (p + length xs) ys"
  by (induction xs arbitrary: p) (auto simp: bytes_at_Cons)

lemma bytes_at_self: "bytes_at (xs @ bs @ ys) (length xs) bs"
  by (auto simp: bytes_at_def rd_def nth_append)

section \<open>Outcomes of firmware calls\<close>

text \<open>
  \<open>shutdown()\<close> leaves a handler by \<open>longjmp\<close>; the writes made before it stay, so the outcome
  carries the state. \<open>Fault\<close> is a read through NULL or outside an object, or a loop that never ends.
\<close>

datatype ('a, 's) outcome = Ret 'a 's | Longjmp string 's | Fault

fun obind :: "('a, 's) outcome \<Rightarrow> ('a \<Rightarrow> 's \<Rightarrow> ('b, 's) outcome) \<Rightarrow> ('b, 's) outcome" where
  "obind (Ret x s) f = f x s"
| "obind (Longjmp r s) f = Longjmp r s"
| "obind Fault f = Fault"

declare obind.simps [outcome_simps]

lemma obind_Ret_iff [outcome_simps]:
  "obind m f = Ret y t \<longleftrightarrow> (\<exists>x s. m = Ret x s \<and> f x s = Ret y t)"
  by (cases m) auto

lemma obind_Longjmp_iff [outcome_simps]:
  "obind m f = Longjmp r t \<longleftrightarrow> m = Longjmp r t \<or> (\<exists>x s. m = Ret x s \<and> f x s = Longjmp r t)"
  by (cases m) auto

lemma obind_assoc: "obind (obind m f) g = obind m (\<lambda>x s. obind (f x s) g)"
  by (cases m) auto

section \<open>Words\<close>

lemma and_127: "x AND (127 :: 'a::len word) = take_bit 7 x"
  by (simp add: take_bit_eq_mask mask_eq_exp_minus_1)

lemma and_255: "x AND (255 :: 'a::len word) = take_bit 8 x"
  by (simp add: take_bit_eq_mask mask_eq_exp_minus_1)

text \<open>
  The 32-bit clock is circular. Seen from a base \<open>b\<close>, the ticks less than half a turn ahead are
  ordered by their distance from \<open>b\<close>.
\<close>

lemma sint_neg_iff: "sint (x :: u32) < 0 \<longleftrightarrow> 2 ^ 31 \<le> unat x"
proof -
  have "sint x = signed_take_bit 31 (uint x)"
    by (simp add: sint_uint)
  also have "\<dots> < 0 \<longleftrightarrow> bit (uint x) 31"
    by (simp add: signed_take_bit_negative_iff)
  also have "bit (uint x) 31 \<longleftrightarrow> 2 ^ 31 \<le> uint x"
  proof -
    have "uint x < 2 ^ 32" using uint_lt2p [of x] by simp
    then have "uint x div 2 ^ 31 = (if 2 ^ 31 \<le> uint x then 1 else 0)"
      using uint_ge_0 [of x] by auto
    then show ?thesis by (simp add: bit_iff_odd)
  qed
  finally show ?thesis by (simp only: unat_eq_nat_uint le_nat_iff [OF uint_ge_0]) simp
qed

lemma unat_diff_rebase:
  fixes a b x :: "'a::len word"
  assumes "unat (a - b) \<le> unat (x - b)"
  shows "unat (x - a) = unat (x - b) - unat (a - b)"
proof -
  have "x - a = (x - b) - (a - b)" by simp
  moreover have "a - b \<le> x - b" using assms by (simp add: word_le_nat_alt)
  ultimately show ?thesis by (metis unat_sub)
qed

end
