(* ===== verification/Vlq.thy ===== *)
theory Vlq
  imports Prelude
begin

text \<open>
  Variable length quantities, the integer encoding of every message parameter: \<open>encode_int\<close> and
  \<open>parse_int\<close> of \<open>src/command.c\<close> (firmware); \<open>klippy/chelper/msgblock.c\<close> (host) has the same two
  functions. A pointer \<open>p\<close> into a buffer is the buffer and an index; a read past the end is
  \<^const>\<open>None\<close>. Shown: decoding an encoded value gives the value back and consumes exactly its
  bytes, for all 32-bit values; the encoding takes one to five bytes; the decoder always advances
  and stops at the first byte without the continuation bit.
\<close>

section \<open>The code\<close>

text \<open>\<open>sv < (3L<<m) && sv >= -(1L<<m)\<close>\<close>

definition vlq_fits :: "int \<Rightarrow> nat \<Rightarrow> bool" where
  "vlq_fits sv m \<longleftrightarrow> sv < 3 * 2 ^ m \<and> sv \<ge> - (2 ^ m)"

text \<open>The bytes \<open>encode_int\<close> writes at \<open>p\<close>; the labels are those of the source.\<close>

definition encode_int :: "u32 \<Rightarrow> u8 list" where
  "encode_int v =
     (let sv = sint v;
          f4 = [ucast (v AND 0x7f)];
          f3 = ucast ((drop_bit 7 v AND 0x7f) OR 0x80) # f4;
          f2 = ucast ((drop_bit 14 v AND 0x7f) OR 0x80) # f3;
          f1 = ucast ((drop_bit 21 v AND 0x7f) OR 0x80) # f2
      in if vlq_fits sv 5 then f4
         else if vlq_fits sv 12 then f3
         else if vlq_fits sv 19 then f2
         else if vlq_fits sv 26 then f1
         else ucast (drop_bit 28 v OR 0x80) # f1)"

text \<open>The \<open>while (c & 0x80)\<close> loop of \<open>parse_int\<close>, and the sign extension of the first byte.\<close>

function parse_int_loop :: "u8 list \<Rightarrow> nat \<Rightarrow> u8 \<Rightarrow> u32 \<Rightarrow> (u32 \<times> nat) option" where
  "parse_int_loop buf p c v =
     (if c AND 0x80 \<noteq> 0
      then (case rd buf p of
              None \<Rightarrow> None
            | Some c' \<Rightarrow> parse_int_loop buf (Suc p) c' (push_bit 7 v OR ucast (c' AND 0x7f)))
      else Some (v, p))"
  by pat_completeness auto
termination
  by (relation "measure (\<lambda>(buf, p, c, v). length buf - p)") (auto simp: rd_def split: if_splits)

declare parse_int_loop.simps [simp del]

definition parse_first :: "u8 \<Rightarrow> u32" where
  "parse_first c =
     (let v = ucast (c AND 0x7f)
      in if c AND 0x60 = 0x60 then v OR - 0x20 else v)"

definition parse_int :: "u8 list \<Rightarrow> nat \<Rightarrow> (u32 \<times> nat) option" where
  "parse_int buf p =
     (case rd buf p of
        None \<Rightarrow> None
      | Some c \<Rightarrow> parse_int_loop buf (Suc p) c (parse_first c))"

section \<open>Bits of the encoding\<close>

lemma bit_int_128 [simp]: "bit (128 :: int) n \<longleftrightarrow> n = 7"
proof -
  have "(128 :: int) = 2 ^ 7" by simp
  then show ?thesis by (metis bit_exp_iff possible_bit_int)
qed

lemma bit_int_96 [simp]: "bit (96 :: int) n \<longleftrightarrow> n = 5 \<or> n = 6"
proof -
  have "(96 :: int) = 2 ^ 5 OR 2 ^ 6" by simp
  then show ?thesis by (auto simp only: bit_or_iff bit_exp_iff) auto
qed

lemma bit_int_m32 [simp]: "bit (- 32 :: int) n \<longleftrightarrow> 5 \<le> n"
proof -
  have "(- 32 :: int) = NOT (mask 5)" by (simp add: mask_eq_exp_minus_1 not_int_def)
  then show ?thesis by (auto simp only: bit_not_iff bit_mask_iff) auto
qed

lemma cont_byte_flag: "(ucast (take_bit 7 g OR 128) :: u8) AND 128 = 128" for g :: u32
  by (rule bit_word_eqI) (auto simp: bit_simps)

lemma cont_byte_payload: "ucast (take_bit 7 (ucast (take_bit 7 g OR 128) :: u8)) = take_bit 7 g" for g :: u32
  by (rule bit_word_eqI) (auto simp: bit_simps)

lemma last_byte_flag: "(ucast (take_bit 7 g) :: u8) AND 128 = 0" for g :: u32
  by (rule bit_word_eqI) (auto simp: bit_simps)

lemma last_byte_payload: "ucast (take_bit 7 (ucast (take_bit 7 g) :: u8)) = take_bit 7 g" for g :: u32
  by (rule bit_word_eqI) (auto simp: bit_simps)

lemma and_96: "c AND 96 = 96 \<longleftrightarrow> bit c 5 \<and> bit c 6" for c :: u8
  proof
  assume "c AND 96 = 96"
  then have "bit (c AND 96) n = bit (96::u8) n" for n by simp
  from this [of 5] this [of 6] show "bit c 5 \<and> bit c 6" by (simp add: bit_and_iff)
next
  assume "bit c 5 \<and> bit c 6"
  then show "c AND 96 = 96" by (intro bit_word_eqI) (auto simp: bit_and_iff)
qed

lemma bit_sint: "i < 32 \<Longrightarrow> bit v i \<longleftrightarrow> bit (sint v) i" for v :: u32
  by (simp add: bit_simps)

lemma bit_int_high_nonneg:
  assumes "0 \<le> x" "x < 3 * 2 ^ m" "m + 2 \<le> i" 
  shows "\<not> bit (x::int) i" "\<not> (bit x m \<and> bit x (Suc m))"
proof -
  have "x < 2 ^ (m+2)" using assms(2) by (simp add: order_less_le_trans)
  also have "(2::int) ^ (m+2) \<le> 2 ^ i" using assms(3) by (intro power_increasing) auto
  finally have "x div 2 ^ i = 0" using assms(1) by simp
  then show "\<not> bit (x::int) i" by (simp add: bit_iff_odd)
  have "x div 2 ^ m < 3"
  proof (rule ccontr)
    assume "\<not> x div 2 ^ m < 3"
    then have "2 ^ m * 3 \<le> 2 ^ m * (x div 2 ^ m)" by (intro mult_left_mono) auto
    also have "\<dots> \<le> x" by (simp add: minus_mod_eq_mult_div [symmetric])
    finally show False using assms(2) by simp
  qed
  moreover have "0 \<le> x div 2 ^ m" using assms(1) by (simp add: pos_imp_zdiv_nonneg_iff)
    ultimately have "x div 2 ^ m \<in> {0,1,2}" by auto
  moreover have "x div 2 ^ Suc m = (x div 2 ^ m) div 2"
    by (simp only: power_Suc2) (simp add: zdiv_zmult2_eq)
  ultimately show "\<not> (bit x m \<and> bit x (Suc m))" by (auto simp: bit_iff_odd)
qed

lemma bit_int_high_neg:
  assumes "x < 0" "- (2 ^ m) \<le> x" "m \<le> i" 
  shows "bit (x::int) i"
proof -
  have "(2::int) ^ m \<le> 2 ^ i" using assms(3) by (intro power_increasing) auto
  then have "- (2 ^ i) \<le> x" using assms(2) by linarith
  then have "x div 2 ^ i = -1" using assms(1)
    by (intro int_div_pos_eq [where r = "x + 2 ^ i"]) auto
  then show ?thesis by (simp add: bit_iff_odd)
qed

lemma range_bits:
  fixes v :: u32
  assumes "- (2 ^ m) \<le> sint v" "sint v < 3 * 2 ^ m" "m + 2 \<le> i" "i < 32"
  shows "bit v i \<longleftrightarrow> bit v m \<and> bit v (Suc m)"
proof (cases "0 \<le> sint v")
  case True
  then show ?thesis
    using bit_int_high_nonneg [OF True assms(2,3)] assms(3,4) by (simp add: bit_sint)
next
  case False
  then show ?thesis using bit_int_high_neg [of "sint v" m] assms by (simp add: bit_sint)
qed

lemma parse_loop_more:
  "c AND 128 \<noteq> 0 \<Longrightarrow> rd buf p = Some c' \<Longrightarrow>
   parse_int_loop buf p c v = parse_int_loop buf (Suc p) c' (push_bit 7 v OR ucast (take_bit 7 c'))"
  by (subst parse_int_loop.simps) (simp add: and_127)

lemma parse_loop_done:
  "c AND 128 = 0 \<Longrightarrow> parse_int_loop buf p c v = Some (v, p)"
  by (subst parse_int_loop.simps) (simp )

lemma bit_parse_first:
  fixes g :: u32 assumes "c = ucast (take_bit 7 g) \<or> c = ucast (take_bit 7 g OR 128)"
  shows "bit (parse_first c) n
     \<longleftrightarrow> n < 32 \<and> (if n < 7 then bit g n else bit g 5 \<and> bit g 6)"
proof -
  have "bit c 5 = bit g 5" "bit c 6 = bit g 6" "take_bit 7 c = ucast (take_bit 7 g)"
    using assms by (auto simp: bit_simps intro!: bit_word_eqI)
  moreover have "n = 5 \<or> n = 6" if "n < 7" "5 \<le> n"
    using that by auto
  ultimately show ?thesis 
    by (auto simp: parse_first_def and_127 and_96 bit_or_iff bit_unsigned_iff bit_take_bit_iff)
qed

lemma vlq_take_glue:
  "push_bit s (take_bit 7 (drop_bit s v)) OR take_bit s v = take_bit (s + 7) v" for v :: u32
proof (rule bit_word_eqI)
  fix n
  show "bit (push_bit s (take_bit 7 (drop_bit s v)) OR take_bit s v) n = bit (take_bit (s + 7) v) n"
    if "n < LENGTH(32)"
    using that by (cases "s \<le> n")
      (auto simp: bit_or_iff bit_push_bit_iff bit_take_bit_iff bit_drop_bit_eq)
qed

lemma vlq_top_glue:
  fixes v :: u32
  assumes "s + 7 \<le> 32 \<Longrightarrow> vlq_fits (sint v) (s + 5)"
  shows "push_bit s (parse_first (ucast (take_bit 7 (drop_bit s v) OR 128))) OR take_bit s v = v"
proof (rule bit_word_eqI)
  fix n assume n: "n < LENGTH(32)"
  have h: "bit v n \<longleftrightarrow> bit v (s + 5) \<and> bit v (s + 6)" if "s + 7 \<le> n"
    using that n assms range_bits [of "s + 5" v n] by (simp add: vlq_fits_def numeral_eq_Suc)
  show "bit (push_bit s (parse_first (ucast (take_bit 7 (drop_bit s v) OR 128))) OR take_bit s v) n = bit v n"
  proof (cases "s \<le> n")
    case True
    then show ?thesis using h n
      by (auto simp: bit_or_iff bit_push_bit_iff bit_take_bit_iff bit_drop_bit_eq bit_parse_first [of _ "drop_bit s v"])
  next
    case False
    then show ?thesis
      by (auto simp: bit_or_iff bit_push_bit_iff bit_take_bit_iff)
  qed
qed

lemmas vlq_glue = push_bit_or push_bit_push_bit or.assoc vlq_take_glue [of 7] vlq_take_glue [of 14] vlq_take_glue [of 21]

section \<open>Round trip\<close>

lemma parse_encode_int:
  assumes "bytes_at buf p (encode_int v)"
  shows "parse_int buf p = Some (v, p + length (encode_int v))"
proof -
  have P: "parse_int buf p = parse_int_loop buf (Suc p) c (parse_first c)" if "rd buf p = Some c" for c
    using that by (simp add: parse_int_def)
  let ?A = "vlq_fits (sint v)"
  note E = encode_int_def Let_def and_127 bytes_at_Cons parse_loop_done parse_loop_more cont_byte_flag cont_byte_payload last_byte_flag last_byte_payload
  consider "?A 5" | "\<not> ?A 5" "?A 12" | "\<not> ?A 5" "\<not> ?A 12" "?A 19"
    | "\<not> ?A 5" "\<not> ?A 12" "\<not> ?A 19" "?A 26" | "\<not> ?A 5" "\<not> ?A 12" "\<not> ?A 19" "\<not> ?A 26"
    by blast
  then show ?thesis
  proof cases
    case 1
    have "parse_first (ucast (take_bit 7 v)) = v"
      using 1 range_bits [of 5 v] by (intro bit_word_eqI) (auto simp: vlq_fits_def bit_parse_first [of _ v])
    with 1 show ?thesis using assms P by (simp add: E)
  next
    case 2
    then show ?thesis using assms P vlq_top_glue [of 7 v] by (simp add: E vlq_glue)
  next
    case 3
    then show ?thesis using assms P vlq_top_glue [of 14 v] by (simp add: E vlq_glue)
  next
    case 4
    then show ?thesis using assms P vlq_top_glue [of 21 v] by (simp add: E vlq_glue)
  next
    case 5
    have d: "drop_bit 28 v = take_bit 7 (drop_bit 28 v)"
      by (rule bit_word_eqI) (auto simp: bit_simps dest: bit_imp_le_length)
    from 5 show ?thesis using assms P vlq_top_glue [of 28 v] cont_byte_flag [of "drop_bit 28 v"]
      by (simp add: E vlq_glue d [symmetric])
  qed
qed

lemma encode_int_length: "1 \<le> length (encode_int v) \<and> length (encode_int v) \<le> 5"
  by (simp add: encode_int_def Let_def)

section \<open>Progress and bounds of the decoder\<close>

lemma parse_int_loop_bounds:
  "parse_int_loop buf p c v = Some (w, q) \<Longrightarrow> p \<le> length buf \<Longrightarrow> p \<le> q \<and> q \<le> length buf"
proof (induction buf p c v rule: parse_int_loop.induct)
  case (1 buf p c v)
  then show ?case
    by (subst (asm) (2) parse_int_loop.simps)
      (fastforce simp: rd_Some_iff split: if_splits option.splits)
qed

lemma parse_int_bounds:
  assumes "parse_int buf p = Some (w, q)"
  shows "p < q \<and> q \<le> length buf"
  using assms parse_int_loop_bounds
  by (fastforce simp: parse_int_def rd_Some_iff split: option.splits)

text \<open>A byte without the continuation bit ends the decoding, wherever it started before it.\<close>

lemma parse_int_loop_stops:
  assumes "rd buf k = Some b" "b AND 128 = 0" "c AND 128 = 0 \<or> p \<le> k" "p \<le> Suc k"
  shows "\<exists>w q. parse_int_loop buf p c v = Some (w, q) \<and> q \<le> Suc k"
  using assms
proof (induction buf p c v rule: parse_int_loop.induct)
  case (1 buf p c v)
  show ?case
  proof (cases "c AND 128 = 0")
    case True
    then show ?thesis using "1.prems"(4) by (simp add: parse_loop_done)
  next
    case False
    then have p: "p \<le> k" using "1.prems"(3) by simp
    then obtain c' where c': "rd buf p = Some c'"
      using "1.prems"(1) by (auto simp: rd_def split: if_splits)
    have "c' AND 128 = 0 \<or> Suc p \<le> k"
      using p c' "1.prems"(1,2) by (cases "p = k") auto
    with "1.IH" [OF _ c'] "1.prems" False p show ?thesis
      by (auto simp: parse_loop_more [OF False c'] and_127)
  qed
qed

lemma parse_int_stops:
  assumes "rd buf k = Some b" "b AND 128 = 0" "p \<le> k"
  shows "\<exists>w q. parse_int buf p = Some (w, q) \<and> q \<le> Suc k"
proof -
  from assms obtain c where c: "rd buf p = Some c"
    by (auto simp: rd_def split: if_splits)
  have "c AND 128 = 0 \<or> Suc p \<le> k"
    using c assms by (cases "p = k") auto
  with parse_int_loop_stops [OF assms(1,2), of c "Suc p"] assms(3) c show ?thesis
    by (simp add: parse_int_def)
qed

section \<open>Properties\<close>

text \<open>
  C26. Decoding an encoded 32-bit value at any place of a buffer gives the value back and stops right after its
  bytes, of which there are one to five.
\<close>

theorem vlq_roundtrip:
  assumes "bytes_at buf p (encode_int v)"
  shows "parse_int buf p = Some (v, p + length (encode_int v)) \<and> length (encode_int v) \<in> {1..5}"
  using parse_encode_int [OF assms] encode_int_length [of v] by simp

theorem vlq_roundtrip_witness: "parse_int [1, 0x81, 0x48, 7] 1 = Some (200, 3)"
proof -
  have e: "encode_int 200 = [0x81, 0x48]" by (simp add: encode_int_def vlq_fits_def Let_def)
  have "bytes_at [1, 0x81, 0x48, 7] 1 (encode_int 200)"
    by (simp add: e bytes_at_def rd_def numeral_2_eq_2 less_Suc_eq)
  from vlq_roundtrip [OF this] show ?thesis by (simp add: e)
qed

end
