(* ===== verification/Crc.thy ===== *)
theory Crc
  imports Prelude
begin

text \<open>
  The block checksum: \<open>crc16_ccitt\<close> of \<open>src/generic/crc16_ccitt.c\<close> (firmware) and
  \<open>msgblock_crc16_ccitt\<close> of \<open>klippy/chelper/msgblock.c\<close> (host). The byte-wise update with its shifts
  and xors is shown equal to the bit-serial CRC with the reflected CCITT polynomial 0x8408.
\<close>

section \<open>The code\<close>

text \<open>The body of the \<open>while (len--)\<close> loop.\<close>

definition crc_step :: "u16 \<Rightarrow> u8 \<Rightarrow> u16" where
  "crc_step crc b =
     (let data = b XOR ucast (crc AND 0xff);
          data = data XOR push_bit 4 data
      in (push_bit 8 (ucast data) OR drop_bit 8 crc) XOR ucast (drop_bit 4 data)
           XOR push_bit 3 (ucast data))"

fun crc16_loop :: "u8 list \<Rightarrow> nat \<Rightarrow> nat \<Rightarrow> u16 \<Rightarrow> u16 option" where
  "crc16_loop buf p 0 crc = Some crc"
| "crc16_loop buf p (Suc len) crc =
     (case rd buf p of
        None \<Rightarrow> None
      | Some b \<Rightarrow> crc16_loop buf (Suc p) len (crc_step crc b))"

definition crc16_ccitt :: "u8 list \<Rightarrow> nat \<Rightarrow> u16 option" where
  "crc16_ccitt buf len = crc16_loop buf 0 len 0xffff"

definition msgblock_crc16_ccitt :: "u8 list \<Rightarrow> u8 \<Rightarrow> u16 option" where
  "msgblock_crc16_ccitt buf len = crc16_loop buf 0 (unat len) 0xffff"

section \<open>The bit-serial reference\<close>

definition crc_bit :: "u16 \<Rightarrow> u16" where
  "crc_bit c = (if bit c 0 then drop_bit 1 c XOR 0x8408 else drop_bit 1 c)"

definition crc_ref :: "u16 \<Rightarrow> u8 \<Rightarrow> u16" where
  "crc_ref crc b = (crc_bit ^^ 8) (crc XOR ucast b)"

lemma bit_int_8408: "bit (0x8408 :: int) n \<longleftrightarrow> n = 3 \<or> n = 10 \<or> n = 15"
proof -
  have "(0x8408 :: int) = 2 ^ 3 OR 2 ^ 10 OR 2 ^ 15" by simp
  then show ?thesis by (auto simp only: bit_or_iff bit_exp_iff) auto
qed

lemma bit_crc_bit:
  "bit (crc_bit c) i \<longleftrightarrow> (bit c (i + 1) \<noteq> (bit c 0 \<and> (i = 3 \<or> i = 10 \<or> i = 15)))"
  by (auto simp: crc_bit_def bit_xor_iff bit_drop_bit_eq bit_int_8408 bit_Suc_0_iff)

lemma crc_bit_xor: "\<not> bit b 0 \<Longrightarrow> crc_bit (a XOR b) = crc_bit a XOR drop_bit 1 b"
  by (rule bit_word_eqI) (auto simp: bit_crc_bit bit_xor_iff bit_drop_bit_eq)

lemma crc_bits_xor:
  assumes "n \<le> 8" "take_bit 8 b = b"
  shows "(crc_bit ^^ n) (a XOR push_bit n b) = (crc_bit ^^ n) a XOR b"
  using assms(1)
proof (induction n arbitrary: a)
  case 0
  then show ?case by simp
next
  case (Suc n)
  have "\<not> bit (push_bit (Suc n) b) 0" by (simp only: bit_push_bit_iff) simp
  moreover have "drop_bit 1 (push_bit (Suc n) b) = push_bit n b"
  proof (rule bit_word_eqI)
    fix i assume "i < LENGTH(16)"
    have "bit b (i - n) \<Longrightarrow> i - n < 8"
      by (metis assms(2) bit_take_bit_iff)
    then show "bit (drop_bit 1 (push_bit (Suc n) b)) i = bit (push_bit n b) i"
      using Suc.prems by (auto simp: bit_drop_bit_eq bit_push_bit_iff simp del: push_bit_Suc)
  qed
  ultimately have "crc_bit (a XOR push_bit (Suc n) b) = crc_bit a XOR push_bit n b"
    using crc_bit_xor [of "push_bit (Suc n) b" a] by (simp only: simp_thms)
  then show ?case using Suc.IH [of "crc_bit a"] Suc.prems
    by (simp only: funpow_Suc_right o_apply)
qed

lemma all_less_16: "(\<forall>i < 16. P i) \<longleftrightarrow> (\<forall>i \<in> set [0..<16]. P (i::nat))"
  by (simp only: set_upt) auto

lemma upto_16: "[0..<16] = [0, 1, 2, 3, 4, 5, 6, 7, 8, 9, 10, 11, 12, 13, 14, 15]"
  by (simp add: upt_rec)

lemma crc_bit8: "(crc_bit ^^ 8) x = crc_bit (crc_bit (crc_bit (crc_bit (crc_bit (crc_bit (crc_bit (crc_bit x)))))))"
  by (simp add: numeral_eq_Suc)

lemma crc_table:
  fixes lo :: u8
  defines "data \<equiv> lo XOR push_bit 4 lo"
  shows "(push_bit 8 (ucast data) :: u16) XOR ucast (drop_bit 4 data) XOR push_bit 3 (ucast data)
     = (crc_bit ^^ 8) (ucast lo)" (is "?l = ?r")
proof -
  have h: "\<not> bit lo n" if "8 \<le> n" for n
    using that by (auto dest: bit_imp_le_length)
  have eq: "\<forall>i < 16. bit ?l i = bit ?r i"
    unfolding all_less_16 upto_16 data_def crc_bit8 list.set ball_simps
    by (intro conjI TrueI;
        simp add: bit_crc_bit bit_xor_iff bit_push_bit_iff bit_drop_bit_eq bit_unsigned_iff h
          One_nat_def [symmetric] del: One_nat_def;
        argo?)
  show ?thesis
  proof (rule bit_word_eqI)
    fix n
    assume "n < LENGTH(16)"
    then have "n < 16" by simp
    then show "bit ?l n = bit ?r n" using eq by blast
  qed
qed

lemma crc_step_ref: "crc_step crc b = crc_ref crc b"
proof -
  let ?x = "crc XOR ucast b" let ?lo = "ucast ?x :: u8"
  have lo: "b XOR ucast (crc AND 255) = ?lo"
    by (rule bit_word_eqI) (auto simp: and_255 bit_simps)
  have x: "?x = ucast ?lo XOR push_bit 8 (drop_bit 8 crc)"
    by (rule bit_word_eqI) (auto simp: bit_simps dest: bit_imp_le_length)
  have hi: "take_bit 8 (drop_bit 8 crc) = drop_bit 8 crc"
    by (rule bit_word_eqI) (auto simp: bit_simps dest: bit_imp_le_length)
  have o: "push_bit 8 (ucast d) OR drop_bit 8 crc = push_bit 8 (ucast d) XOR drop_bit 8 crc" for d :: u8
    by (rule bit_word_eqI) (auto simp: bit_simps dest: bit_imp_le_length)
  have "crc_ref crc b = (crc_bit ^^ 8) (ucast ?lo) XOR drop_bit 8 crc"
    unfolding crc_ref_def by (subst x) (rule crc_bits_xor [OF order.refl hi])
  then show ?thesis
    by (simp add: crc_step_def Let_def lo o crc_table [symmetric] xor.assoc xor.left_commute xor.commute)
qed

definition crc_of :: "u8 list \<Rightarrow> u16" where
  "crc_of bs = foldl crc_ref 0xffff bs"

lemma crc16_loop_take:
  "p + len \<le> length buf \<Longrightarrow>
   crc16_loop buf p len crc = Some (foldl crc_ref crc (take len (drop p buf)))"
proof (induction len arbitrary: p crc)
  case 0
  then show ?case by simp
next
  case (Suc len)
  then have "drop p buf = buf ! p # drop (Suc p) buf"
    by (simp add: Cons_nth_drop_Suc)
  with Suc show ?case by (simp add: rd_def crc_step_ref)
qed

lemma crc16_ccitt_eq: "len \<le> length buf \<Longrightarrow> crc16_ccitt buf len = Some (crc_of (take len buf))"
  by (simp add: crc16_ccitt_def crc_of_def crc16_loop_take)

lemma msgblock_crc16_ccitt_eq:
  "unat len \<le> length buf \<Longrightarrow> msgblock_crc16_ccitt buf len = Some (crc_of (take (unat len) buf))"
  by (simp add: msgblock_crc16_ccitt_def crc_of_def crc16_loop_take)

section \<open>Properties\<close>

text \<open>
  C27. The byte-wise checksum routine computes the bit-serial CRC-16/CCITT (polynomial 0x1021 reflected, initial
  value 0xffff) of the first \<open>len\<close> bytes of the buffer, and reads no byte past them.
\<close>

theorem crc16_reference:
  assumes "len \<le> length buf"
  shows "crc16_ccitt buf len = Some (crc_of (take len buf))"
  by (rule crc16_ccitt_eq [OF assms])

theorem crc16_reference_witness: "crc16_ccitt [5, 0x10, 9] 2 = Some (crc_of [5, 0x10])"
  using crc16_reference [of 2 "[5, 0x10, 9]"] by simp

end
