(* ===== verification/Console.thy ===== *)
theory Console
  imports Vlq Crc
begin

text \<open>
  The sending half of \<open>src/command.c\<close>: the encoding of a response into a buffer, the frame around it,
  and \<open>command_sendf\<close> with its re-entrancy guard. The state record starts here and every other
  component extends it, so each operation works on any later extension. What is handed to
  \<open>console_sendf\<close> is logged with the sequence number its frame gets.
\<close>

section \<open>Message blocks\<close>

definition MESSAGE_MIN :: nat where [simp]: "MESSAGE_MIN = 5"

definition MESSAGE_MAX :: nat where [simp]: "MESSAGE_MAX = 64"

definition MESSAGE_HEADER_SIZE :: nat where [simp]: "MESSAGE_HEADER_SIZE = 2"

definition MESSAGE_TRAILER_SIZE :: nat where [simp]: "MESSAGE_TRAILER_SIZE = 3"

definition MESSAGE_POS_LEN :: nat where [simp]: "MESSAGE_POS_LEN = 0"

definition MESSAGE_POS_SEQ :: nat where [simp]: "MESSAGE_POS_SEQ = 1"

definition MESSAGE_TRAILER_CRC :: nat where [simp]: "MESSAGE_TRAILER_CRC = 3"

definition MESSAGE_TRAILER_SYNC :: nat where [simp]: "MESSAGE_TRAILER_SYNC = 1"

definition MESSAGE_PAYLOAD_MAX :: nat where [simp]: "MESSAGE_PAYLOAD_MAX = MESSAGE_MAX - MESSAGE_MIN"

definition MESSAGE_SEQ_MASK :: u8 where [simp]: "MESSAGE_SEQ_MASK = 0x0f"

definition MESSAGE_DEST :: u8 where [simp]: "MESSAGE_DEST = 0x10"

definition MESSAGE_SYNC :: u8 where [simp]: "MESSAGE_SYNC = 0x7E"

section \<open>State\<close>

text \<open>What \<open>sendf()\<close> hands to the encoder: the format and its arguments.\<close>

datatype sendf_arg = Num u32 | Bytes "u8 list" | Static_string string

datatype message = Response string "sendf_arg list" | Acknak

record console_state =
  next_sequence :: u8
  sync_state :: u8
  in_sendf :: u8
  sent :: "(u8 \<times> message) list"

text \<open>\<open>shutdown(msg)\<close>: the emergency exit, a \<open>longjmp\<close> to \<open>sched_main\<close>.\<close>

definition sched_shutdown :: "string \<Rightarrow> 's \<Rightarrow> ('a, 's) outcome" where
  "sched_shutdown reason s = Longjmp reason s"

definition command_sendf :: "message \<Rightarrow> 'z console_state_scheme \<Rightarrow> 'z console_state_scheme" where
  "command_sendf m s =
     (if in_sendf s \<noteq> 0 then s
      else let s = s\<lparr>in_sendf := 1\<rparr>;
               s = s\<lparr>sent := sent s @ [(next_sequence s, m)]\<rparr>
           in s\<lparr>in_sendf := 0\<rparr>)"

definition sendf :: "string \<Rightarrow> sendf_arg list \<Rightarrow> 'z console_state_scheme \<Rightarrow> 'z console_state_scheme" where
  "sendf fmt args = command_sendf (Response fmt args)"

definition sendf_shutdown :: "'z console_state_scheme \<Rightarrow> 'z console_state_scheme" where
  "sendf_shutdown s = s\<lparr>in_sendf := 0\<rparr>"

lemma command_sendf_eq:
  "command_sendf m s = (if in_sendf s = 0 then s\<lparr>sent := sent s @ [(next_sequence s, m)]\<rparr> else s)"
proof -
  have "s\<lparr>in_sendf := in_sendf s\<rparr> = s" by simp
  then have "in_sendf s = 0 \<Longrightarrow> s\<lparr>in_sendf := 0\<rparr> = s" by simp
  then show ?thesis by (simp add: command_sendf_def Let_def)
qed

section \<open>Encoding\<close>

datatype ptype =
    PT_uint32 | PT_int32 | PT_uint16 | PT_int16 | PT_byte
  | PT_string | PT_progmem_buffer | PT_buffer

record command_encoder =
  ce_msgid :: u16
  ce_max_size :: nat
  ce_param_types :: "ptype list"

text \<open>An entry of the \<open>va_list\<close>: an integer, or a pointer with the bytes readable there.\<close>

datatype va_arg = VA_int u32 | VA_ptr "u8 list"

definition encode_msgid :: "u16 \<Rightarrow> u8 list" where
  "encode_msgid encoded_msgid =
     (if encoded_msgid \<ge> 0x80 then [ucast (drop_bit 7 encoded_msgid) OR 0x80] else [])
     @ [ucast (encoded_msgid AND 0x7f)]"

text \<open>A write of several bytes at an index; \<^const>\<open>None\<close> when it leaves the buffer.\<close>

definition wr_bytes :: "'a list \<Rightarrow> nat \<Rightarrow> 'a list \<Rightarrow> 'a list option" where
  "wr_bytes buf p bs =
     (if p + length bs \<le> length buf then Some (take p buf @ bs @ drop (p + length bs) buf) else None)"

text \<open>
  The bytes one parameter puts at \<open>p\<close>, and the remaining arguments. \<^const>\<open>None\<close> is a read that leaves
  an argument or an argument list that does not fit the types.
\<close>

fun encode_param :: "ptype \<Rightarrow> va_arg list \<Rightarrow> nat \<Rightarrow> nat \<Rightarrow> (u8 list \<times> va_arg list) option" where
  "encode_param PT_string (VA_ptr s # args) maxend p =
     (let cs = take (maxend - (p + 1)) (takeWhile (\<lambda>c. c \<noteq> 0) s)
      in if 0 \<in> set s \<or> maxend - (p + 1) < length s
         then Some (of_nat (length cs) # cs, args) else None)"
| "encode_param PT_string _ maxend p = None"
| "encode_param PT_progmem_buffer (VA_int v # VA_ptr s # args) maxend p =
     (let n = (if unat v > maxend - p then maxend - p else unat v)
      in if n \<le> length s then Some (of_nat n # take n s, args) else None)"
| "encode_param PT_progmem_buffer _ maxend p = None"
| "encode_param PT_buffer (VA_int v # VA_ptr s # args) maxend p =
     (let n = (if unat v > maxend - p then maxend - p else unat v)
      in if n \<le> length s then Some (of_nat n # take n s, args) else None)"
| "encode_param PT_buffer _ maxend p = None"
| "encode_param _ (VA_int v # args) maxend p = Some (encode_int v, args)"
| "encode_param _ _ maxend p = None"

fun encodef_loop ::
  "ptype list \<Rightarrow> va_arg list \<Rightarrow> nat \<Rightarrow> u8 list \<Rightarrow> nat \<Rightarrow> 's \<Rightarrow> (u8 list \<times> nat, 's) outcome" where
  "encodef_loop [] args maxend buf p s = Ret (buf, p) s"
| "encodef_loop (t # ts) args maxend buf p s =
     (if p > maxend then sched_shutdown ''Message encode error'' s
      else case encode_param t args maxend p of
             None \<Rightarrow> Fault
           | Some (bs, args) \<Rightarrow>
               (case wr_bytes buf p bs of
                  None \<Rightarrow> Fault
                | Some buf \<Rightarrow> encodef_loop ts args maxend buf (p + length bs) s))"

definition command_encodef ::
  "u8 list \<Rightarrow> command_encoder \<Rightarrow> va_arg list \<Rightarrow> 's \<Rightarrow> (u8 list \<times> nat, 's) outcome" where
  "command_encodef buf ce args s =
     (let max_size = ce_max_size ce in
      if max_size \<le> MESSAGE_MIN then Ret (buf, max_size) s
      else let p = MESSAGE_HEADER_SIZE;
               maxend = p + (max_size - MESSAGE_MIN);
               id = encode_msgid (ce_msgid ce)
           in case wr_bytes buf p id of
                None \<Rightarrow> Fault
              | Some buf \<Rightarrow>
                  obind (encodef_loop (ce_param_types ce) args maxend buf (p + length id) s)
                    (\<lambda>(buf, p) s. Ret (buf, p + MESSAGE_TRAILER_SIZE) s))"

definition command_add_frame :: "u8 list \<Rightarrow> nat \<Rightarrow> 'z console_state_scheme \<Rightarrow> u8 list option" where
  "command_add_frame buf msglen s =
     do {
       buf \<leftarrow> wr_bytes buf MESSAGE_POS_LEN [of_nat msglen];
       buf \<leftarrow> wr_bytes buf MESSAGE_POS_SEQ [next_sequence s];
       crc \<leftarrow> crc16_ccitt buf (msglen - MESSAGE_TRAILER_SIZE);
       buf \<leftarrow> wr_bytes buf (msglen - MESSAGE_TRAILER_CRC + 0) [ucast (drop_bit 8 crc)];
       buf \<leftarrow> wr_bytes buf (msglen - MESSAGE_TRAILER_CRC + 1) [ucast crc];
       wr_bytes buf (msglen - MESSAGE_TRAILER_SYNC) [MESSAGE_SYNC]
     }"

definition command_encode_and_frame ::
  "u8 list \<Rightarrow> command_encoder \<Rightarrow> va_arg list \<Rightarrow> 'z console_state_scheme \<Rightarrow>
   (u8 list \<times> nat, 'z console_state_scheme) outcome" where
  "command_encode_and_frame buf ce args s =
     obind (command_encodef buf ce args s) (\<lambda>(buf, msglen) s.
       case command_add_frame buf msglen s of
         None \<Rightarrow> Fault
       | Some buf \<Rightarrow> Ret (buf, msglen) s)"

end
