(* ===== verification/Sched.thy ===== *)
theory Sched
  imports Console
begin

text \<open>
  The scheduler of the firmware, \<open>src/sched.c\<close>: the linked list of timers, the task wake flags and
  the shutdown state. \<open>struct timer\<close> objects live in a store indexed by their address; the list is
  the chain of \<open>next\<close> pointers in that store, as in the code. The board's clock register is an
  input tape (\<open>clk\<close>), read once per \<open>timer_read_time()\<close>. Code that runs with interrupts disabled
  is one step of the model, so \<open>irq_save\<close>/\<open>irq_restore\<close> have no counterpart.
\<close>

section \<open>State\<close>

text \<open>
  Addresses of timers: the three static ones of \<open>sched.c\<close>, and the ones embedded in an object,
  named by the object's address and the number of the timer field in it (\<open>container_of\<close> is the
  projection to the object).
\<close>

datatype taddr = Periodic_timer | Sentinel_timer | Deleted_timer | Obj_timer nat nat

text \<open>The callbacks a timer's \<open>func\<close> can point to.\<close>

datatype tfunc =
    Periodic_event | Sentinel_event | Deleted_event
  | Stepper_event | Stepper_event_full
  | Trsync_expire_event | Trsync_report_event
  | Endstop_event | Endstop_oversample_event
  | Digital_toggle_event | Digital_load_event
  | Pwm_event | Pwm_end_event
  | Analog_in_event | Buttons_event | Counter_event

datatype sf = SF_DONE | SF_RESCHEDULE

record timer =
  t_next :: "taddr option"
  t_func :: "tfunc option"
  t_waketime :: u32

definition zero_timer :: timer where
  "zero_timer = \<lparr>t_next = None, t_func = None, t_waketime = 0\<rparr>"

record sched_state = console_state +
  timers :: "taddr \<Rightarrow> timer"
  timer_list :: taddr
  last_insert :: taddr
  tasks_status :: int
  tasks_busy :: int
  shutdown_status :: u8
  shutdown_reason :: string
  task_wakes :: "string \<Rightarrow> u8"
  timer_kicked :: bool
  clk :: "nat \<Rightarrow> u32"
  clk_pos :: nat
  cfg_clock_freq :: u32
  cfg_inline_stepper_hack :: bool

abbreviation waketime :: "('z) sched_state_scheme \<Rightarrow> taddr \<Rightarrow> u32" where
  "waketime s t \<equiv> t_waketime (timers s t)"

definition upd_timer :: "taddr \<Rightarrow> (timer \<Rightarrow> timer) \<Rightarrow> 'z sched_state_scheme \<Rightarrow> 'z sched_state_scheme" where
  "upd_timer t f s = s\<lparr>timers := (timers s)(t := f (timers s t))\<rparr>"

definition set_waketime :: "taddr \<Rightarrow> u32 \<Rightarrow> 'z sched_state_scheme \<Rightarrow> 'z sched_state_scheme" where
  "set_waketime t w = upd_timer t (\<lambda>x. x\<lparr>t_waketime := w\<rparr>)"

definition set_next :: "taddr \<Rightarrow> taddr option \<Rightarrow> 'z sched_state_scheme \<Rightarrow> 'z sched_state_scheme" where
  "set_next t n = upd_timer t (\<lambda>x. x\<lparr>t_next := n\<rparr>)"

definition set_func :: "taddr \<Rightarrow> tfunc \<Rightarrow> 'z sched_state_scheme \<Rightarrow> 'z sched_state_scheme" where
  "set_func t f = upd_timer t (\<lambda>x. x\<lparr>t_func := Some f\<rparr>)"

section \<open>The board's timer helpers\<close>

definition timer_is_before :: "u32 \<Rightarrow> u32 \<Rightarrow> bool" where
  "timer_is_before time1 time2 \<longleftrightarrow> sint (time1 - time2) < 0"

definition timer_from_us :: "'z sched_state_scheme \<Rightarrow> u32 \<Rightarrow> u32" where
  "timer_from_us s us = us * (cfg_clock_freq s div 1000000)"

definition timer_read_time :: "'z sched_state_scheme \<Rightarrow> u32 \<times> 'z sched_state_scheme" where
  "timer_read_time s = (clk s (clk_pos s), s\<lparr>clk_pos := Suc (clk_pos s)\<rparr>)"

section \<open>Tasks and shutdown\<close>

definition TS_IDLE :: int where "TS_IDLE = -1"

definition TS_REQUESTED :: int where "TS_REQUESTED = 0"

definition TS_RUNNING :: int where "TS_RUNNING = 1"

definition sched_wake_tasks :: "'z sched_state_scheme \<Rightarrow> 'z sched_state_scheme" where
  "sched_wake_tasks s = s\<lparr>tasks_status := TS_REQUESTED\<rparr>"

definition sched_check_set_tasks_busy :: "'z sched_state_scheme \<Rightarrow> bool \<times> 'z sched_state_scheme" where
  "sched_check_set_tasks_busy s =
     (if tasks_busy s \<ge> TS_REQUESTED then (True, s)
      else (False, s\<lparr>tasks_busy := tasks_status s\<rparr>))"

definition sched_wake_task :: "string \<Rightarrow> 'z sched_state_scheme \<Rightarrow> 'z sched_state_scheme" where
  "sched_wake_task w s =
     (let s = sched_wake_tasks s in s\<lparr>task_wakes := (task_wakes s)(w := 1)\<rparr>)"

definition sched_check_wake :: "string \<Rightarrow> 'z sched_state_scheme \<Rightarrow> bool \<times> 'z sched_state_scheme" where
  "sched_check_wake w s =
     (if task_wakes s w = 0 then (False, s)
      else (True, s\<lparr>task_wakes := (task_wakes s)(w := 0)\<rparr>))"

definition sched_is_shutdown :: "'z sched_state_scheme \<Rightarrow> bool" where
  "sched_is_shutdown s \<longleftrightarrow> shutdown_status s \<noteq> 0"

definition sched_try_shutdown :: "string \<Rightarrow> 'z sched_state_scheme \<Rightarrow> (unit, 'z sched_state_scheme) outcome" where
  "sched_try_shutdown reason s =
     (if shutdown_status s = 0 then sched_shutdown reason s else Ret () s)"

definition sched_clear_shutdown :: "'z sched_state_scheme \<Rightarrow> (unit, 'z sched_state_scheme) outcome" where
  "sched_clear_shutdown s =
     (if shutdown_status s = 0 then sched_shutdown ''Shutdown cleared when not shutdown'' s
      else if shutdown_status s = 2 then Ret () s
      else Ret () (s\<lparr>shutdown_status := 0\<rparr>))"

definition sched_report_shutdown :: "'z sched_state_scheme \<Rightarrow> 'z sched_state_scheme" where
  "sched_report_shutdown s =
     sendf ''is_shutdown static_string_id=%hu'' [Static_string (shutdown_reason s)] s"

section \<open>Timers\<close>

definition periodic_event :: "'z sched_state_scheme \<Rightarrow> (sf, 'z sched_state_scheme) outcome" where
  "periodic_event s =
     (let s = sched_wake_tasks s;
          s = set_waketime Periodic_timer (waketime s Periodic_timer + timer_from_us s 100000) s;
          s = set_waketime Sentinel_timer (waketime s Periodic_timer + 0x80000000) s
      in Ret SF_RESCHEDULE s)"

definition sentinel_event :: "'z sched_state_scheme \<Rightarrow> (sf, 'z sched_state_scheme) outcome" where
  "sentinel_event s = sched_shutdown ''sentinel timer called'' s"

definition deleted_event :: "'z sched_state_scheme \<Rightarrow> (sf, 'z sched_state_scheme) outcome" where
  "deleted_event s = Ret SF_DONE s"

text \<open>
  The loop of \<open>insert_timer\<close>: the pair \<open>(prev, pos)\<close> it stops at. \<^const>\<open>None\<close> is a read through
  NULL or a walk that never ends.
\<close>

partial_function (option) insert_pos :: "(taddr \<Rightarrow> timer) \<Rightarrow> u32 \<Rightarrow> taddr \<Rightarrow> (taddr \<times> taddr) option" where
  "insert_pos tm w prev =
     (case t_next (tm prev) of
        None \<Rightarrow> None
      | Some pos \<Rightarrow>
          if timer_is_before w (t_waketime (tm pos)) then Some (prev, pos)
          else insert_pos tm w pos)"

definition insert_timer :: "taddr \<Rightarrow> taddr \<Rightarrow> u32 \<Rightarrow> 'z sched_state_scheme \<Rightarrow> (unit, 'z sched_state_scheme) outcome" where
  "insert_timer pos t w s =
     (case insert_pos (timers s) w pos of
        None \<Rightarrow> Fault
      | Some (prev, pos) \<Rightarrow> Ret () (set_next prev (Some t) (set_next t (Some pos) s)))"

definition sched_add_timer :: "taddr \<Rightarrow> 'z sched_state_scheme \<Rightarrow> (unit, 'z sched_state_scheme) outcome" where
  "sched_add_timer add s =
     (let w = waketime s add; tl = timer_list s in
      if timer_is_before w (waketime s tl) then
        (let (now, s) = timer_read_time s in
         obind (if timer_is_before w now then sched_try_shutdown ''Timer too close'' s else Ret () s)
           (\<lambda>_ s.
             let s = (if tl = Deleted_timer then set_next add (t_next (timers s Deleted_timer)) s
                      else set_next add (Some tl) s);
                 s = set_waketime Deleted_timer w s;
                 s = set_next Deleted_timer (Some add) s
             in Ret () (s\<lparr>timer_list := Deleted_timer, timer_kicked := True\<rparr>)))
      else insert_timer tl add w s)"

text \<open>
  The search loop of \<open>sched_del_timer\<close>: \<open>Some (Some pos)\<close> when \<open>pos->next == del\<close>,
  \<open>Some None\<close> at the end of the list.
\<close>

partial_function (option) del_pos :: "(taddr \<Rightarrow> timer) \<Rightarrow> taddr \<Rightarrow> taddr \<Rightarrow> taddr option option" where
  "del_pos tm del pos =
     (case t_next (tm pos) of
        None \<Rightarrow> Some None
      | Some n \<Rightarrow> if n = del then Some (Some pos) else del_pos tm del n)"

definition sched_del_timer :: "taddr \<Rightarrow> 'z sched_state_scheme \<Rightarrow> (unit, 'z sched_state_scheme) outcome" where
  "sched_del_timer del s =
     obind
       (if timer_list s = del then
          (let s = set_waketime Deleted_timer (waketime s del) s;
               s = set_next Deleted_timer (t_next (timers s del)) s
           in Ret () (s\<lparr>timer_list := Deleted_timer\<rparr>))
        else
          (case del_pos (timers s) del (timer_list s) of
             None \<Rightarrow> Fault
           | Some None \<Rightarrow> Ret () s
           | Some (Some pos) \<Rightarrow> Ret () (set_next pos (t_next (timers s del)) s)))
       (\<lambda>_ s. Ret () (if last_insert s = del then s\<lparr>last_insert := Periodic_timer\<rparr> else s))"

text \<open>
  \<open>t->func(t)\<close>: the callbacks of \<open>sched.c\<close> are defined above, those of the other components are
  the argument \<open>call\<close>. A NULL \<open>func\<close> is the inlined stepper callback
  where the build enables it.
\<close>

definition call_func ::
  "(tfunc \<Rightarrow> taddr \<Rightarrow> 'z sched_state_scheme \<Rightarrow> (sf, 'z sched_state_scheme) outcome) \<Rightarrow>
   taddr \<Rightarrow> 'z sched_state_scheme \<Rightarrow> (sf, 'z sched_state_scheme) outcome" where
  "call_func call t s =
     (case t_func (timers s t) of
        None \<Rightarrow> if cfg_inline_stepper_hack s then call Stepper_event t s else Fault
      | Some Periodic_event \<Rightarrow> periodic_event s
      | Some Sentinel_event \<Rightarrow> sentinel_event s
      | Some Deleted_event \<Rightarrow> deleted_event s
      | Some f \<Rightarrow> call f t s)"

definition sched_timer_dispatch ::
  "(tfunc \<Rightarrow> taddr \<Rightarrow> 'z sched_state_scheme \<Rightarrow> (sf, 'z sched_state_scheme) outcome) \<Rightarrow>
   'z sched_state_scheme \<Rightarrow> (u32, 'z sched_state_scheme) outcome" where
  "sched_timer_dispatch call s =
     (let t = timer_list s in
      obind (call_func call t s) (\<lambda>res s.
        let updated_waketime = waketime s t in
        case t_next (timers s t) of
          None \<Rightarrow> Fault
        | Some n \<Rightarrow>
            if res = SF_DONE then
              Ret (waketime s n)
                (s\<lparr>timer_list := n, last_insert := (if last_insert s = t then n else last_insert s)\<rparr>)
            else if \<not> timer_is_before updated_waketime (waketime s n) then
              (let next_waketime = waketime s n;
                   s = s\<lparr>timer_list := n\<rparr>;
                   pos = last_insert s;
                   pos = (if timer_is_before updated_waketime (waketime s pos) then timer_list s else pos)
               in obind (insert_timer pos t updated_waketime s)
                    (\<lambda>_ s. Ret next_waketime (s\<lparr>last_insert := t\<rparr>)))
            else Ret updated_waketime s))"

definition sched_timer_reset :: "'z sched_state_scheme \<Rightarrow> 'z sched_state_scheme" where
  "sched_timer_reset s =
     (let s = s\<lparr>timer_list := Deleted_timer\<rparr>;
          s = set_waketime Deleted_timer (waketime s Periodic_timer) s;
          s = s\<lparr>last_insert := Periodic_timer\<rparr>;
          s = set_next Deleted_timer (Some Periodic_timer) s;
          s = set_next Periodic_timer (Some Sentinel_timer) s
      in s\<lparr>timer_kicked := True\<rparr>)"

text \<open>
  \<open>run_shutdown\<close>; \<open>shutdownfuncs\<close> is the build's list of \<open>DECL_SHUTDOWN\<close> functions
  (\<open>ctr_run_shutdownfuncs\<close>).
\<close>

definition run_shutdown ::
  "('z sched_state_scheme \<Rightarrow> (unit, 'z sched_state_scheme) outcome) \<Rightarrow> string \<Rightarrow>
   'z sched_state_scheme \<Rightarrow> (unit, 'z sched_state_scheme) outcome" where
  "run_shutdown shutdownfuncs reason s =
     (let (cur, s) = timer_read_time s;
          s = (if shutdown_status s = 0 then s\<lparr>shutdown_reason := reason\<rparr> else s);
          s = s\<lparr>shutdown_status := 2\<rparr>;
          s = sched_timer_reset s
      in obind (shutdownfuncs s) (\<lambda>_ s.
           let s = s\<lparr>shutdown_status := 1\<rparr>
           in Ret () (sendf ''shutdown clock=%u static_string_id=%hu''
                [Num cur, Static_string (shutdown_reason s)] s)))"

section \<open>Initial state\<close>

text \<open>
  The static initialisers of \<open>sched.c\<close>; the clock tape and the build's constants are arguments.
\<close>

definition init_timers :: "taddr \<Rightarrow> timer" where
  "init_timers t =
     (case t of
        Periodic_timer \<Rightarrow> \<lparr>t_next = Some Sentinel_timer, t_func = Some Periodic_event, t_waketime = 0\<rparr>
      | Sentinel_timer \<Rightarrow> \<lparr>t_next = None, t_func = Some Sentinel_event, t_waketime = 0x80000000\<rparr>
      | Deleted_timer \<Rightarrow> \<lparr>t_next = None, t_func = Some Deleted_event, t_waketime = 0\<rparr>
      | Obj_timer a i \<Rightarrow> zero_timer)"

definition sched_init :: "(nat \<Rightarrow> u32) \<Rightarrow> u32 \<Rightarrow> bool \<Rightarrow> sched_state" where
  "sched_init c freq hack =
     \<lparr>next_sequence = MESSAGE_DEST, sync_state = 0, in_sendf = 0, sent = [],
      timers = init_timers, timer_list = Periodic_timer, last_insert = Periodic_timer,
      tasks_status = 0, tasks_busy = 0, shutdown_status = 0, shutdown_reason = '''',
      task_wakes = (\<lambda>_. 0), timer_kicked = False, clk = c, clk_pos = 0,
      cfg_clock_freq = freq, cfg_inline_stepper_hack = hack\<rparr>"

end
