(* ===== verification/Sched_List.thy ===== *)
theory Sched_List
  imports Sched
begin

text \<open>
  The timer list of \<open>src/sched.c\<close> as a sorted list: the representation invariant \<open>sched_inv\<close>, what
  \<open>sched_add_timer\<close>, \<open>sched_del_timer\<close> and \<open>sched_timer_dispatch\<close> do to the list, and the contract
  the other components use, the locale \<open>timer_queue\<close>. Times are compared on the circular 32-bit clock; a
  list is ordered from a base time when every wake time is less than half a turn after it.
\<close>

section \<open>The circular clock\<close>

lemma timer_is_before_iff: "timer_is_before a b \<longleftrightarrow> 2 ^ 31 \<le> unat (a - b)"
  by (simp add: timer_is_before_def sint_neg_iff)

lemma timer_is_before_window:
  assumes "unat (a - c) < 2 ^ 31" "unat (b - c) < 2 ^ 31"
  shows "timer_is_before a b \<longleftrightarrow> unat (a - c) < unat (b - c)"
proof -
  have "a - b = (a - c) - (b - c)" by simp
  then show ?thesis
    using assms unat_sub_if_size [of "a - c" "b - c"] by (auto simp: timer_is_before_iff word_size)
qed

text \<open>Every time is before the periodic timer or before the sentinel, half a turn after it.\<close>

lemma sentinel_catches: "timer_is_before w p \<longleftrightarrow> \<not> timer_is_before w (p + 0x80000000)"
proof -
  let ?d = "w - p"
  have "w - (p + 0x80000000) = ?d - 0x80000000" by simp
  moreover have "unat (?d - 0x80000000) = (if 2 ^ 31 \<le> unat ?d then unat ?d - 2 ^ 31 else unat ?d + 2 ^ 31)"
    using unsigned_less [of ?d, where ?'a = nat] by (auto simp: unat_sub_if_size word_size)
  ultimately have "unat (w - (p + 0x80000000)) = (if 2 ^ 31 \<le> unat ?d then unat ?d - 2 ^ 31 else unat ?d + 2 ^ 31)"
    by argo
  then show ?thesis using unsigned_less [of ?d, where ?'a = nat] by (auto simp: timer_is_before_iff)
qed

section \<open>Chains of next pointers\<close>

fun linked :: "(taddr \<Rightarrow> timer) \<Rightarrow> taddr list \<Rightarrow> bool" where
  "linked tm [] \<longleftrightarrow> True"
| "linked tm [a] \<longleftrightarrow> t_next (tm a) = None"
| "linked tm (a # b # r) \<longleftrightarrow> t_next (tm a) = Some b \<and> linked tm (b # r)"

lemma linked_cong:
  "(\<And>a. a \<in> set xs \<Longrightarrow> t_next (tm' a) = t_next (tm a)) \<Longrightarrow> linked tm' xs = linked tm xs"
  by (induction tm xs rule: linked.induct) auto

lemma linked_frame:
  "linked tm xs \<Longrightarrow> (\<And>a. a \<in> set xs \<Longrightarrow> t_next (tm' a) = t_next (tm a)) \<Longrightarrow> linked tm' xs"
  using linked_cong by blast

lemma linked_upd [simp]: "a \<notin> set xs \<Longrightarrow> linked (tm(a := x)) xs = linked tm xs"
  by (rule linked_cong) auto

lemma linked_next: "linked tm (as @ a # b # bs) \<Longrightarrow> t_next (tm a) = Some b"
  by (induction tm as rule: linked.induct) auto

lemma linked_tl: "linked tm (as @ bs) \<Longrightarrow> linked tm bs"
proof (induction as)
  case (Cons a as)
  then have "linked tm (as @ bs)" by (cases "as @ bs") auto
  then show ?case by (rule Cons.IH)
qed simp

lemma linked_insert:
  assumes "linked tm (as @ bs)" "as \<noteq> []" "bs \<noteq> []" "t \<notin> set (as @ bs)" "distinct (as @ bs)"
  shows "linked (tm(t := (tm t)\<lparr>t_next := Some (hd bs)\<rparr>, last as := (tm (last as))\<lparr>t_next := Some t\<rparr>))
           (as @ t # bs)"
  using assms
proof (induction as)
  case Nil
  then show ?case by simp
next
  case (Cons a as)
  show ?case
  proof (cases as)
    case Nil
    with Cons.prems show ?thesis
      by (cases bs) (auto elim!: linked_frame)
  next
    case (Cons a' as')
    with Cons.prems Cons.IH show ?thesis by (auto split: if_splits)
  qed
qed

lemma linked_remove:
  assumes "linked tm (as @ a # d # bs)" "distinct (as @ a # d # bs)"
  shows "linked (tm(a := (tm a)\<lparr>t_next := t_next (tm d)\<rparr>)) (as @ a # bs)"
  using assms
proof (induction as)
  case Nil
  then show ?case by (cases bs) (auto elim!: linked_frame)
next
  case (Cons x as)
  then show ?case by (cases as) auto
qed

lemma insert_pos_chain:
  assumes "linked tm (p # ys)" "\<exists>y \<in> set ys. timer_is_before w (t_waketime (tm y))"
  shows "insert_pos tm w p =
     Some (last (p # takeWhile (\<lambda>y. \<not> timer_is_before w (t_waketime (tm y))) ys),
           hd (dropWhile (\<lambda>y. \<not> timer_is_before w (t_waketime (tm y))) ys))"
  using assms
proof (induction ys arbitrary: p)
  case Nil
  then show ?case by simp
next
  case (Cons y ys)
  show ?case
  proof (cases "timer_is_before w (t_waketime (tm y))")
    case True
    with Cons.prems show ?thesis by (subst insert_pos.simps) simp
  next
    case False
    with Cons.prems Cons.IH [of y] show ?thesis by (subst insert_pos.simps) simp
  qed
qed

lemma del_pos_chain:
  assumes "linked tm (p # ys)"
  shows "del_pos tm d p =
     Some (if d \<in> set ys then Some (last (p # takeWhile (\<lambda>y. y \<noteq> d) ys)) else None)"
  using assms
proof (induction ys arbitrary: p)
  case Nil
  then show ?case by (subst del_pos.simps) simp
next
  case (Cons y ys)
  then show ?case using Cons.IH [of y] by (subst del_pos.simps) simp
qed

section \<open>The timer list\<close>

definition sched_list :: "'z sched_state_scheme \<Rightarrow> taddr list \<Rightarrow> bool" where
  "sched_list s xs \<longleftrightarrow>
     xs \<noteq> [] \<and> timer_list s = hd xs \<and> linked (timers s) (xs @ [Sentinel_timer])
     \<and> distinct (xs @ [Sentinel_timer]) \<and> Periodic_timer \<in> set xs \<and> Deleted_timer \<notin> set (tl xs)
     \<and> last_insert s \<in> set xs - {Deleted_timer}
     \<and> waketime s Sentinel_timer = waketime s Periodic_timer + 0x80000000"

definition off :: "'z sched_state_scheme \<Rightarrow> u32 \<Rightarrow> taddr \<Rightarrow> nat" where
  "off s b t = unat (waketime s t - b)"

definition ordered_from :: "'z sched_state_scheme \<Rightarrow> u32 \<Rightarrow> taddr list \<Rightarrow> bool" where
  "ordered_from s b xs \<longleftrightarrow> sorted (map (off s b) xs) \<and> (\<forall>x \<in> set xs. off s b x < 2 ^ 31)"

definition sched_inv :: "'z sched_state_scheme \<Rightarrow> taddr list \<Rightarrow> bool" where
  "sched_inv s xs \<longleftrightarrow> sched_list s xs \<and> ordered_from s (waketime s (hd xs)) xs"

definition ins_after :: "('a \<Rightarrow> nat) \<Rightarrow> nat \<Rightarrow> 'a \<Rightarrow> 'a list \<Rightarrow> 'a list" where
  "ins_after key k t xs = takeWhile (\<lambda>x. key x \<le> k) xs @ t # dropWhile (\<lambda>x. key x \<le> k) xs"

lemma set_ins_after [simp]: "set (ins_after key k t xs) = insert t (set xs)"
proof -
  have "set xs = set (takeWhile (\<lambda>x. key x \<le> k) xs) \<union> set (dropWhile (\<lambda>x. key x \<le> k) xs)"
    by (metis set_append takeWhile_dropWhile_id)
  then show ?thesis by (auto simp: ins_after_def)
qed

lemma distinct_ins_after: "distinct xs \<Longrightarrow> t \<notin> set xs \<Longrightarrow> distinct (ins_after key k t xs)"
proof -
  assume "distinct xs" "t \<notin> set xs"
  then have "distinct (takeWhile (\<lambda>x. key x \<le> k) xs @ dropWhile (\<lambda>x. key x \<le> k) xs)"
    "t \<notin> set (takeWhile (\<lambda>x. key x \<le> k) xs @ dropWhile (\<lambda>x. key x \<le> k) xs)" by auto
  then show ?thesis by (auto simp: ins_after_def simp del: takeWhile_dropWhile_id)
qed

lemma sorted_dropWhile_gt:
  assumes "sorted (map key xs)" "y \<in> set (dropWhile (\<lambda>x. key x \<le> (k::nat)) xs)"
  shows "k < key y"
  using assms by (induction xs) (auto split: if_splits)

lemma sorted_ins_after:
  assumes "sorted (map key xs)" "key t = k"
  shows "sorted (map key (ins_after key k t xs))"
proof -
  have "sorted (map key (takeWhile (\<lambda>x. key x \<le> k) xs @ dropWhile (\<lambda>x. key x \<le> k) xs))"
    using assms(1) by simp
  then show ?thesis
    using assms sorted_dropWhile_gt [OF assms(1), of _ k]
    by (force simp: ins_after_def sorted_append simp del: takeWhile_dropWhile_id dest: set_takeWhileD)
qed

lemma off_self [simp]: "off s (waketime s t) t = 0"
  by (simp add: off_def)

lemma ordered_from_rebase:
  assumes "ordered_from s b xs" "unat (c - b) < 2 ^ 31" "\<forall>x \<in> set xs. unat (c - b) \<le> off s b x"
  shows "ordered_from s c xs"
proof -
  have o: "off s c x = off s b x - unat (c - b)" if "x \<in> set xs" for x
    unfolding off_def by (rule unat_diff_rebase) (use assms(3) that in \<open>simp add: off_def\<close>)
  have "map (off s c) xs = map (\<lambda>k. k - unat (c - b)) (map (off s b) xs)"
    using o by simp
  moreover have "sorted (map (\<lambda>k. k - unat (c - b)) ks)" if "sorted ks" for ks
    using that by (induction ks) (auto simp: diff_le_mono)
  ultimately have "sorted (map (off s c) xs)"
    using assms(1) unfolding ordered_from_def by metis
  with assms(1) o show ?thesis by (fastforce simp: ordered_from_def)
qed

lemma timer_is_before_off:
  "off s b x < 2 ^ 31 \<Longrightarrow> unat (w - b) < 2 ^ 31 \<Longrightarrow>
   timer_is_before w (waketime s x) \<longleftrightarrow> unat (w - b) < off s b x"
  by (simp add: off_def timer_is_before_window [of w b])

text \<open>Walking from the head and from any timer not after \<open>w\<close> find the same place.\<close>

text \<open>The sentinel is after every time that no timer in the list is after.\<close>

lemma sentinel_before:
  assumes "sched_list s xs" "ordered_from s b xs" "unat (w - b) < 2 ^ 31"
    "\<forall>x \<in> set xs. off s b x \<le> unat (w - b)"
  shows "timer_is_before w (waketime s Sentinel_timer)"
proof -
  have "Periodic_timer \<in> set xs" using assms(1) by (simp add: sched_list_def)
  then have "off s b Periodic_timer < 2 ^ 31" "off s b Periodic_timer \<le> unat (w - b)"
    using assms(2,4) unfolding ordered_from_def by blast+
  then have "\<not> timer_is_before w (waketime s Periodic_timer)"
    using assms(3) timer_is_before_off [of s b Periodic_timer w] by simp
  with assms(1) sentinel_catches [of w "waketime s Periodic_timer"] show ?thesis by (simp add: sched_list_def)
qed

lemma insert_timer_chain:
  assumes l: "linked (timers s) (xs @ [Sentinel_timer])" "distinct (xs @ [Sentinel_timer])"
    and t: "t \<notin> set (xs @ [Sentinel_timer])" "waketime s t = w"
    and o: "ordered_from s b xs" "unat (w - b) < 2 ^ 31"
    and S: "\<forall>x \<in> set xs. off s b x \<le> unat (w - b) \<Longrightarrow> timer_is_before w (waketime s Sentinel_timer)"
    and pos: "pos \<in> set xs" "off s b pos \<le> unat (w - b)"
  shows "insert_timer pos t w s =
    Ret () (s\<lparr>timers := (timers s)
       (t := (timers s t)\<lparr>t_next := Some (hd (dropWhile (\<lambda>x. off s b x \<le> unat (w - b)) xs @ [Sentinel_timer]))\<rparr>,
        last (takeWhile (\<lambda>x. off s b x \<le> unat (w - b)) xs) :=
          (timers s (last (takeWhile (\<lambda>x. off s b x \<le> unat (w - b)) xs)))\<lparr>t_next := Some t\<rparr>)\<rparr>)"
proof -
  let ?k = "unat (w - b)"
  let ?le = "\<lambda>x. off s b x \<le> ?k"
  obtain as bs where xs: "xs = as @ pos # bs" using pos(1) by (auto dest: split_list)
  have as: "\<forall>x \<in> set as. ?le x"
    using o(1) pos(2) by (auto simp: ordered_from_def xs sorted_append)
  have B: "timer_is_before w (waketime s x) \<longleftrightarrow> \<not> ?le x" if "x \<in> set xs" for x
    using o that timer_is_before_off [of s b x w] by (auto simp: ordered_from_def)
  let ?nb = "\<lambda>y. \<not> timer_is_before w (waketime s y)"
  have ex: "\<exists>y \<in> set (bs @ [Sentinel_timer]). timer_is_before w (waketime s y)"
  proof (cases "\<forall>x \<in> set xs. ?le x")
    case False
    then obtain x where "x \<in> set xs" "\<not> ?le x" by blast
    moreover from this have "x \<in> set bs" using as pos(2) by (auto simp: xs)
    ultimately show ?thesis using B by auto
  qed (use S in simp)
  have tw: "takeWhile ?nb (bs @ [Sentinel_timer]) = takeWhile ?le bs"
    "dropWhile ?nb (bs @ [Sentinel_timer]) = dropWhile ?le bs @ [Sentinel_timer]"
  proof -
    have eq: "takeWhile ?nb bs = takeWhile ?le bs" "dropWhile ?nb bs = dropWhile ?le bs"
      using B by (auto simp: xs intro!: takeWhile_cong dropWhile_cong)
    have "?le x" if "x \<in> set xs" "\<forall>x \<in> set bs. ?nb x" for x
      using that as pos(2) B by (auto simp: xs)
    then have all: "timer_is_before w (waketime s Sentinel_timer)" if "\<forall>x \<in> set bs. ?nb x"
      using S that by blast
    have "takeWhile ?nb (bs @ [Sentinel_timer]) = takeWhile ?nb bs"
      "dropWhile ?nb (bs @ [Sentinel_timer]) = dropWhile ?nb bs @ [Sentinel_timer]"
      using all by (induction bs) auto
    with eq show "takeWhile ?nb (bs @ [Sentinel_timer]) = takeWhile ?le bs"
      "dropWhile ?nb (bs @ [Sentinel_timer]) = dropWhile ?le bs @ [Sentinel_timer]" by simp_all
  qed
  have "linked (timers s) (pos # bs @ [Sentinel_timer])"
    using l(1) linked_tl [of "timers s" as] by (simp add: xs)
  then have ip: "insert_pos (timers s) w pos =
      Some (last (pos # takeWhile ?le bs), hd (dropWhile ?le bs @ [Sentinel_timer]))"
    using insert_pos_chain ex tw by simp
  have full: "takeWhile ?le xs = as @ pos # takeWhile ?le bs" "dropWhile ?le xs = dropWhile ?le bs"
    using as pos(2) by (auto simp: xs takeWhile_append dropWhile_append)
  have "last (takeWhile ?le xs) \<noteq> t"
    using t(1) full last_in_set [of "takeWhile ?le xs"] set_takeWhileD [of "last (takeWhile ?le xs)" ?le xs]
    by auto
  then show ?thesis
    by (simp add: insert_timer_def ip full set_next_def upd_timer_def)
qed

definition times_kept :: "'z sched_state_scheme \<Rightarrow> 'z sched_state_scheme \<Rightarrow> bool" where
  "times_kept s s' \<longleftrightarrow> s' = s\<lparr>timers := timers s'\<rparr>
     \<and> (\<forall>x. t_waketime (timers s' x) = t_waketime (timers s x) \<and> t_func (timers s' x) = t_func (timers s x))"

lemma times_kept_fields:
  assumes "times_kept s s'"
  shows "waketime s' x = waketime s x" "timer_list s' = timer_list s" "last_insert s' = last_insert s"
    "off s' b x = off s b x"
proof -
  have e: "s' = s\<lparr>timers := timers s'\<rparr>" using assms by (simp add: times_kept_def)
  show "timer_list s' = timer_list s" "last_insert s' = last_insert s" by (subst e, simp)+
qed (use assms in \<open>simp_all add: times_kept_def off_def\<close>)

lemma insert_timer_list:
  assumes "linked (timers s) (xs @ [Sentinel_timer])" "distinct (xs @ [Sentinel_timer])"
    and "t \<notin> set (xs @ [Sentinel_timer])" "waketime s t = w"
    and "ordered_from s b xs" "unat (w - b) < 2 ^ 31"
    and "\<forall>x \<in> set xs. off s b x \<le> unat (w - b) \<Longrightarrow> timer_is_before w (waketime s Sentinel_timer)"
    and pos: "pos \<in> set xs" "off s b pos \<le> unat (w - b)"
  obtains s' where "insert_timer pos t w s = Ret () s'" "times_kept s s'"
    "linked (timers s') (ins_after (off s b) (unat (w - b)) t xs @ [Sentinel_timer])"
proof -
  let ?k = "unat (w - b)"
  let ?le = "\<lambda>x. off s b x \<le> ?k"
  let ?s = "s\<lparr>timers := (timers s)
       (t := (timers s t)\<lparr>t_next := Some (hd (dropWhile ?le xs @ [Sentinel_timer]))\<rparr>,
        last (takeWhile ?le xs) := (timers s (last (takeWhile ?le xs)))\<lparr>t_next := Some t\<rparr>)\<rparr>"
  have ne: "takeWhile ?le xs \<noteq> []"
  proof -
    obtain y zs where xs: "xs = y # zs" using pos(1) by (cases xs) auto
    have "off s b y \<le> off s b pos" using assms(5) pos(1) by (auto simp: xs ordered_from_def)
    with pos(2) show ?thesis by (simp add: xs)
  qed
  have e: "takeWhile ?le xs @ dropWhile ?le xs @ [Sentinel_timer] = xs @ [Sentinel_timer]"
    by (simp flip: append_assoc)
  have "insert_timer pos t w s = Ret () ?s" by (rule insert_timer_chain [OF assms])
  moreover have "last (takeWhile ?le xs) \<noteq> t"
    using ne assms(3) last_in_set [OF ne] set_takeWhileD by fastforce
  then have "times_kept s ?s" by (simp add: times_kept_def)
  moreover have "linked (timers ?s) (ins_after (off s b) ?k t xs @ [Sentinel_timer])"
    using linked_insert [of "timers s" "takeWhile ?le xs" "dropWhile ?le xs @ [Sentinel_timer]" t,
        unfolded e, OF assms(1) ne _ assms(3,2)]
    by (simp add: ins_after_def)
  ultimately show ?thesis using that by blast
qed

lemma hd_ins_after: "key (hd xs) \<le> k \<Longrightarrow> xs \<noteq> [] \<Longrightarrow> hd (ins_after key k t xs) = hd xs"
  by (cases xs) (auto simp: ins_after_def)

lemma tl_ins_after: "key (hd xs) \<le> k \<Longrightarrow> xs \<noteq> [] \<Longrightarrow> set (tl (ins_after key k t xs)) = insert t (set (tl xs))"
  using set_ins_after [of key k t "tl xs"] by (cases xs) (auto simp: ins_after_def)

lemma ins_after_not_Nil [simp]: "ins_after key k t xs \<noteq> []"
  by (simp add: ins_after_def)

lemma ordered_ins_after:
  assumes "ordered_from s b xs" "off s b t < 2 ^ 31"
  shows "ordered_from s b (ins_after (off s b) (off s b t) t xs)"
  using assms sorted_ins_after [of "off s b" xs t "off s b t"] by (auto simp: ordered_from_def)

lemma ordered_kept: "times_kept s s' \<Longrightarrow> ordered_from s' b xs = ordered_from s b xs"
  by (simp add: ordered_from_def times_kept_fields cong: map_cong)

lemma unat_plus_simple_half: "unat (a::u32) < 2 ^ 31 \<Longrightarrow> unat b < 2 ^ 31 \<Longrightarrow> unat (a + b) = unat a + unat b"
  by (simp add: unat_word_ariths)

text \<open>Adding a timer that is not before the head.\<close>

lemma add_behind_head:
  assumes inv: "sched_inv s xs" and t: "t \<notin> set xs" "t \<noteq> Sentinel_timer" "t \<noteq> Deleted_timer"
    and nb: "\<not> timer_is_before (waketime s t) (waketime s (hd xs))"
  obtains s' where "sched_add_timer t s = Ret () s'" "times_kept s s'"
    "sched_inv s' (ins_after (off s (waketime s (hd xs))) (off s (waketime s (hd xs)) t) t xs)"
proof -
  let ?b = "waketime s (hd xs)"
  let ?ys = "ins_after (off s ?b) (off s ?b t) t xs"
  note I = inv [unfolded sched_inv_def sched_list_def]
  have k: "off s ?b t < 2 ^ 31"
    using nb by (simp add: timer_is_before_iff off_def)
  have h: "xs \<noteq> []" "timer_list s = hd xs" "hd xs \<in> set xs"
    using I by simp_all
  obtain s' where s': "insert_timer (hd xs) t (waketime s t) s = Ret () s'" "times_kept s s'"
    "linked (timers s') (?ys @ [Sentinel_timer])"
  proof (rule insert_timer_list [of s xs t "waketime s t" ?b "hd xs"])
    show "unat (waketime s t - ?b) < 2 ^ 31" using k by (simp add: off_def)
    show "off s ?b (hd xs) \<le> unat (waketime s t - ?b)" by simp
    show "t \<notin> set (xs @ [Sentinel_timer])" using t by simp
    show "timer_is_before (waketime s t) (waketime s Sentinel_timer)"
      if "\<forall>x \<in> set xs. off s ?b x \<le> unat (waketime s t - ?b)"
      using sentinel_before [OF _ _ _ that] inv k by (simp add: sched_inv_def off_def)
  qed (use I h(3) in \<open>simp_all add: off_def\<close>)
  note f = times_kept_fields [OF s'(2)]
  have "sched_add_timer t s = Ret () s'"
    using nb s'(1) by (simp add: sched_add_timer_def h)
  moreover have "hd ?ys = hd xs" by (rule hd_ins_after) (use h in simp_all)
  moreover have "sched_inv s' ?ys"
    using I s' t k h \<open>hd ?ys = hd xs\<close> tl_ins_after [of "off s ?b" xs "off s ?b t" t]
      ordered_ins_after [of s ?b xs t] distinct_ins_after [of xs t "off s ?b" "off s ?b t"]
    by (auto simp: sched_inv_def sched_list_def f ordered_kept [OF s'(2)])
  ultimately show ?thesis using that s'(2) by blast
qed

text \<open>Adding a timer before the head: it goes behind the \<open>deleted_timer\<close> placed in front of it.\<close>

definition head_insert :: "taddr \<Rightarrow> taddr list \<Rightarrow> taddr list" where
  "head_insert t xs = Deleted_timer # t # (if hd xs = Deleted_timer then tl xs else xs)"

lemma ordered_from_earlier:
  assumes "ordered_from s b xs" "xs \<noteq> []" "hd xs = h" "waketime s h = b" "\<forall>x \<in> set xs. off s c x < 2 ^ 31"
  shows "ordered_from s c xs"
proof -
  have "off s c x = off s b x + unat (b - c)" if "x \<in> set xs" for x
  proof -
    have "b - c = (waketime s h - c)" using assms(4) by simp
    then have c: "unat (b - c) < 2 ^ 31" using assms(2,3,5) by (auto simp: off_def)
    moreover have "off s b x < 2 ^ 31" using assms(1) that by (simp add: ordered_from_def)
    moreover have "waketime s x - c = (waketime s x - b) + (b - c)" by simp
    ultimately show ?thesis unfolding off_def
      by (metis (no_types, lifting) unat_plus_simple_half)
  qed
  then have "map (off s c) xs = map (\<lambda>k. k + unat (b - c)) (map (off s b) xs)" by simp
  moreover have "sorted (map (\<lambda>k. k + unat (b - c)) ks)" if "sorted ks" for ks
    using that by (induction ks) auto
  ultimately have "sorted (map (off s c) xs)" using assms(1) unfolding ordered_from_def by metis
  with assms(5) show ?thesis by (simp add: ordered_from_def)
qed

lemma linked_hd_next: "linked tm (a # b # r) \<Longrightarrow> t_next (tm a) = Some b" by simp

lemma linked_drop_head: "linked tm (a # r) \<Longrightarrow> linked tm r"
  using linked_tl [of tm "[a]"] by simp

lemma add_before_head:
  assumes inv: "sched_inv s xs" and t: "t \<notin> set xs" "t \<noteq> Sentinel_timer" "t \<noteq> Deleted_timer"
    and b: "timer_is_before (waketime s t) (waketime s (hd xs))"
    and win: "\<forall>x \<in> set xs. unat (waketime s x - waketime s t) < 2 ^ 31"
    and now: "sched_is_shutdown s \<or> \<not> timer_is_before (waketime s t) (clk s (clk_pos s))"
  obtains s' where "sched_add_timer t s = Ret () s'" "sched_inv s' (head_insert t xs)"
    "timer_kicked s'" "\<forall>x. x \<noteq> Deleted_timer \<longrightarrow> waketime s' x = waketime s x"
proof -
  note I = inv [unfolded sched_inv_def sched_list_def]
  obtain h r where xs: "xs = h # r" using I by (cases xs) auto
  have h: "timer_list s = h" using I by (simp add: xs)
  let ?r = "if h = Deleted_timer then r else xs"
  let ?w = "waketime s t"
  let ?s1 = "s\<lparr>clk_pos := Suc (clk_pos s)\<rparr>"
  let ?n = "if h = Deleted_timer then t_next (timers s h) else Some h"
  let ?s2 = "set_next Deleted_timer (Some t) (set_waketime Deleted_timer ?w (set_next t ?n ?s1))"
  let ?s' = "?s2\<lparr>timer_list := Deleted_timer, timer_kicked := True\<rparr>"
  have ty: "set ?r = set xs - {Deleted_timer}" "Deleted_timer \<notin> set r" "distinct ?r" "?r \<noteq> []"
    using I by (auto simp: xs split: if_splits)
  have "(if timer_is_before ?w (clk s (clk_pos s)) then sched_try_shutdown ''Timer too close'' ?s1 else Ret () ?s1)
      = Ret () ?s1"
    using now by (auto simp: sched_try_shutdown_def sched_is_shutdown_def)
  then have E: "sched_add_timer t s = Ret () ?s'"
    using b by (simp add: sched_add_timer_def timer_read_time_def Let_def h xs if_distrib [of "\<lambda>n. set_next t n _"] cong: if_cong)
  have nxt: "?n = Some (hd (?r @ [Sentinel_timer]))"
    using I by (cases r) (auto simp: xs)
  have l: "linked (timers s) (?r @ [Sentinel_timer])"
    using I linked_drop_head [of "timers s" h] by (auto simp: xs)
  have L: "linked (timers ?s') (head_insert t xs @ [Sentinel_timer])"
  proof (cases ?r)
    case (Cons y ys)
    have hi: "head_insert t xs = Deleted_timer # t # y # ys"
      unfolding head_insert_def Cons [symmetric] by (simp add: xs)
    have "Deleted_timer \<notin> set (y # ys @ [Sentinel_timer])" "t \<notin> set (y # ys @ [Sentinel_timer])"
      using ty(1) t unfolding Cons by auto
    then show ?thesis using l nxt t(3) unfolding hi Cons
      by (simp add: set_next_def set_waketime_def upd_timer_def del: list.set)
  qed (use ty in simp)
  have W: "waketime ?s' x = (if x = Deleted_timer then ?w else waketime s x)" for x
    using t(3) by (simp add: set_next_def set_waketime_def upd_timer_def)
  have F: "timer_list ?s' = Deleted_timer" "last_insert ?s' = last_insert s" "timer_kicked ?s'"
    by (simp_all add: set_next_def set_waketime_def upd_timer_def)
  obtain s' where s': "sched_add_timer t s = Ret () s'"
    and l': "linked (timers s') (head_insert t xs @ [Sentinel_timer])"
    and wk: "\<And>x. waketime s' x = (if x = Deleted_timer then ?w else waketime s x)"
    and fields: "timer_list s' = Deleted_timer" "last_insert s' = last_insert s" "timer_kicked s'"
    by (rule that [OF E L W F])
  obtain ys where hi: "head_insert t xs = Deleted_timer # t # ys" and ys: "ys = ?r"
    by (simp add: head_insert_def xs)
  have o: "ordered_from s (waketime s (hd xs)) xs" using I by blast
  have "ordered_from s ?w xs"
    by (rule ordered_from_earlier [OF o _ refl refl]) (use win in \<open>simp_all add: xs off_def\<close>)
  then have oy: "ordered_from s ?w ys" by (simp add: ys xs ordered_from_def)
  have oe: "off s' ?w x = off s ?w x" if "x \<in> set ys" for x
    using that ty(1) by (auto simp: off_def wk ys)
  have "off s' ?w Deleted_timer = 0" "off s' ?w t = 0" using t(3) by (simp_all add: off_def wk)
  then have "ordered_from s' ?w (head_insert t xs)"
    using oy oe by (simp add: hi ordered_from_def cong: map_cong)
  moreover have "set ys = set xs - {Deleted_timer}" "distinct ys" using ty ys by auto
  ultimately have "sched_inv s' (head_insert t xs)"
    using l' I t by (auto simp: sched_inv_def sched_list_def fields wk hi)
  then show ?thesis using s' fields(3) wk that by simp
qed

lemma add_too_close:
  assumes "sched_inv s xs" "timer_is_before (waketime s t) (waketime s (hd xs))"
    "\<not> sched_is_shutdown s" "timer_is_before (waketime s t) (clk s (clk_pos s))"
  shows "sched_add_timer t s = Longjmp ''Timer too close'' (s\<lparr>clk_pos := Suc (clk_pos s)\<rparr>)"
proof -
  have "timer_list s = hd xs" using assms(1) by (simp add: sched_inv_def sched_list_def)
  then show ?thesis
    using assms(2-4) by (simp add: sched_add_timer_def timer_read_time_def sched_try_shutdown_def
        sched_is_shutdown_def sched_shutdown_def Let_def)
qed

lemma linked_suffix: "linked tm (as @ a # bs) \<Longrightarrow> linked tm (a # bs)"
  using linked_tl by blast

lemma linked_unlink:
  assumes "linked tm (h # ys)" "distinct (h # ys)" "d \<in> set ys" "p = last (h # takeWhile (\<lambda>y. y \<noteq> d) ys)"
  shows "linked (tm(p := (tm p)\<lparr>t_next := t_next (tm d)\<rparr>)) (h # remove1 d ys)"
proof -
  obtain as bs where ys: "ys = as @ d # bs" "d \<notin> set as" using split_list_first [OF assms(3)] by blast
  have tw: "takeWhile (\<lambda>y. y \<noteq> d) ys = as"
    unfolding ys(1) by (subst takeWhile_append2) (use ys(2) in auto)
  have r: "remove1 d ys = as @ bs" using ys by (simp add: remove1_append)
  obtain as' where "h # as = as' @ [p]" using assms(4) tw by (metis append_butlast_last_id list.distinct(1))
  then have e: "h # ys = as' @ p # d # bs" "h # remove1 d ys = as' @ p # bs" using ys r by auto
  show ?thesis using assms(1,2) unfolding e by (rule linked_remove)
qed

text \<open>Deleting a timer.\<close>

definition del_result :: "taddr \<Rightarrow> taddr list \<Rightarrow> taddr list" where
  "del_result d xs = (if hd xs = d then Deleted_timer # tl xs else remove1 d xs)"

lemma del_timer_eq:
  assumes inv: "sched_inv s (h # r)" and d: "d \<noteq> Sentinel_timer" "d \<noteq> Deleted_timer"
  obtains s' where "sched_del_timer d s = Ret () s'" "linked (timers s') (del_result d (h # r) @ [Sentinel_timer])"
    "timer_list s' = (if h = d then Deleted_timer else h)"
    "last_insert s' = (if last_insert s = d then Periodic_timer else last_insert s)"
    "\<And>x. waketime s' x = (if h = d \<and> x = Deleted_timer then waketime s d else waketime s x)"
proof -
  note I = inv [unfolded sched_inv_def sched_list_def]
  have h: "timer_list s = h" "linked (timers s) (h # r @ [Sentinel_timer])" "distinct (h # r @ [Sentinel_timer])"
    "Deleted_timer \<notin> set (r @ [Sentinel_timer])" using I by simp_all
  let ?f = "\<lambda>s. if last_insert s = d then s\<lparr>last_insert := Periodic_timer\<rparr> else s"
  show ?thesis
  proof (cases "h = d")
    case True
    let ?s = "s\<lparr>timers := (timers s)(Deleted_timer := (timers s Deleted_timer)\<lparr>t_waketime := waketime s d, t_next := t_next (timers s d)\<rparr>),
       timer_list := Deleted_timer\<rparr>"
    have "sched_del_timer d s = Ret () (?f ?s)"
      using True d by (simp add: sched_del_timer_def h(1) set_waketime_def set_next_def upd_timer_def Let_def)
    moreover have "linked (timers ?s) (Deleted_timer # r @ [Sentinel_timer])"
      using h(2,4) True by (cases r) simp_all
    ultimately show ?thesis using that [of "?f ?s"] True by (simp add: del_result_def)
  next
    case False
    define p where "p = last (h # takeWhile (\<lambda>y. y \<noteq> d) (r @ [Sentinel_timer]))"
    let ?s = "if d \<in> set (r @ [Sentinel_timer]) then set_next p (t_next (timers s d)) s else s"
    have "sched_del_timer d s = Ret () (?f ?s)"
      using False h(1) del_pos_chain [OF h(2), of d, folded p_def]
      by (simp add: sched_del_timer_def)
    moreover have "linked (timers ?s) (h # remove1 d (r @ [Sentinel_timer]))"
      using linked_unlink [OF h(2,3) _ p_def] h(2) by (simp add: set_next_def upd_timer_def remove1_idem del: list.set set_append)
    moreover have "remove1 d (r @ [Sentinel_timer]) = remove1 d r @ [Sentinel_timer]"
      using d by (simp add: remove1_append remove1_idem)
    ultimately show ?thesis using that [of "?f ?s"] False h(1)
      by (simp add: del_result_def set_next_def upd_timer_def)
  qed
qed

lemma del_timer_list:
  assumes inv: "sched_inv s xs" and d: "d \<noteq> Sentinel_timer" "d \<noteq> Periodic_timer" "d \<noteq> Deleted_timer"
  obtains s' where "sched_del_timer d s = Ret () s'" "sched_inv s' (del_result d xs)"
    "\<forall>x. x \<noteq> Deleted_timer \<longrightarrow> waketime s' x = waketime s x" "last_insert s' \<noteq> d"
proof -
  note I = inv [unfolded sched_inv_def sched_list_def]
  obtain h r where xs: "xs = h # r" using I by (cases xs) auto
  obtain s' where s': "sched_del_timer d s = Ret () s'" "linked (timers s') (del_result d (h # r) @ [Sentinel_timer])"
    "timer_list s' = (if h = d then Deleted_timer else h)"
    "last_insert s' = (if last_insert s = d then Periodic_timer else last_insert s)"
    "\<And>x. waketime s' x = (if h = d \<and> x = Deleted_timer then waketime s d else waketime s x)"
    using del_timer_eq [OF inv [unfolded xs] d(1,3)] by blast
  have o: "ordered_from s (waketime s h) (h # r)" using I by (simp add: xs)
  have Dl: "Deleted_timer \<notin> set r" "d \<in> set xs \<longrightarrow> d \<noteq> Deleted_timer" using I d by (auto simp: xs)
  have dist: "set (remove1 d r) = set r - {d}" using I by (simp add: xs set_remove1_eq)
  have "ordered_from s' (waketime s h) (del_result d (h # r))"
  proof (cases "h = d")
    case True
    have "off s' (waketime s h) x = off s (waketime s h) x" if "x \<in> set r" for x
      using that Dl by (auto simp: off_def s'(5))
    moreover have "off s' (waketime s h) Deleted_timer = 0" using True by (simp add: off_def s'(5))
    ultimately show ?thesis using o True by (simp add: ordered_from_def del_result_def cong: map_cong)
  next
    case False
    then have "off s' (waketime s h) x = off s (waketime s h) x" for x by (simp add: off_def s'(5))
    with o False show ?thesis
      by (auto simp: ordered_from_def del_result_def sorted_map_remove1 dist cong: map_cong)
  qed
  moreover have "hd (del_result d (h # r)) = timer_list s'" "waketime s' (timer_list s') = waketime s h"
    using s' by (auto simp: del_result_def)
  moreover have "sched_list s' (del_result d xs)"
  proof (cases "h = d")
    case True
    then show ?thesis
      using s'(2-4) I d Dl by (auto simp: sched_list_def xs del_result_def s'(5))
  next
    case False
    then show ?thesis
      using s'(2-4) I d Dl by (auto simp: sched_list_def xs del_result_def s'(5) dist)
  qed
  ultimately have "sched_inv s' (del_result d xs)" by (simp add: sched_inv_def xs)
  with s' d that show ?thesis by auto
qed

lemma insert_pos_skip:
  "t_next (tm t) = Some n \<Longrightarrow> \<not> timer_is_before w (t_waketime (tm n)) \<Longrightarrow> insert_pos tm w t = insert_pos tm w n"
  by (subst insert_pos.simps) simp

text \<open>
  One dispatch, from the state in which the callback of the head returned: the list is the rest, with the
  head inserted again at its new wake time when the callback asked for it.
\<close>

definition dispatch_result :: "'z sched_state_scheme \<Rightarrow> u32 \<Rightarrow> sf \<Rightarrow> taddr \<Rightarrow> taddr list \<Rightarrow> taddr list" where
  "dispatch_result s b res t ys = (if res = SF_DONE then ys else ins_after (off s b) (off s b t) t ys)"

lemma dispatch_done:
  assumes l: "sched_list s (t # ys)" and o: "ordered_from s b ys" and t: "t \<noteq> Periodic_timer"
  defines "s' \<equiv> s\<lparr>timer_list := hd ys, last_insert := (if last_insert s = t then hd ys else last_insert s)\<rparr>"
  shows "sched_inv s' ys"
proof -
  note I = l [unfolded sched_list_def]
  obtain n r where ys: "ys = n # r" using I t by (cases ys) auto
  have "linked (timers s') (ys @ [Sentinel_timer])" using I by (simp add: ys s'_def)
  moreover have tm: "timers s' = timers s" "timer_list s' = n" by (simp_all add: s'_def ys)
  moreover have "n \<noteq> Deleted_timer" using I by (auto simp: ys)
  ultimately have "sched_list s' ys"
    using I t by (auto simp: sched_list_def ys s'_def)
  moreover have "ordered_from s (waketime s n) ys"
  proof (rule ordered_from_rebase [OF o])
    show "unat (waketime s n - b) < 2 ^ 31" "\<forall>x\<in>set ys. unat (waketime s n - b) \<le> off s b x"
      using o by (auto simp: ordered_from_def ys off_def)
  qed
  then have "ordered_from s' (waketime s' n) ys"
    by (simp add: ordered_from_def off_def s'_def cong: map_cong)
  ultimately show ?thesis by (simp add: sched_inv_def ys)
qed

lemma dispatch_reinsert:
  assumes l: "sched_list s (t # ys)" and o: "ordered_from s b ys" and w: "off s b t < 2 ^ 31"
    and t: "t \<noteq> Deleted_timer" and n: "ys = n # r" "\<not> timer_is_before (waketime s t) (waketime s n)"
  obtains s' where "insert_timer (if timer_is_before (waketime s t) (waketime s (last_insert s)) then n
       else last_insert s) t (waketime s t) (s\<lparr>timer_list := n\<rparr>) = Ret () s'" "times_kept (s\<lparr>timer_list := n\<rparr>) s'"
    "linked (timers s') (ins_after (off s b) (off s b t) t ys @ [Sentinel_timer])"
proof -
  note I = l [unfolded sched_list_def]
  let ?s = "s\<lparr>timer_list := n\<rparr>"
  let ?w = "waketime s t"
  let ?li = "last_insert s"
  have wn: "off s b x < 2 ^ 31" if "x \<in> set ys" for x using o that by (simp add: ordered_from_def)
  have b: "timer_is_before ?w (waketime s x) \<longleftrightarrow> \<not> off s b x \<le> unat (?w - b)" if "x \<in> set ys" for x
    using timer_is_before_off [OF wn [OF that]] w by (simp add: off_def not_le)
  let ?p = "if timer_is_before ?w (waketime s ?li) \<or> ?li = t then n else ?li"
  have p: "?p \<in> set ys" "off s b ?p \<le> unat (?w - b)"
    using I b n by auto
  have nx: "t_next (timers s t) = Some n" using I n by simp
  have "insert_pos (timers s) ?w (if timer_is_before ?w (waketime s ?li) then n else ?li)
      = insert_pos (timers s) ?w ?p"
    using insert_pos_skip [of "timers s" t n ?w, OF nx n(2)] by auto
  then have e: "insert_timer (if timer_is_before ?w (waketime s ?li) then n else ?li) t ?w ?s
      = insert_timer ?p t ?w ?s"
    by (simp add: insert_timer_def)
  have os: "ordered_from ?s b ys" using o by (simp add: ordered_from_def off_def cong: map_cong)
  have oo: "off ?s b = off s b" by (simp add: off_def fun_eq_iff)
  obtain s' where "insert_timer ?p t ?w ?s = Ret () s'" "times_kept ?s s'"
    "linked (timers s') (ins_after (off ?s b) (unat (?w - b)) t ys @ [Sentinel_timer])"
  proof (rule insert_timer_list [of ?s ys t ?w b ?p])
    show "linked (timers ?s) (ys @ [Sentinel_timer])" using I by (simp add: n)
    show "unat (?w - b) < 2 ^ 31" using w by (simp add: off_def)
    show "timer_is_before ?w (waketime ?s Sentinel_timer)" if "\<forall>x \<in> set ys. off ?s b x \<le> unat (?w - b)"
    proof -
      have "\<not> timer_is_before ?w (waketime s Periodic_timer)"
      proof (cases "t = Periodic_timer")
        case True
        then show ?thesis by (simp add: timer_is_before_iff)
      next
        case False
        then show ?thesis using that I b [of Periodic_timer] by (simp add: oo)
      qed
      then show ?thesis using I sentinel_catches [of ?w "waketime s Periodic_timer"] by simp
    qed
    show "off ?s b ?p \<le> unat (?w - b)" using p(2) by (simp only: oo)
  qed (use I os p(1) in simp_all)
  with e that show ?thesis by (simp add: oo off_def)
qed

lemma times_keptD: "times_kept s s' \<Longrightarrow> s' = s\<lparr>timers := timers s'\<rparr>"
  by (simp add: times_kept_def)

lemma dispatch_list:
  assumes call: "call_func call t s0 = Ret res s" and t0: "timer_list s0 = t"
    and l: "sched_list s (t # ys)" and o: "ordered_from s b ys" and w: "off s b t < 2 ^ 31"
    and D: "res = SF_DONE \<Longrightarrow> t \<noteq> Periodic_timer" and R: "res = SF_RESCHEDULE \<Longrightarrow> t \<noteq> Deleted_timer"
  obtains s' where
    "sched_timer_dispatch call s0 = Ret (waketime s' (hd (dispatch_result s b res t ys))) s'"
    "sched_inv s' (dispatch_result s b res t ys)" "\<And>x. waketime s' x = waketime s x"
proof -
  note I = l [unfolded sched_list_def]
  have nx: "t_next (timers s t) = Some (hd (ys @ [Sentinel_timer]))" using I by (cases ys) auto
  consider "res = SF_DONE"
    | "res = SF_RESCHEDULE" "timer_is_before (waketime s t) (waketime s (hd (ys @ [Sentinel_timer])))"
    | "res = SF_RESCHEDULE" "\<not> timer_is_before (waketime s t) (waketime s (hd (ys @ [Sentinel_timer])))"
    by (cases res) auto
  then show ?thesis
  proof cases
    case 1
    have "ys \<noteq> []" using I D 1 by auto
    let ?s' = "s\<lparr>timer_list := hd ys, last_insert := (if last_insert s = t then hd ys else last_insert s)\<rparr>"
    have "sched_timer_dispatch call s0 = Ret (waketime s (hd ys)) ?s'"
      using call t0 nx 1 \<open>ys \<noteq> []\<close> by (simp add: sched_timer_dispatch_def Let_def)
    with 1 show ?thesis
      using that [of ?s'] dispatch_done [OF l o D [OF 1]] by (simp add: dispatch_result_def)
  next
    case 2
    have k: "\<forall>x \<in> set ys. off s b t < off s b x"
    proof (cases ys)
      case (Cons n r)
      have "off s b n < 2 ^ 31" using o by (simp add: Cons ordered_from_def)
      then have "off s b t < off s b n"
        using 2(2) timer_is_before_off [of s b n "waketime s t"] w by (simp add: Cons off_def)
      moreover have "\<forall>x \<in> set ys. off s b n \<le> off s b x" using o by (simp add: Cons ordered_from_def)
      ultimately show ?thesis by fastforce
    qed simp
    then have e: "dispatch_result s b res t ys = t # ys"
      using 2(1) by (cases ys) (auto simp: dispatch_result_def ins_after_def)
    have "ordered_from s b (t # ys)" using o w k by (auto simp: ordered_from_def less_imp_le)
    then have "ordered_from s (waketime s t) (t # ys)"
      by (rule ordered_from_rebase) (use k w in \<open>auto simp: off_def less_imp_le\<close>)
    then have "sched_inv s (t # ys)" using l by (simp add: sched_inv_def)
    with 2 show ?thesis
      using call t0 nx by (intro that [of s, unfolded e]) (simp_all add: sched_timer_dispatch_def Let_def)
  next
    case 3
    have "ys \<noteq> []"
    proof
      assume "ys = []"
      then have "t = Periodic_timer" "waketime s Sentinel_timer = waketime s t + 0x80000000" using I by auto
      with 3 \<open>ys = []\<close> sentinel_catches [of "waketime s t" "waketime s t"] show False
        by (simp add: timer_is_before_iff)
    qed
    then obtain n r where ys: "ys = n # r" by (cases ys) auto
    have nb: "\<not> timer_is_before (waketime s t) (waketime s n)" using 3 by (simp add: ys)
    let ?s = "s\<lparr>timer_list := n\<rparr>"
    let ?zs = "ins_after (off s b) (off s b t) t ys"
    let ?p = "if timer_is_before (waketime s t) (waketime s (last_insert s)) then n else last_insert s"
    obtain s1 where s1: "insert_timer ?p t (waketime s t) ?s = Ret () s1" "times_kept ?s s1"
      "linked (timers s1) (?zs @ [Sentinel_timer])"
      using dispatch_reinsert [OF l o w R [OF 3(1)] ys nb] by blast
    let ?s' = "s1\<lparr>last_insert := t\<rparr>"
    note f = times_kept_fields [OF s1(2)]
    have "off s b n < 2 ^ 31" using o by (simp add: ys ordered_from_def)
    then have on: "off s b n \<le> off s b t"
      using nb timer_is_before_off [of s b n "waketime s t"] w by (simp add: off_def)
    have hd: "hd ?zs = n" using on by (simp add: ins_after_def ys)
    have zs: "ordered_from s b ?zs" by (rule ordered_ins_after [OF o w])
    have "ordered_from s (waketime s n) ?zs"
    proof (rule ordered_from_rebase [OF zs])
      show "unat (waketime s n - b) < 2 ^ 31" using \<open>off s b n < 2 ^ 31\<close> by (simp add: off_def)
      show "\<forall>x\<in>set ?zs. unat (waketime s n - b) \<le> off s b x"
        using on o by (auto simp: off_def [symmetric] ordered_from_def ys)
    qed
    moreover have "off ?s' c x = off s c x" for c x by (simp add: off_def f)
    ultimately have "ordered_from ?s' (waketime ?s' n) ?zs"
      by (simp add: ordered_from_def f cong: map_cong)
    moreover have "sched_list ?s' ?zs"
    proof -
      have "Deleted_timer \<notin> set ?zs" "Periodic_timer \<in> set ?zs" using I R [OF 3(1)] by auto
      moreover have "distinct ?zs" by (rule distinct_ins_after) (use I in auto)
      moreover have "set (tl ?zs) \<subseteq> set ?zs" by (cases ?zs) auto
      ultimately show ?thesis using I s1(3) hd by (auto simp: sched_list_def f)
    qed
    ultimately have "sched_inv ?s' ?zs" by (simp add: sched_inv_def hd)
    moreover have "sched_timer_dispatch call s0 = Ret (waketime s n) ?s'"
      using call t0 nx 3 s1(1) nb by (simp add: sched_timer_dispatch_def Let_def ys split: if_splits)
    ultimately show ?thesis
      using 3(1) that [of ?s'] hd f by (simp add: dispatch_result_def)
  qed
qed

text \<open>The callbacks of \<open>sched.c\<close>.\<close>

lemma periodic_event_list:
  assumes inv: "sched_inv s (Periodic_timer # ys)" and p: "unat (timer_from_us s 100000) < 2 ^ 31"
  obtains s' where "periodic_event s = Ret SF_RESCHEDULE s'" "sched_list s' (Periodic_timer # ys)"
    "ordered_from s' (waketime s Periodic_timer) ys"
    "waketime s' Periodic_timer = waketime s Periodic_timer + timer_from_us s 100000"
    "tasks_status s' = TS_REQUESTED"
proof -
  note I = inv [unfolded sched_inv_def sched_list_def]
  let ?p = "waketime s Periodic_timer + timer_from_us s 100000"
  let ?s = "s\<lparr>tasks_status := TS_REQUESTED,
     timers := (timers s)(Periodic_timer := (timers s Periodic_timer)\<lparr>t_waketime := ?p\<rparr>,
                          Sentinel_timer := (timers s Sentinel_timer)\<lparr>t_waketime := ?p + 0x80000000\<rparr>)\<rparr>"
  have e: "periodic_event s = Ret SF_RESCHEDULE ?s"
    by (simp add: periodic_event_def sched_wake_tasks_def set_waketime_def upd_timer_def timer_from_us_def Let_def)
  have "linked (timers ?s) (Periodic_timer # ys @ [Sentinel_timer])"
    using I by (auto elim!: linked_frame simp del: linked.simps)
  then have l: "sched_list ?s (Periodic_timer # ys)" using I by (simp add: sched_list_def)
  have "off ?s c x = off s c x" if "x \<in> set ys" for x c using that I by (auto simp: off_def)
  moreover have "ordered_from s (waketime s Periodic_timer) ys" using I by (simp add: ordered_from_def)
  ultimately have "ordered_from ?s (waketime s Periodic_timer) ys"
    by (simp add: ordered_from_def cong: map_cong)
  then show ?thesis using that [OF e l] by simp
qed

lemma reset_list:
  assumes "t_next (timers s Sentinel_timer) = None" "waketime s Sentinel_timer = waketime s Periodic_timer + 0x80000000"
  shows "sched_inv (sched_timer_reset s) [Deleted_timer, Periodic_timer]"
  using assms
  by (simp add: sched_inv_def sched_list_def sched_timer_reset_def set_waketime_def set_next_def upd_timer_def
      ordered_from_def off_def Let_def)

end
