(* ===== verification/Sched_Queue.thy ===== *)
theory Sched_Queue
  imports Sched_List
begin

text \<open>
  The contract of the timer queue that the components with timers rely on, its implementation by
  \<open>src/sched.c\<close>, and the properties of the scheduler's operations.
\<close>

section \<open>The contract of the timer queue\<close>

text \<open>
  What a component that owns timers relies on: the queue has an invariant over the list of queued timers;
  adding a timer that is not queued puts it in and deleting takes it out, other timers and all wake times
  staying as they are. \<open>fixed\<close> are the timers of the scheduler itself, \<open>dummy\<close> the one that stands
  in front of a changed head.
\<close>

locale timer_queue =
  fixes queue :: "'s \<Rightarrow> 't list \<Rightarrow> bool"
    and wake :: "'s \<Rightarrow> 't \<Rightarrow> u32"
    and set_wake :: "'t \<Rightarrow> u32 \<Rightarrow> 's \<Rightarrow> 's"
    and can_add :: "'t \<Rightarrow> 's \<Rightarrow> 't list \<Rightarrow> bool"
    and add :: "'t \<Rightarrow> 's \<Rightarrow> (unit, 's) outcome"
    and del :: "'t \<Rightarrow> 's \<Rightarrow> (unit, 's) outcome"
    and fixed :: "'t set"
    and dummy :: 't
  assumes queue_head: "queue s xs \<Longrightarrow> x \<in> set xs \<Longrightarrow> \<not> timer_is_before (wake s x) (wake s (hd xs))"
    and set_wake: "queue s xs \<Longrightarrow> t \<notin> set xs \<Longrightarrow> t \<notin> fixed \<Longrightarrow>
      queue (set_wake t w s) xs \<and> wake (set_wake t w s) = (wake s)(t := w)"
    and add: "queue s xs \<Longrightarrow> t \<notin> set xs \<Longrightarrow> t \<notin> fixed \<Longrightarrow> can_add t s xs \<Longrightarrow>
      \<exists>s' ys. add t s = Ret () s' \<and> queue s' ys \<and> set ys - {dummy} = insert t (set xs - {dummy})
        \<and> (\<forall>x. x \<noteq> dummy \<longrightarrow> wake s' x = wake s x)"
    and del: "queue s xs \<Longrightarrow> t \<notin> fixed \<Longrightarrow>
      \<exists>s' ys. del t s = Ret () s' \<and> queue s' ys \<and> set ys - {dummy} = set xs - {t, dummy}
        \<and> (\<forall>x. x \<noteq> dummy \<longrightarrow> wake s' x = wake s x)"
    and dummy_fixed: "dummy \<in> fixed"
begin

text \<open>Restarting a timer: delete it, give it a new time and add it again, as the command handlers do.\<close>

lemma restart:
  assumes "queue s xs" "t \<notin> fixed"
    and can: "\<And>s1 ys. del t s = Ret () s1 \<Longrightarrow> queue s1 ys \<Longrightarrow> can_add t (set_wake t w s1) ys"
  shows "\<exists>s' ys. obind (del t s) (\<lambda>_ s. add t (set_wake t w s)) = Ret () s' \<and> queue s' ys
      \<and> set ys - {dummy} = insert t (set xs - {dummy}) \<and> wake s' t = w
      \<and> (\<forall>x. x \<noteq> dummy \<longrightarrow> x \<noteq> t \<longrightarrow> wake s' x = wake s x)"
proof -
  have td: "t \<noteq> dummy" using assms(2) dummy_fixed by auto
  obtain s1 ys where s1: "del t s = Ret () s1" "queue s1 ys" "set ys - {dummy} = set xs - {t, dummy}"
    "\<forall>x. x \<noteq> dummy \<longrightarrow> wake s1 x = wake s x" using del [OF assms(1,2)] by blast
  have "t \<notin> set ys" using s1(3) td by blast
  then have "queue (set_wake t w s1) ys" and w: "wake (set_wake t w s1) = (wake s1)(t := w)"
    using set_wake [OF s1(2) _ assms(2)] by blast+
  from add [OF this(1) \<open>t \<notin> set ys\<close> assms(2) can [OF s1(1,2)]]
  obtain s' zs where s': "add t (set_wake t w s1) = Ret () s'" "queue s' zs"
    "set zs - {dummy} = insert t (set ys - {dummy})"
    "\<forall>x. x \<noteq> dummy \<longrightarrow> wake s' x = wake (set_wake t w s1) x" by blast
  have "set zs - {dummy} = insert t (set xs - {dummy})" using s'(3) s1(3) by auto
  then show ?thesis using s1(1,4) s'(1,2,4) w td by auto
qed

fun del_all :: "'t list \<Rightarrow> 's \<Rightarrow> (unit, 's) outcome" where
  "del_all [] s = Ret () s"
| "del_all (t # ts) s = obind (del t s) (\<lambda>_ s. del_all ts s)"

lemma del_all:
  assumes "queue s xs" "set ts \<inter> fixed = {}"
  shows "\<exists>s' ys. del_all ts s = Ret () s' \<and> queue s' ys \<and> set ys - {dummy} = set xs - set ts - {dummy}"
  using assms
proof (induction ts arbitrary: s xs)
  case (Cons t ts)
  obtain s1 ys where s1: "del t s = Ret () s1" "queue s1 ys" "set ys - {dummy} = set xs - {t, dummy}"
    using del [OF Cons.prems(1), of t] Cons.prems(2) by (meson disjoint_iff list.set_intros(1))
  obtain s2 zs where "del_all ts s1 = Ret () s2" "queue s2 zs" "set zs - {dummy} = set ys - set ts - {dummy}"
    using Cons.IH [OF s1(2)] Cons.prems(2) by auto
  moreover from this s1(3) have "set zs - {dummy} = set xs - set (t # ts) - {dummy}" by auto
  ultimately show ?case using s1(1) by auto
qed auto

end

definition can_add_timer :: "taddr \<Rightarrow> 'z sched_state_scheme \<Rightarrow> taddr list \<Rightarrow> bool" where
  "can_add_timer t s xs \<longleftrightarrow>
     timer_is_before (waketime s t) (waketime s (timer_list s)) \<longrightarrow>
       (\<forall>x \<in> set xs. unat (waketime s x - waketime s t) < 2 ^ 31)
       \<and> (sched_is_shutdown s \<or> \<not> timer_is_before (waketime s t) (clk s (clk_pos s)))"

lemma inv_set_waketime:
  assumes inv: "sched_inv s xs" and t: "t \<notin> set xs" "t \<notin> {Sentinel_timer, Periodic_timer, Deleted_timer}"
  shows "sched_inv (set_waketime t w s) xs \<and> waketime (set_waketime t w s) = (waketime s)(t := w)"
proof -
  note I = inv [unfolded sched_inv_def sched_list_def]
  let ?s = "set_waketime t w s"
  have wk: "waketime ?s x = (if x = t then w else waketime s x)" for x
    by (simp add: set_waketime_def upd_timer_def)
  have "linked (timers ?s) (xs @ [Sentinel_timer])"
    using I t by (simp add: set_waketime_def upd_timer_def)
  moreover have "timer_list ?s = timer_list s" "last_insert ?s = last_insert s"
    by (simp_all add: set_waketime_def upd_timer_def)
  moreover have "hd xs \<noteq> t" using I t hd_in_set [of xs] by metis
  moreover have "off ?s b x = off s b x" if "x \<in> set xs" for b x
    using t(1) that by (auto simp: off_def wk)
  then have "ordered_from ?s b xs = ordered_from s b xs" for b by (simp add: ordered_from_def cong: map_cong)
  moreover have "waketime ?s Periodic_timer = waketime s Periodic_timer" "waketime ?s Sentinel_timer = waketime s Sentinel_timer"
    using t(2) by (auto simp: wk)
  ultimately have "sched_inv ?s xs" using I by (simp add: sched_inv_def sched_list_def wk)
  then show ?thesis using wk by auto
qed

lemma set_head_insert: "xs \<noteq> [] \<Longrightarrow> t \<noteq> Deleted_timer \<Longrightarrow>
   set (head_insert t xs) - {Deleted_timer} = insert t (set xs - {Deleted_timer})"
  by (cases xs) (auto simp: head_insert_def)

lemma set_del_result: "distinct xs \<Longrightarrow> xs \<noteq> [] \<Longrightarrow>
   set (del_result t xs) - {Deleted_timer} = set xs - {t, Deleted_timer}"
  by (cases xs) (auto simp: del_result_def)

interpretation tq: timer_queue "sched_inv :: 'z sched_state_scheme \<Rightarrow> _" waketime set_waketime can_add_timer
  sched_add_timer sched_del_timer "{Sentinel_timer, Periodic_timer, Deleted_timer}" Deleted_timer
proof
  fix s :: "'z sched_state_scheme" and xs t w
  assume inv: "sched_inv s xs"
  note I = inv [unfolded sched_inv_def sched_list_def]
  have tl: "timer_list s = hd xs" "xs \<noteq> []" "distinct xs" using I by simp_all
  show "\<not> timer_is_before (waketime s x) (waketime s (hd xs))" if "x \<in> set xs" for x
  proof -
    have "off s (waketime s (hd xs)) x < 2 ^ 31" using I that unfolding ordered_from_def by blast
    then show ?thesis by (simp add: off_def timer_is_before_iff)
  qed
  {
    assume t: "t \<notin> set xs" "t \<notin> {Sentinel_timer, Periodic_timer, Deleted_timer}" "can_add_timer t s xs"
    then have td: "t \<noteq> Sentinel_timer" "t \<noteq> Deleted_timer" by auto
    show "\<exists>s' ys. sched_add_timer t s = Ret () s' \<and> sched_inv s' ys
        \<and> set ys - {Deleted_timer} = insert t (set xs - {Deleted_timer})
        \<and> (\<forall>x. x \<noteq> Deleted_timer \<longrightarrow> waketime s' x = waketime s x)"
    proof (cases "timer_is_before (waketime s t) (waketime s (hd xs))")
      case True
      with t(3) have "\<forall>x \<in> set xs. unat (waketime s x - waketime s t) < 2 ^ 31"
        "sched_is_shutdown s \<or> \<not> timer_is_before (waketime s t) (clk s (clk_pos s))"
        by (simp_all add: can_add_timer_def tl)
      then obtain s' where "sched_add_timer t s = Ret () s'" "sched_inv s' (head_insert t xs)"
        "\<forall>x. x \<noteq> Deleted_timer \<longrightarrow> waketime s' x = waketime s x"
        using add_before_head [OF inv t(1) td True] by blast
      then show ?thesis using set_head_insert [OF tl(2) td(2)] by blast
    next
      case False
      let ?zs = "ins_after (off s (waketime s (hd xs))) (off s (waketime s (hd xs)) t) t xs"
      have "set ?zs - {Deleted_timer} = insert t (set xs - {Deleted_timer})" using td by auto
      moreover obtain s' where "sched_add_timer t s = Ret () s'" "times_kept s s'" "sched_inv s' ?zs"
        using add_behind_head [OF inv t(1) td False] by blast
      ultimately show ?thesis using times_kept_fields(1) by blast
    qed
  }
  show "\<exists>s' ys. sched_del_timer t s = Ret () s' \<and> sched_inv s' ys
      \<and> set ys - {Deleted_timer} = set xs - {t, Deleted_timer}
      \<and> (\<forall>x. x \<noteq> Deleted_timer \<longrightarrow> waketime s' x = waketime s x)"
    if t: "t \<notin> {Sentinel_timer, Periodic_timer, Deleted_timer}"
  proof -
    obtain s' where "sched_del_timer t s = Ret () s'" "sched_inv s' (del_result t xs)"
      "\<forall>x. x \<noteq> Deleted_timer \<longrightarrow> waketime s' x = waketime s x"
      using del_timer_list [OF inv, of t] t by blast
    then show ?thesis using set_del_result [OF tl(3,2), of t] by blast
  qed
qed (use inv_set_waketime in auto)

section \<open>Properties\<close>

definition add_result :: "'z sched_state_scheme \<Rightarrow> taddr \<Rightarrow> taddr list \<Rightarrow> taddr list" where
  "add_result s t xs =
     (if timer_is_before (waketime s t) (waketime s (hd xs)) then head_insert t xs
      else ins_after (off s (waketime s (hd xs))) (off s (waketime s (hd xs)) t) t xs)"

lemma sched_inv_head: "sched_inv s xs \<Longrightarrow> timer_list s = hd xs"
  by (simp add: sched_inv_def sched_list_def)

text \<open>
  C23. Adding a timer that is not queued keeps the timer list sorted by wake time and puts the timer in
  its place (behind the timers with the same time; behind a dummy entry when it becomes the first), or,
  when it would be first and its time has passed, shuts down with "Timer too close" unless the machine is
  shut down already. The queued timers are to be within half a turn of the clock after the new one.
\<close>

theorem sched_add_timer_sorted:
  assumes "sched_inv s xs" "t \<notin> set xs" "t \<noteq> Sentinel_timer" "t \<noteq> Deleted_timer"
    and "timer_is_before (waketime s t) (waketime s (hd xs)) \<Longrightarrow>
      \<forall>x \<in> set xs. unat (waketime s x - waketime s t) < 2 ^ 31"
  shows "if timer_is_before (waketime s t) (waketime s (hd xs)) \<and> \<not> sched_is_shutdown s
             \<and> timer_is_before (waketime s t) (clk s (clk_pos s))
         then sched_add_timer t s = Longjmp ''Timer too close'' (s\<lparr>clk_pos := Suc (clk_pos s)\<rparr>)
         else \<exists>s'. sched_add_timer t s = Ret () s' \<and> sched_inv s' (add_result s t xs)
                \<and> (\<forall>x. x \<noteq> Deleted_timer \<longrightarrow> waketime s' x = waketime s x)"
proof (cases "timer_is_before (waketime s t) (waketime s (hd xs))")
  case True
  note w = assms(5) [OF True]
  show ?thesis
  proof (cases "\<not> sched_is_shutdown s \<and> timer_is_before (waketime s t) (clk s (clk_pos s))")
    case C: True
    then show ?thesis using True add_too_close [OF assms(1) True] by simp
  next
    case False
    then obtain s' where "sched_add_timer t s = Ret () s'" "sched_inv s' (head_insert t xs)"
      "\<forall>x. x \<noteq> Deleted_timer \<longrightarrow> waketime s' x = waketime s x"
      using add_before_head [OF assms(1-4) True w] by blast
    with True False show ?thesis by (simp add: add_result_def)
  qed
next
  case False
  obtain s' where s': "sched_add_timer t s = Ret () s'" "times_kept s s'" "sched_inv s' (add_result s t xs)"
    using add_behind_head [OF assms(1-4) False] False unfolding add_result_def by auto
  with False show ?thesis by (simp add: times_kept_fields(1) [OF s'(2)])
qed

definition demo_sched :: sched_state where
  "demo_sched = set_waketime (Obj_timer 2 0) 5 (sched_init (\<lambda>_. 3) 1000000 False)"

lemma demo_sched_inv: "sched_inv demo_sched [Periodic_timer]"
  by (simp add: demo_sched_def sched_inv_def sched_list_def sched_init_def init_timers_def set_waketime_def
      upd_timer_def ordered_from_def off_def)

lemma demo_sched_fields [simp]: "waketime demo_sched (Obj_timer 2 0) = 5" "waketime demo_sched Periodic_timer = 0"
    "clk demo_sched = (\<lambda>_. 3)" "shutdown_status demo_sched = 0"
  by (simp_all add: demo_sched_def sched_init_def init_timers_def set_waketime_def upd_timer_def)

theorem sched_add_timer_sorted_witness:
  "\<exists>s'. sched_add_timer (Obj_timer 2 0) demo_sched = Ret () s' \<and> sched_inv s' [Periodic_timer, Obj_timer 2 0]"
proof -
  have b: "\<not> timer_is_before 5 0" by (simp add: timer_is_before_iff)
  have r: "add_result demo_sched (Obj_timer 2 0) [Periodic_timer] = [Periodic_timer, Obj_timer 2 0]"
    using b by (simp add: add_result_def ins_after_def off_def)
  show ?thesis
    using sched_add_timer_sorted [OF demo_sched_inv, of "Obj_timer 2 0"] b unfolding r by auto
qed

text \<open>
  C24. Deleting a timer, queued or not, removes it from the list and nothing else: a deleted head is replaced by
  the dummy entry with its time, so that the pending interrupt finds a timer to run; the insertion hint
  \<open>last_insert\<close> does not keep pointing at the deleted timer.
\<close>

theorem sched_del_timer_removes:
  assumes "sched_inv s xs" "d \<noteq> Sentinel_timer" "d \<noteq> Periodic_timer" "d \<noteq> Deleted_timer"
  shows "\<exists>s'. sched_del_timer d s = Ret () s' \<and> sched_inv s' (del_result d xs)
      \<and> d \<notin> set (del_result d xs) \<and> last_insert s' \<noteq> d
      \<and> (\<forall>x. x \<noteq> Deleted_timer \<longrightarrow> waketime s' x = waketime s x)"
proof -
  have "distinct xs" "xs \<noteq> []" using assms(1) by (simp_all add: sched_inv_def sched_list_def)
  then have "d \<notin> set (del_result d xs)" using set_del_result [of xs d] assms(4) by blast
  then show ?thesis using del_timer_list [OF assms] by blast
qed

theorem sched_del_timer_removes_witness:
  "\<exists>s'. sched_del_timer (Obj_timer 2 0) demo_sched = Ret () s' \<and> sched_inv s' [Periodic_timer]"
  using sched_del_timer_removes [OF demo_sched_inv, of "Obj_timer 2 0"]
  by (auto simp: del_result_def)

text \<open>
  C8. One run of the timer interrupt: when the callback of the first timer leaves it first, moves its wake time
  by less than half a turn, and only drops timers of its own kind, \<open>sched_timer_dispatch\<close> takes the timer
  off the list or sorts it back in (with the shortcut through \<open>last_insert\<close>), keeps the invariant, never
  follows a NULL pointer, and returns the wake time of the new first timer.
\<close>

theorem sched_timer_dispatch_sorted:
  assumes "call_func call t s = Ret res s1" "timer_list s = t"
    and "sched_list s1 (t # ys)" "ordered_from s1 b ys" "off s1 b t < 2 ^ 31"
    and "res = SF_DONE \<Longrightarrow> t \<noteq> Periodic_timer" "res = SF_RESCHEDULE \<Longrightarrow> t \<noteq> Deleted_timer"
  shows "\<exists>s'. sched_timer_dispatch call s = Ret (waketime s' (hd (dispatch_result s1 b res t ys))) s'
      \<and> sched_inv s' (dispatch_result s1 b res t ys) \<and> (\<forall>x. waketime s' x = waketime s1 x)"
  using dispatch_list [OF assms] by blast

theorem sched_timer_dispatch_sorted_witness:
  "\<exists>s'. sched_timer_dispatch (\<lambda>_ _. sentinel_event) demo_sched = Ret 100000 s' \<and> sched_inv s' [Periodic_timer]"
proof -
  obtain s1 where s1: "periodic_event demo_sched = Ret SF_RESCHEDULE s1" "sched_list s1 [Periodic_timer]"
    "ordered_from s1 0 []" "waketime s1 Periodic_timer = 100000"
    by (rule periodic_event_list [OF demo_sched_inv])
      (simp_all add: timer_from_us_def demo_sched_def sched_init_def set_waketime_def upd_timer_def init_timers_def)
  have "call_func (\<lambda>_ _. sentinel_event) Periodic_timer demo_sched = Ret SF_RESCHEDULE s1"
    using s1(1) by (simp add: call_func_def demo_sched_def sched_init_def set_waketime_def upd_timer_def init_timers_def)
  from sched_timer_dispatch_sorted [OF this _ s1(2,3)] s1(4) show ?thesis
    using sched_inv_head [OF demo_sched_inv] by (auto simp: off_def dispatch_result_def ins_after_def)
qed

text \<open>
  C25. The periodic timer: when it runs, the tasks are woken and it is sorted back in 100ms later, with the
  sentinel moved to half a turn after it, so that no wait is longer than its period.
\<close>

theorem periodic_dispatch:
  assumes "sched_inv s (Periodic_timer # ys)" "t_func (timers s Periodic_timer) = Some Periodic_event"
    and "unat (timer_from_us s 100000) < 2 ^ 31"
  shows "\<exists>s' zs. sched_timer_dispatch call s = Ret (waketime s' (hd zs)) s' \<and> sched_inv s' zs
      \<and> set zs = insert Periodic_timer (set ys)
      \<and> waketime s' Periodic_timer = waketime s Periodic_timer + timer_from_us s 100000"
proof -
  obtain s1 where s1: "periodic_event s = Ret SF_RESCHEDULE s1" "sched_list s1 (Periodic_timer # ys)"
    "ordered_from s1 (waketime s Periodic_timer) ys"
    "waketime s1 Periodic_timer = waketime s Periodic_timer + timer_from_us s 100000"
    using periodic_event_list [OF assms(1,3)] by blast
  have c: "call_func call Periodic_timer s = Ret SF_RESCHEDULE s1" using s1(1) assms(2) by (simp add: call_func_def)
  have w: "off s1 (waketime s Periodic_timer) Periodic_timer < 2 ^ 31" using assms(3) s1(4) by (simp add: off_def)
  have h: "timer_list s = Periodic_timer" using sched_inv_head [OF assms(1)] by simp
  let ?zs = "dispatch_result s1 (waketime s Periodic_timer) SF_RESCHEDULE Periodic_timer ys"
  obtain s' where "sched_timer_dispatch call s = Ret (waketime s' (hd ?zs)) s'" "sched_inv s' ?zs"
    "\<And>x. waketime s' x = waketime s1 x"
    using dispatch_list [OF c h s1(2,3) w] by blast
  moreover have "set ?zs = insert Periodic_timer (set ys)" by (simp add: dispatch_result_def)
  ultimately show ?thesis using s1(4) by (intro exI [of _ s'] exI [of _ ?zs]) simp
qed

theorem periodic_dispatch_witness:
  "\<exists>s' zs. sched_timer_dispatch (\<lambda>_ _. sentinel_event) demo_sched = Ret (waketime s' (hd zs)) s' \<and> sched_inv s' zs
     \<and> waketime s' Periodic_timer = 100000"
  using periodic_dispatch [OF demo_sched_inv, of "\<lambda>_ _. sentinel_event"]
  by (auto simp: timer_from_us_def demo_sched_def sched_init_def set_waketime_def upd_timer_def init_timers_def)

end
