(* ===== verification/Command.thy ===== *)
theory Command
  imports Sched_Queue
begin

text \<open>
  The receiving half of \<open>src/command.c\<close>: finding a message block in the receive buffer, parsing its
  commands and running their handlers. The command table (\<open>command_index\<close>, made by the build) is an
  argument; a handler is named by a value of its own type, and \<open>run\<close> gives its meaning from the receive
  buffer, the parsed arguments and the state.
\<close>

section \<open>The code\<close>

subsection \<open>Parsing\<close>

definition HF_IN_SHUTDOWN :: u8 where [simp]: "HF_IN_SHUTDOWN = 1"

record 'f command_parser =
  cp_num_args :: nat
  cp_flags :: u8
  cp_param_types :: "ptype list"
  cp_func :: 'f

definition command_parse_msgid :: "u8 list \<Rightarrow> nat \<Rightarrow> (u16 \<times> nat) option" where
  "command_parse_msgid buf p =
     do {
       b \<leftarrow> rd buf p;
       if b AND 0x80 \<noteq> 0 then do {
         c \<leftarrow> rd buf (p + 1);
         Some (push_bit 7 (ucast (b AND 0x7f)) OR ucast c, p + 2)
       } else Some (ucast b, p + 1)
     }"

text \<open>
  One parameter: the words it adds to \<open>args\<close> and the new \<open>p\<close>. \<open>Inl ()\<close> is \<open>goto error\<close>. A pointer
  argument is its offset in the receive buffer (\<open>command_encode_ptr\<close>).
\<close>

definition parse_param :: "u8 list \<Rightarrow> nat \<Rightarrow> ptype \<Rightarrow> nat \<Rightarrow> (unit + u32 list \<times> nat) option" where
  "parse_param buf maxend t p =
     (if p > maxend then Some (Inl ())
      else if t \<in> {PT_uint32, PT_int32, PT_uint16, PT_int16, PT_byte} then
        do { (v, p) \<leftarrow> parse_int buf p; Some (Inr ([v], p)) }
      else if t = PT_buffer then
        do {
          len \<leftarrow> rd buf p;
          let p = p + 1;
          if p + unat len > maxend then Some (Inl ())
          else Some (Inr ([ucast len, of_nat p], p + unat len))
        }
      else Some (Inl ()))"

fun parsef_loop :: "u8 list \<Rightarrow> nat \<Rightarrow> ptype list \<Rightarrow> nat \<Rightarrow> u32 list \<Rightarrow> (unit + u32 list \<times> nat) option" where
  "parsef_loop buf maxend [] p args = Some (Inr (args, p))"
| "parsef_loop buf maxend (t # ts) p args =
     (case parse_param buf maxend t p of
        None \<Rightarrow> None
      | Some (Inl e) \<Rightarrow> Some (Inl e)
      | Some (Inr (vs, p)) \<Rightarrow> parsef_loop buf maxend ts p (args @ vs))"

definition command_parsef ::
  "u8 list \<Rightarrow> nat \<Rightarrow> nat \<Rightarrow> 'f command_parser \<Rightarrow> 's \<Rightarrow> (u32 list \<times> nat, 's) outcome" where
  "command_parsef buf p maxend cp s =
     (case parsef_loop buf maxend (cp_param_types cp) p [] of
        None \<Rightarrow> Fault
      | Some (Inl _) \<Rightarrow> sched_shutdown ''Command parser error'' s
      | Some (Inr r) \<Rightarrow> Ret r s)"

definition command_lookup_parser :: "'f command_parser list \<Rightarrow> u16 \<Rightarrow> 's \<Rightarrow> ('f command_parser, 's) outcome" where
  "command_lookup_parser command_index cmdid s =
     (if cmdid = 0 \<or> unat cmdid \<ge> length command_index then sched_shutdown ''Invalid command'' s
      else Ret (command_index ! unat cmdid) s)"

subsection \<open>Finding a block\<close>

definition CF_NEED_SYNC :: u8 where [simp]: "CF_NEED_SYNC = 1"

definition CF_NEED_VALID :: u8 where [simp]: "CF_NEED_VALID = 2"

text \<open>\<open>memchr\<close>: the index of the first \<open>c\<close> among the first \<open>n\<close> bytes.\<close>

fun memchr :: "u8 list \<Rightarrow> u8 \<Rightarrow> nat \<Rightarrow> nat option" where
  "memchr (b # bs) c (Suc n) = (if b = c then Some 0 else map_option Suc (memchr bs c n))"
| "memchr _ c _ = None"

text \<open>The labels \<open>need_sync\<close> and \<open>error\<close> of \<open>command_find_block\<close>; the result is the return value and \<open>*pop_count\<close>.\<close>

definition find_block_need_sync ::
  "u8 list \<Rightarrow> nat \<Rightarrow> 'z console_state_scheme \<Rightarrow> (int \<times> nat, 'z console_state_scheme) outcome" where
  "find_block_need_sync buf buf_len s =
     (let (pop_count, s) =
        (case memchr buf MESSAGE_SYNC buf_len of
           Some i \<Rightarrow> (i + 1, s\<lparr>sync_state := sync_state s AND NOT CF_NEED_SYNC\<rparr>)
         | None \<Rightarrow> (buf_len, s))
      in if sync_state s AND CF_NEED_VALID \<noteq> 0 then Ret (-1, pop_count) s
         else let s = s\<lparr>sync_state := sync_state s OR CF_NEED_VALID\<rparr>
              in Ret (-1, pop_count) (command_sendf Acknak s))"

definition find_block_error ::
  "u8 list \<Rightarrow> nat \<Rightarrow> 'z console_state_scheme \<Rightarrow> (int \<times> nat, 'z console_state_scheme) outcome" where
  "find_block_error buf buf_len s =
     (case rd buf 0 of
        None \<Rightarrow> Fault
      | Some b \<Rightarrow>
          if b = MESSAGE_SYNC then Ret (-1, 1) s
          else find_block_need_sync buf buf_len (s\<lparr>sync_state := sync_state s OR CF_NEED_SYNC\<rparr>))"

text \<open>The checks on the trailer of a complete block: \<open>None\<close> is a read outside the buffer.\<close>

definition trailer_ok :: "u8 list \<Rightarrow> nat \<Rightarrow> bool option" where
  "trailer_ok buf msglen =
     do {
       sync \<leftarrow> rd buf (msglen - MESSAGE_TRAILER_SYNC);
       if sync \<noteq> MESSAGE_SYNC then Some False
       else do {
         hi \<leftarrow> rd buf (msglen - MESSAGE_TRAILER_CRC);
         lo \<leftarrow> rd buf (msglen - MESSAGE_TRAILER_CRC + 1);
         crc \<leftarrow> crc16_ccitt buf (msglen - MESSAGE_TRAILER_SIZE);
         Some (crc = push_bit 8 (ucast hi) OR ucast lo)
       }
     }"

definition command_find_block ::
  "u8 list \<Rightarrow> nat \<Rightarrow> 'z console_state_scheme \<Rightarrow> (int \<times> nat, 'z console_state_scheme) outcome" where
  "command_find_block buf buf_len s =
     (if buf_len \<noteq> 0 \<and> sync_state s AND CF_NEED_SYNC \<noteq> 0 then find_block_need_sync buf buf_len s
      else if buf_len < MESSAGE_MIN then Ret (0, 0) s
      else case (rd buf MESSAGE_POS_LEN, rd buf MESSAGE_POS_SEQ) of
        (Some len, Some msgseq) \<Rightarrow>
          let msglen = unat len in
          if msglen < MESSAGE_MIN \<or> msglen > MESSAGE_MAX then find_block_error buf buf_len s
          else if msgseq AND NOT MESSAGE_SEQ_MASK \<noteq> MESSAGE_DEST then find_block_error buf buf_len s
          else if buf_len < msglen then Ret (0, 0) s
          else (case trailer_ok buf msglen of
                  None \<Rightarrow> Fault
                | Some False \<Rightarrow> find_block_error buf buf_len s
                | Some True \<Rightarrow>
                    let s = s\<lparr>sync_state := sync_state s AND NOT CF_NEED_VALID\<rparr> in
                    if msgseq \<noteq> next_sequence s then Ret (-1, msglen) (command_sendf Acknak s)
                    else Ret (1, msglen)
                      (s\<lparr>next_sequence := ((msgseq + 1) AND MESSAGE_SEQ_MASK) OR MESSAGE_DEST\<rparr>))
      | _ \<Rightarrow> Fault)"

subsection \<open>Dispatch\<close>

text \<open>One round of the loop: parse the command at \<open>p\<close> and run it; the result is the new \<open>p\<close>.\<close>

definition dispatch_one ::
  "'f command_parser list \<Rightarrow>
   ('f \<Rightarrow> u8 list \<Rightarrow> u32 list \<Rightarrow> 'z sched_state_scheme \<Rightarrow> (unit, 'z sched_state_scheme) outcome) \<Rightarrow>
   u8 list \<Rightarrow> nat \<Rightarrow> nat \<Rightarrow> 'z sched_state_scheme \<Rightarrow> (nat, 'z sched_state_scheme) outcome" where
  "dispatch_one command_index run buf msgend p s =
     (case command_parse_msgid buf p of
        None \<Rightarrow> Fault
      | Some (cmdid, p) \<Rightarrow>
          obind (command_lookup_parser command_index cmdid s) (\<lambda>cp s.
          obind (command_parsef buf p msgend cp s) (\<lambda>(args, p) s.
            if sched_is_shutdown s \<and> cp_flags cp AND HF_IN_SHUTDOWN = 0
            then Ret p (sched_report_shutdown s)
            else obind (run (cp_func cp) buf args s) (\<lambda>_ s. Ret p s))))"

text \<open>
  Every round advances \<open>p\<close>, so \<open>msgend\<close> rounds of fuel are enough; without fuel the loop is a \<open>Fault\<close>.
\<close>

fun dispatch_loop ::
  "nat \<Rightarrow> 'f command_parser list \<Rightarrow>
   ('f \<Rightarrow> u8 list \<Rightarrow> u32 list \<Rightarrow> 'z sched_state_scheme \<Rightarrow> (unit, 'z sched_state_scheme) outcome) \<Rightarrow>
   u8 list \<Rightarrow> nat \<Rightarrow> nat \<Rightarrow> 'z sched_state_scheme \<Rightarrow> (unit, 'z sched_state_scheme) outcome" where
  "dispatch_loop 0 ci run buf msgend p s = Fault"
| "dispatch_loop (Suc n) ci run buf msgend p s =
     (if p < msgend
      then obind (dispatch_one ci run buf msgend p s) (\<lambda>p s. dispatch_loop n ci run buf msgend p s)
      else Ret () s)"

definition command_dispatch ::
  "'f command_parser list \<Rightarrow>
   ('f \<Rightarrow> u8 list \<Rightarrow> u32 list \<Rightarrow> 'z sched_state_scheme \<Rightarrow> (unit, 'z sched_state_scheme) outcome) \<Rightarrow>
   u8 list \<Rightarrow> nat \<Rightarrow> 'z sched_state_scheme \<Rightarrow> (unit, 'z sched_state_scheme) outcome" where
  "command_dispatch ci run buf msglen s =
     (let msgend = msglen - MESSAGE_TRAILER_SIZE
      in dispatch_loop (Suc msgend) ci run buf msgend MESSAGE_HEADER_SIZE s)"

definition command_send_ack :: "'z console_state_scheme \<Rightarrow> 'z console_state_scheme" where
  "command_send_ack s = command_sendf Acknak s"

definition command_find_and_dispatch ::
  "'f command_parser list \<Rightarrow>
   ('f \<Rightarrow> u8 list \<Rightarrow> u32 list \<Rightarrow> 'z sched_state_scheme \<Rightarrow> (unit, 'z sched_state_scheme) outcome) \<Rightarrow>
   u8 list \<Rightarrow> nat \<Rightarrow> 'z sched_state_scheme \<Rightarrow> (int \<times> nat, 'z sched_state_scheme) outcome" where
  "command_find_and_dispatch ci run buf buf_len s =
     obind (command_find_block buf buf_len s) (\<lambda>(ret, pop_count) s.
       if ret > 0
       then obind (command_dispatch ci run buf pop_count s) (\<lambda>_ s. Ret (ret, pop_count) (command_send_ack s))
       else Ret (ret, pop_count) s)"

end
