(* ===== verification/Command_Blocks.thy ===== *)
theory Command_Blocks
  imports Command
begin

text \<open>
  Message blocks: the frame format, what \<open>command_find_block\<close> accepts, that it always makes progress, and how
  it gets back in sync.
\<close>

section \<open>Blocks\<close>

definition frame :: "u8 \<Rightarrow> u8 list \<Rightarrow> u8 list" where
  "frame seq payload =
     (let h = of_nat (length payload + MESSAGE_MIN) # seq # payload; crc = crc_of h
      in h @ [ucast (drop_bit 8 crc), ucast crc, MESSAGE_SYNC])"

lemma length_frame [simp]: "length (frame seq payload) = length payload + 5"
  by (simp add: frame_def Let_def)

lemma split_crc: "x = push_bit 8 (ucast h) OR ucast l \<longleftrightarrow> h = ucast (drop_bit 8 x) \<and> l = ucast x"
  for x :: u16 and h l :: u8
proof
  have nb: "\<not> bit l (8 + n)" for n using bit_imp_le_length [of l "8 + n"] by auto
  assume "x = push_bit 8 (ucast h) OR ucast l"
  then show "h = ucast (drop_bit 8 x) \<and> l = ucast x"
    by (auto intro!: bit_word_eqI simp: bit_simps nb)
next
  assume "h = ucast (drop_bit 8 x) \<and> l = ucast x"
  then show "x = push_bit 8 (ucast h) OR ucast l"
    by (auto intro!: bit_word_eqI simp: bit_simps)
qed

lemma take_trailer:
  assumes "5 \<le> n" "n \<le> length buf"
  shows "take n buf = take (n - 3) buf @ [buf ! (n - 3), buf ! (n - 2), buf ! (n - 1)]"
proof -
  obtain m where n: "n = Suc (Suc (Suc m))" using assms(1) by (auto simp: numeral_eq_Suc Suc_le_eq dest!: less_imp_Suc_add)
  then show ?thesis using assms(2) by (simp add: take_Suc_conv_app_nth numeral_eq_Suc)
qed

lemma trailer_ok_frame:
  assumes n: "5 \<le> n" "n \<le> length buf" "n \<le> 64" and len: "unat (buf ! 0) = n"
  shows "trailer_ok buf n = Some (take n buf = frame (buf ! 1) (drop 2 (take (n - 3) buf)))"
proof -
  let ?h = "take (n - 3) buf"
  have h: "?h = buf ! 0 # buf ! 1 # drop 2 ?h"
  proof -
    obtain a b r where "buf = a # b # r" using n by (cases buf; cases "tl buf") auto
    moreover have "n - 3 = Suc (Suc (n - 5))" using n by simp
    ultimately show ?thesis by simp
  qed
  have l: "of_nat (length (drop 2 ?h) + MESSAGE_MIN) = buf ! 0"
  proof -
    have "length (drop 2 ?h) + MESSAGE_MIN = unat (buf ! 0)" using n len by simp
    then show ?thesis by (simp only: of_nat_unat ucast_id)
  qed
  have f: "frame (buf ! 1) (drop 2 ?h) = ?h @ [ucast (drop_bit 8 (crc_of ?h)), ucast (crc_of ?h), MESSAGE_SYNC]"
    unfolding frame_def l Let_def by (subst (1 2 3) h [symmetric]) simp
  have c: "crc16_ccitt buf (n - 3) = Some (crc_of ?h)" using n by (intro crc16_ccitt_eq) simp
  have i: "n - 1 < length buf" "n - 3 < length buf" "Suc (n - 3) < length buf" "Suc (n - 3) = n - 2" using n by auto
  show ?thesis
    unfolding f take_trailer [OF n(1,2)]
    using i by (auto simp: trailer_ok_def rd_def c split_crc)
qed

lemma memchr_Some:
  "memchr buf c n = Some i \<Longrightarrow> i < n \<and> i < length buf \<and> buf ! i = c \<and> c \<notin> set (take i buf)"
  by (induction buf c n arbitrary: i rule: memchr.induct) (auto split: if_splits)

lemma memchr_None: "memchr buf c n = None \<Longrightarrow> c \<notin> set (take n buf)"
  by (induction buf c n rule: memchr.induct) (auto split: if_splits)

lemma memchr_first: "c \<notin> set xs \<Longrightarrow> length xs < n \<Longrightarrow> memchr (xs @ c # ys) c n = Some (length xs)"
proof (induction xs arbitrary: n)
  case Nil
  then show ?case by (cases n) auto
next
  case (Cons x xs)
  then show ?case by (cases n) auto
qed

lemma need_sync_total:
  "0 < n \<Longrightarrow> \<exists>k s'. find_block_need_sync buf n s = Ret (-1, k) s' \<and> 0 < k \<and> k \<le> n
     \<and> next_sequence s' = next_sequence s"
  by (auto simp: find_block_need_sync_def command_sendf_eq Let_def Suc_le_eq split: option.splits dest!: memchr_Some)

lemma error_total:
  assumes "0 < n" "n \<le> length buf"
  shows "\<exists>k s'. find_block_error buf n s = Ret (-1, k) s' \<and> 0 < k \<and> k \<le> n \<and> next_sequence s' = next_sequence s"
proof -
  have "rd buf 0 = Some (buf ! 0)" using assms by (auto simp: rd_def)
  then show ?thesis
    using assms(1) need_sync_total [of n buf "s\<lparr>sync_state := sync_state s OR CF_NEED_SYNC\<rparr>"]
    by (simp add: find_block_error_def Suc_le_eq del: CF_NEED_SYNC_def)
qed

definition block_at :: "u8 list \<Rightarrow> nat \<Rightarrow> nat \<Rightarrow> u8 \<Rightarrow> bool" where
  "block_at buf n k seq \<longleftrightarrow> k \<le> n \<and> (\<exists>payload. length payload \<le> MESSAGE_PAYLOAD_MAX \<and> take k buf = frame seq payload)"

definition seq_ok :: "u8 \<Rightarrow> bool" where
  "seq_ok q \<longleftrightarrow> q AND NOT MESSAGE_SEQ_MASK = MESSAGE_DEST"

definition next_seq :: "u8 \<Rightarrow> u8" where
  "next_seq q = ((q + 1) AND MESSAGE_SEQ_MASK) OR MESSAGE_DEST"

lemma frame_nth: "frame q pl ! 0 = of_nat (length pl + 5)" "frame q pl ! Suc 0 = q" "take 2 (frame q pl) = [of_nat (length pl + 5), q]"
  by (simp_all add: frame_def Let_def)

text \<open>All results of \<open>command_find_block\<close> on a buffer with \<open>n\<close> readable bytes.\<close>

lemma find_block_cases:
  assumes n: "n \<le> length buf"
  obtains (more) "command_find_block buf n s = Ret (0, 0) s"
  | (bad) k s' where "command_find_block buf n s = Ret (-1, k) s'" "0 < k" "k \<le> n"
      "next_sequence s' = next_sequence s"
  | (good) k where "sync_state s AND CF_NEED_SYNC = 0" "block_at buf n k (next_sequence s)" "seq_ok (next_sequence s)" "0 < k"
      "command_find_block buf n s = Ret (1, k) (s\<lparr>sync_state := sync_state s AND NOT CF_NEED_VALID,
         next_sequence := next_seq (next_sequence s)\<rparr>)"
proof (cases "n \<noteq> 0 \<and> sync_state s AND CF_NEED_SYNC \<noteq> 0")
  case True
  then have "command_find_block buf n s = find_block_need_sync buf n s" by (simp add: command_find_block_def)
  then show ?thesis using True need_sync_total [of n buf s] bad by auto
next
  case sync: False
  show ?thesis
  proof (cases "n < 5")
    case True
    show ?thesis by (rule more) (use True sync in \<open>auto simp: command_find_block_def\<close>)
  next
    case len: False
    let ?k = "unat (buf ! 0)"
    have r: "rd buf 0 = Some (buf ! 0)" "rd buf (Suc 0) = Some (buf ! 1)" using len n by (auto simp: rd_def)
    have err: thesis if "command_find_block buf n s = find_block_error buf n s"
      using that bad error_total [of n buf s] len n by auto
    show ?thesis
    proof (cases "?k < 5 \<or> 64 < ?k \<or> \<not> seq_ok (buf ! 1)")
      case True
      show ?thesis by (rule err) (use True sync len r in \<open>auto simp: command_find_block_def seq_ok_def Let_def\<close>)
    next
      case k: False
      show ?thesis
      proof (cases "n < ?k")
        case True
        show ?thesis by (rule more) (use True sync len r k in \<open>auto simp: command_find_block_def seq_ok_def Let_def\<close>)
      next
        case kn: False
        have t: "trailer_ok buf ?k = Some (take ?k buf = frame (buf ! 1) (drop 2 (take (?k - 3) buf)))"
          using trailer_ok_frame [of ?k buf] k kn n by simp
        have e: "command_find_block buf n s =
           (if take ?k buf = frame (buf ! 1) (drop 2 (take (?k - 3) buf))
            then if buf ! 1 \<noteq> next_sequence s
              then Ret (-1, ?k) (command_sendf Acknak (s\<lparr>sync_state := sync_state s AND NOT CF_NEED_VALID\<rparr>))
              else Ret (1, ?k) (s\<lparr>sync_state := sync_state s AND NOT CF_NEED_VALID, next_sequence := next_seq (buf ! 1)\<rparr>)
            else find_block_error buf n s)"
          using sync len r k kn by (simp add: t command_find_block_def seq_ok_def next_seq_def Let_def)
        show ?thesis
        proof (cases "take ?k buf = frame (buf ! 1) (drop 2 (take (?k - 3) buf))")
          case False
          then show ?thesis using e err by simp
        next
          case True
          then have b: "block_at buf n ?k (buf ! 1)" unfolding block_at_def
            by (intro conjI exI [of _ "drop 2 (take (?k - 3) buf)"]) (use k kn n in auto)
          show ?thesis
          proof (cases "buf ! 1 = next_sequence s")
            case eq: True
            show ?thesis by (rule good [of ?k]) (use True e b k sync len eq in auto)
          next
            case False
            show ?thesis by (rule bad [of ?k "command_sendf Acknak (s\<lparr>sync_state := sync_state s AND NOT CF_NEED_VALID\<rparr>)"]) (use True e k kn False in \<open>auto simp: command_sendf_eq\<close>)
          qed
        qed
      qed
    qed
  qed
qed

lemma take_frame_parts:
  assumes "take k buf = frame q pl" "k \<le> length buf" "length pl \<le> 59"
  shows "k = length pl + 5" "unat (buf ! 0) = k" "buf ! 1 = q" "drop 2 (take (k - 3) buf) = pl"
proof -
  have "length (take k buf) = length pl + 5" by (simp add: assms(1))
  then show k: "k = length pl + 5" using assms(2) by simp
  have "buf ! 0 = take k buf ! 0" "buf ! 1 = take k buf ! 1" using k by simp_all
  then have "buf ! 0 = of_nat k" "buf ! 1 = q" unfolding assms(1) using k by (simp_all add: frame_nth)
  moreover have "k < 2 ^ 8" using k assms(3) by simp
  ultimately show "unat (buf ! 0) = k" "buf ! 1 = q" by (simp_all only: unat_of_nat) simp
  have "take (k - 3) buf = take (k - 3) (take k buf)" by simp
  also have "\<dots> = of_nat (length pl + 5) # q # pl" unfolding assms(1) using k by (simp add: frame_def Let_def)
  finally show "drop 2 (take (k - 3) buf) = pl" by simp
qed

text \<open>A block with the expected sequence number at the start of the buffer is accepted.\<close>

lemma find_block_accepts:
  assumes n: "n \<le> length buf" and sync: "sync_state s AND CF_NEED_SYNC = 0"
    and b: "block_at buf n k (next_sequence s)" and q: "seq_ok (next_sequence s)"
  shows "command_find_block buf n s = Ret (1, k) (s\<lparr>sync_state := sync_state s AND NOT CF_NEED_VALID,
         next_sequence := next_seq (next_sequence s)\<rparr>)"
proof -
  obtain pl where pl: "length pl \<le> 59" "take k buf = frame (next_sequence s) pl" "k \<le> n"
    using b by (auto simp: block_at_def)
  note p = take_frame_parts [OF pl(2) _ pl(1)]
  have kl: "k \<le> length buf" using pl n by simp
  note p = p [OF this]
  have r: "rd buf 0 = Some (buf ! 0)" "rd buf (Suc 0) = Some (next_sequence s)"
    using kl p by (auto simp: rd_def)
  have "trailer_ok buf k = Some True"
    using trailer_ok_frame [of k buf] p pl kl by simp
  then show ?thesis using r q sync p pl by (simp add: command_find_block_def seq_ok_def next_seq_def Let_def)
qed

lemma bit_16 [simp]: "bit (16 :: u8) n \<longleftrightarrow> n = 4"
proof -
  have "(16 :: u8) = 2 ^ 4" by simp
  then show ?thesis by (auto simp only: bit_exp_iff) (auto simp: possible_bit_def)
qed

lemma next_seq_ok [simp]: "seq_ok (next_seq q)"
  unfolding seq_ok_def next_seq_def by (simp add: ac_simps bit.conj_disj_distrib)

section \<open>Properties of block search\<close>

text \<open>
  C28. Searching a block reads only the received bytes and always makes progress: the result is 0 with nothing
  consumed and nothing changed, or 1 or -1 with at least one byte, and at most the received ones, consumed. A rejected
  block leaves the expected sequence number as it is.
\<close>

theorem find_block_progress:
  assumes "n \<le> length buf"
  shows "\<exists>r k s'. command_find_block buf n s = Ret (r, k) s' \<and> k \<le> n \<and> r \<in> {-1, 0, 1}
     \<and> (if r = 0 then k = 0 \<and> s' = s else 0 < k) \<and> (r \<noteq> 1 \<longrightarrow> next_sequence s' = next_sequence s)"
proof (rule find_block_cases [OF assms, of s], goal_cases)
  case (3 k)
  moreover from this have "k \<le> n" by (simp add: block_at_def)
  ultimately show ?case by simp
qed auto

theorem find_block_progress_witness:
  "\<exists>r k s'. command_find_block [0x7e, 1, 2] 3 demo_sched = Ret (r, k) s' \<and> k \<le> 3"
  using find_block_progress [of 3 "[0x7e, 1, 2]" demo_sched] by auto

text \<open>
  C11. A block is accepted exactly when the receiver is in sync and the received bytes start with a frame of 5 to
  64 bytes (length, sequence, payload, checksum, sync byte) that carries the expected sequence number; then
  its bytes are consumed and the expected number advances by one modulo 16.
\<close>

theorem find_block_accepts_frames:
  assumes "n \<le> length buf" "seq_ok (next_sequence s)"
  shows "command_find_block buf n s = Ret (1, k) s' \<longleftrightarrow>
      sync_state s AND CF_NEED_SYNC = 0 \<and> block_at buf n k (next_sequence s)
      \<and> s' = s\<lparr>sync_state := sync_state s AND NOT CF_NEED_VALID, next_sequence := next_seq (next_sequence s)\<rparr>"
proof
  assume e: "command_find_block buf n s = Ret (1, k) s'"
  show "sync_state s AND CF_NEED_SYNC = 0 \<and> block_at buf n k (next_sequence s)
      \<and> s' = s\<lparr>sync_state := sync_state s AND NOT CF_NEED_VALID, next_sequence := next_seq (next_sequence s)\<rparr>"
    by (rule find_block_cases [OF assms(1), of s]) (use e in auto)
qed (use find_block_accepts [OF assms(1) _ _ assms(2)] in auto)

lemma block_at_self: "length pl \<le> MESSAGE_PAYLOAD_MAX \<Longrightarrow> block_at (frame q pl @ rest) (length pl + 5 + length rest) (length pl + 5) q"
  by (auto simp: block_at_def)

theorem find_block_accepts_frames_witness:
  "\<exists>s'. command_find_block (frame 0x10 [7]) 6 demo_sched = Ret (1, 6) s'"
proof -
  have d: "next_sequence demo_sched = 0x10" "sync_state demo_sched = 0"
    by (simp_all add: demo_sched_def sched_init_def set_waketime_def upd_timer_def)
  have "seq_ok (next_sequence demo_sched)" by (simp add: d seq_ok_def)
  moreover have "block_at (frame 0x10 [7]) 6 6 (next_sequence demo_sched)"
    using block_at_self [of "[7]" "0x10" "[]"] by (simp add: d)
  ultimately show ?thesis
    using find_block_accepts_frames [of 6 "frame 0x10 [7]" demo_sched 6] by (simp add: d)
qed

text \<open>
  C29. Recovery: while the receiver looks for a sync byte it drops exactly the bytes up to and including the next one, and
  answers the first loss with one nak and no more until a valid block arrives.
\<close>

theorem find_block_resync:
  assumes "sync_state s AND CF_NEED_SYNC \<noteq> 0" "MESSAGE_SYNC \<notin> set garbage" "length garbage < n"
  shows "\<exists>s'. command_find_block (garbage @ MESSAGE_SYNC # rest) n s = Ret (-1, length garbage + 1) s'
     \<and> sync_state s' = (sync_state s AND NOT CF_NEED_SYNC) OR CF_NEED_VALID
     \<and> next_sequence s' = next_sequence s
     \<and> sent s' = (if sync_state s AND CF_NEED_VALID \<noteq> 0 \<or> in_sendf s \<noteq> 0 then sent s
                  else sent s @ [(next_sequence s, Acknak)])"
proof -
  let ?buf = "garbage @ MESSAGE_SYNC # rest"
  have m: "memchr ?buf MESSAGE_SYNC n = Some (length garbage)" by (rule memchr_first [OF assms(2,3)])
  have v: "(x AND NOT CF_NEED_SYNC) AND CF_NEED_VALID = x AND CF_NEED_VALID" for x
    by (rule bit_word_eqI) (auto simp: bit_simps bit_1_iff)
  have o: "x OR CF_NEED_VALID = x" if "x AND CF_NEED_VALID \<noteq> 0" for x
  proof -
    have "bit x 1" using that bit_word_eqI [of "x AND CF_NEED_VALID" 0] by (auto simp: bit_simps)
    then show ?thesis by (intro bit_word_eqI) (auto simp: bit_simps)
  qed
  have "command_find_block ?buf n s = find_block_need_sync ?buf n s"
    using assms(1,3) by (simp add: command_find_block_def)
  then show ?thesis
    using o [of "sync_state s AND NOT CF_NEED_SYNC"]
    by (simp add: find_block_need_sync_def m v command_sendf_eq Let_def del: CF_NEED_SYNC_def CF_NEED_VALID_def MESSAGE_SYNC_def)
qed

theorem find_block_resync_witness:
  "\<exists>s'. command_find_block [1, 2, 0x7e, 9] 4 (demo_sched\<lparr>sync_state := 1\<rparr>) = Ret (-1, 3) s'"
  using find_block_resync [of "demo_sched\<lparr>sync_state := 1\<rparr>" "[1, 2]" 4 "[9]"] by auto

end
