(* ===== verification/Command_Dispatch.thy ===== *)
theory Command_Dispatch
  imports Command_Blocks
begin

text \<open>
  Running the commands of a block: dispatch reads only the block, runs the handlers of encoded commands in
  order, and is gated in the emergency stop state; the encoder of responses writes one frame, and where it
  overruns the space it was given.
\<close>

section \<open>Dispatch reads only the block\<close>

lemma parse_msgid_ok:
  assumes "p + 1 < length buf"
  shows "\<exists>cmdid q. command_parse_msgid buf p = Some (cmdid, q) \<and> p < q \<and> q \<le> p + 2"
  using assms by (auto simp: command_parse_msgid_def rd_def)

lemma parse_param_ok:
  assumes "rd buf k = Some b" "b AND 0x80 = 0" "maxend \<le> k"
  shows "parse_param buf maxend t p = Some (Inl ()) \<or>
    (\<exists>vs q. parse_param buf maxend t p = Some (Inr (vs, q)) \<and> p < q)"
proof (cases "p > maxend")
  case True
  then show ?thesis by (simp add: parse_param_def)
next
  case False
  then have p: "p \<le> k" using assms(3) by simp
  obtain w q where pi: "parse_int buf p = Some (w, q)" using parse_int_stops [OF assms(1) _ p] assms(2) by auto
  moreover have "p < q" using parse_int_bounds [OF pi] by simp
  moreover obtain c where "rd buf p = Some c" using assms(1) p by (auto simp: rd_def split: if_splits)
  ultimately show ?thesis using False by (auto simp: parse_param_def)
qed

lemma parsef_loop_ok:
  assumes "rd buf k = Some b" "b AND 0x80 = 0" "maxend \<le> k"
  shows "parsef_loop buf maxend ts p args = Some (Inl ()) \<or>
    (\<exists>vs q. parsef_loop buf maxend ts p args = Some (Inr (vs, q)) \<and> p \<le> q)"
proof (induction ts arbitrary: p args)
  case (Cons t ts)
  from parse_param_ok [OF assms, of t p] show ?case
  proof
    assume "\<exists>vs q. parse_param buf maxend t p = Some (Inr (vs, q)) \<and> p < q"
    then obtain vs q where "parse_param buf maxend t p = Some (Inr (vs, q))" "p < q" by blast
    with Cons.IH [of q "args @ vs"] show ?thesis by fastforce
  qed simp
qed simp

lemma dispatch_one_ok:
  assumes b: "rd buf k = Some b" "b AND 0x80 = 0" "msgend < k" "p < msgend"
    and run: "\<And>f args s. run f buf args s \<noteq> Fault"
  shows "dispatch_one ci run buf msgend p s \<noteq> Fault \<and>
    (\<forall>q s'. dispatch_one ci run buf msgend p s = Ret q s' \<longrightarrow> p < q)"
proof -
  have "p + 1 < length buf" using b by (auto simp: rd_def split: if_splits)
  then obtain cmdid p1 where m: "command_parse_msgid buf p = Some (cmdid, p1)" "p < p1" using parse_msgid_ok by blast
  show ?thesis
  proof (cases "cmdid = 0 \<or> length ci \<le> unat cmdid")
    case True
    then show ?thesis by (simp add: dispatch_one_def m command_lookup_parser_def sched_shutdown_def)
  next
    case False
    let ?cp = "ci ! unat cmdid"
    have "msgend \<le> k" using b(3) by simp
    from parsef_loop_ok [OF b(1,2) this, of "cp_param_types ?cp" p1 "[]"] show ?thesis
    proof
      assume "parsef_loop buf msgend (cp_param_types ?cp) p1 [] = Some (Inl ())"
      then show ?thesis using False
        by (simp add: dispatch_one_def m command_lookup_parser_def command_parsef_def sched_shutdown_def)
    next
      assume "\<exists>vs q. parsef_loop buf msgend (cp_param_types ?cp) p1 [] = Some (Inr (vs, q)) \<and> p1 \<le> q"
      then obtain vs q where "parsef_loop buf msgend (cp_param_types ?cp) p1 [] = Some (Inr (vs, q))" "p1 \<le> q" by blast
      moreover from this m(2) have "p < q" by simp
      ultimately show ?thesis using False run [of "cp_func ?cp" vs s]
        by (cases "run (cp_func ?cp) buf vs s")
          (auto simp: dispatch_one_def m command_lookup_parser_def command_parsef_def)
    qed
  qed
qed

lemma dispatch_loop_ok:
  assumes "rd buf k = Some b" "b AND 0x80 = 0" "msgend < k" "\<And>f args s. run f buf args s \<noteq> Fault"
  shows "msgend - p < n \<Longrightarrow> dispatch_loop n ci run buf msgend p s \<noteq> Fault"
proof (induction n arbitrary: p s)
  case (Suc n)
  show ?case
  proof (cases "p < msgend")
    case True
    note one = dispatch_one_ok [where run = run and ci = ci and s = s, OF assms(1-3) True assms(4)]
    show ?thesis
    proof (cases "dispatch_one ci run buf msgend p s")
      case (Ret q s')
      then have "msgend - q < n" using one Suc.prems True by auto
      then show ?thesis using True Ret Suc.IH by simp
    qed (use True one in auto)
  qed simp
qed simp

section \<open>Dispatch of encoded commands\<close>

text \<open>A command as a sender has it: the message id and the parameters.\<close>

datatype param = P_int u32 | P_buf "u8 list"

fun param_bytes :: "param \<Rightarrow> u8 list" where
  "param_bytes (P_int v) = encode_int v"
| "param_bytes (P_buf d) = of_nat (length d) # d"

definition params_bytes :: "param list \<Rightarrow> u8 list" where
  "params_bytes ps = concat (map param_bytes ps)"

fun param_fits :: "ptype \<Rightarrow> param \<Rightarrow> bool" where
  "param_fits t (P_int v) \<longleftrightarrow> t \<in> {PT_uint32, PT_int32, PT_uint16, PT_int16, PT_byte}"
| "param_fits t (P_buf d) \<longleftrightarrow> t = PT_buffer"

fun param_args :: "nat \<Rightarrow> param list \<Rightarrow> u32 list" where
  "param_args p [] = []"
| "param_args p (P_int v # ps) = v # param_args (p + length (encode_int v)) ps"
| "param_args p (P_buf d # ps) = of_nat (length d) # of_nat (p + 1) # param_args (p + 1 + length d) ps"

lemma parsef_loop_encoded:
  assumes "bytes_at buf p (params_bytes ps)" "list_all2 param_fits ts ps" "p + length (params_bytes ps) \<le> maxend"
    "maxend \<le> 255"
  shows "parsef_loop buf maxend ts p args = Some (Inr (args @ param_args p ps, p + length (params_bytes ps)))"
  using assms
proof (induction ps arbitrary: ts p args)
  case (Cons a ps)
  from Cons.prems(2) obtain t ts' where ts: "ts = t # ts'" "param_fits t a" "list_all2 param_fits ts' ps"
    by (auto simp: list_all2_Cons2)
  have b: "bytes_at buf p (param_bytes a)" "bytes_at buf (p + length (param_bytes a)) (params_bytes ps)"
    using Cons.prems(1) by (auto simp: params_bytes_def bytes_at_append)
  have IH: "parsef_loop buf maxend ts' (p + length (param_bytes a)) args' =
      Some (Inr (args' @ param_args (p + length (param_bytes a)) ps, p + length (params_bytes (a # ps))))" for args'
    using Cons.IH [OF b(2) ts(3)] Cons.prems(3,4) by (simp add: params_bytes_def add_ac)
  have p: "p + length (param_bytes a) \<le> maxend" using Cons.prems(3) by (simp add: params_bytes_def)
  show ?case
  proof (cases a)
    case (P_int v)
    have "parse_int buf p = Some (v, p + length (encode_int v))" using b(1) by (intro parse_encode_int) (simp add: P_int)
    then have "parse_param buf maxend t p = Some (Inr ([v], p + length (encode_int v)))"
      using ts(2) p by (auto simp: parse_param_def P_int)
    with IH ts(1) show ?thesis by (simp add: P_int)
  next
    case (P_buf d)
    have "rd buf p = Some (of_nat (length d))" using b(1) by (simp add: P_buf bytes_at_Cons)
    moreover have u: "unat (of_nat (length d) :: u8) = length d" using p Cons.prems(4) by (simp add: P_buf unat_of_nat)
    moreover have "ucast (of_nat (length d) :: u8) = (of_nat (length d) :: u32)"
      by (subst of_nat_unat [symmetric]) (simp only: u)
    ultimately have "parse_param buf maxend t p = Some (Inr ([of_nat (length d), of_nat (p + 1)], p + 1 + length d))"
      using ts(2) p by (auto simp: parse_param_def P_buf)
    with IH ts(1) show ?thesis by (simp add: P_buf)
  qed
qed (simp add: params_bytes_def)

lemma bit_nonzero: "bit (x :: 'a::len word) n \<Longrightarrow> x \<noteq> 0"
  by auto

lemma bit_word_high: "x < 2 ^ n \<Longrightarrow> bit (x :: 'a::len word) m \<Longrightarrow> m < n"
proof (rule ccontr)
  assume x: "x < 2 ^ n" "bit x m" "\<not> m < n"
  have "m < LENGTH('a)" using x(2) by (rule bit_imp_le_length)
  then have "take_bit n x = x" using x(1,3) by (simp add: less_mask_eq take_bit_eq_mask)
  then show False using x(2,3) by (metis bit_take_bit_iff)
qed

lemma msgid_hi: "(ucast (drop_bit 7 v) OR 0x80 :: u8) AND 0x80 \<noteq> 0" for v :: u16
  by (rule bit_nonzero [of _ 7]) (simp add: bit_simps)

lemma msgid_lo: "(ucast (v AND 0x7f) :: u8) AND 0x80 = 0" for v :: u16
  by (rule bit_word_eqI) (auto simp: bit_simps and_127)

lemma msgid_join:
  fixes v :: u16
  assumes "v < 2 ^ 14"
  shows "push_bit 7 (ucast ((ucast (drop_bit 7 v) OR 0x80 :: u8) AND 0x7f)) OR ucast (ucast (v AND 0x7f) :: u8) = v"
proof (rule bit_word_eqI, goal_cases)
  case (1 n)
  then show ?case using bit_word_high [OF assms, of n] by (auto simp: bit_simps and_127)
qed

lemma msgid_small:
  fixes v :: u16
  assumes "v < 2 ^ 7"
  shows "ucast (ucast (v AND 0x7f) :: u8) = v"
proof (rule bit_word_eqI, goal_cases)
  case (1 n)
  then show ?case using bit_word_high [OF assms, of n] by (auto simp: bit_simps and_127)
qed

lemma parse_msgid_encoded:
  assumes "bytes_at buf p (encode_msgid v)" "v < 2 ^ 14"
  shows "command_parse_msgid buf p = Some (v, p + length (encode_msgid v))"
proof (cases "v \<ge> 0x80")
  case True
  have "rd buf p = Some (ucast (drop_bit 7 v) OR 0x80)" "rd buf (Suc p) = Some (ucast (v AND 0x7f))"
    using assms(1) True by (simp_all add: encode_msgid_def bytes_at_Cons)
  then show ?thesis using True msgid_hi [of v] msgid_join [OF assms(2)]
    by (simp add: command_parse_msgid_def encode_msgid_def)
next
  case False
  then have "rd buf p = Some (ucast (v AND 0x7f))" using assms(1) by (simp add: encode_msgid_def bytes_at_Cons)
  then show ?thesis using False msgid_lo [of v] msgid_small [of v]
    by (simp add: command_parse_msgid_def encode_msgid_def)
qed


type_synonym command = "u16 \<times> param list"

definition cmd_bytes :: "command \<Rightarrow> u8 list" where
  "cmd_bytes c = encode_msgid (fst c) @ params_bytes (snd c)"

definition cmd_ok :: "'f command_parser list \<Rightarrow> command \<Rightarrow> bool" where
  "cmd_ok ci c \<longleftrightarrow> fst c \<noteq> 0 \<and> unat (fst c) < length ci \<and> fst c < 2 ^ 14
     \<and> list_all2 param_fits (cp_param_types (ci ! unat (fst c))) (snd c)"

text \<open>What a block of commands that starts at \<open>p\<close> is to do: run each handler in turn.\<close>

fun run_commands ::
  "'f command_parser list \<Rightarrow>
   ('f \<Rightarrow> u8 list \<Rightarrow> u32 list \<Rightarrow> 'z sched_state_scheme \<Rightarrow> (unit, 'z sched_state_scheme) outcome) \<Rightarrow>
   u8 list \<Rightarrow> nat \<Rightarrow> command list \<Rightarrow> 'z sched_state_scheme \<Rightarrow> (unit, 'z sched_state_scheme) outcome" where
  "run_commands ci run buf p [] s = Ret () s"
| "run_commands ci run buf p (c # cs) s =
     (let cp = ci ! unat (fst c) in
      obind (if sched_is_shutdown s \<and> cp_flags cp AND HF_IN_SHUTDOWN = 0 then Ret () (sched_report_shutdown s)
             else run (cp_func cp) buf (param_args (p + length (encode_msgid (fst c))) (snd c)) s)
        (\<lambda>_ s. run_commands ci run buf (p + length (cmd_bytes c)) cs s))"

lemma dispatch_loop_encoded:
  assumes "bytes_at buf p (concat (map cmd_bytes cs))" "list_all (cmd_ok ci) cs"
    "p + length (concat (map cmd_bytes cs)) = msgend" "msgend \<le> 255" "length cs < n"
  shows "dispatch_loop n ci run buf msgend p s = run_commands ci run buf p cs s"
  using assms
proof (induction cs arbitrary: p s n)
  case Nil
  then show ?case by (cases n) auto
next
  case (Cons c cs)
  obtain m where n: "n = Suc m" using Cons.prems(5) by (cases n) auto
  let ?cp = "ci ! unat (fst c)" and ?p1 = "p + length (encode_msgid (fst c))" and ?p2 = "p + length (cmd_bytes c)"
  have c: "cmd_ok ci c" using Cons.prems(2) by simp
  have b: "bytes_at buf p (encode_msgid (fst c))" "bytes_at buf ?p1 (params_bytes (snd c))"
    "bytes_at buf ?p2 (concat (map cmd_bytes cs))"
    using Cons.prems(1) by (auto simp: cmd_bytes_def [of c] bytes_at_append add.assoc)
  have "0 < length (encode_msgid (fst c))" by (simp add: encode_msgid_def)
  then have p: "p < msgend" "?p1 + length (params_bytes (snd c)) = ?p2" "?p2 \<le> msgend"
    using Cons.prems(3) by (auto simp: cmd_bytes_def)
  have IH: "dispatch_loop m ci run buf msgend ?p2 s' = run_commands ci run buf ?p2 cs s'" for s'
    using Cons.IH [OF b(3)] Cons.prems n by simp
  have id: "command_parse_msgid buf p = Some (fst c, ?p1)"
    using b(1) c by (intro parse_msgid_encoded) (simp_all add: cmd_ok_def)
  have "parsef_loop buf msgend (cp_param_types ?cp) ?p1 [] = Some (Inr (param_args ?p1 (snd c), ?p2))"
    using parsef_loop_encoded [OF b(2), of "cp_param_types ?cp" msgend "[]"] c p Cons.prems(4)
    by (simp add: cmd_ok_def)
  then have "dispatch_one ci run buf msgend p s =
      obind (if sched_is_shutdown s \<and> cp_flags ?cp AND HF_IN_SHUTDOWN = 0 then Ret () (sched_report_shutdown s)
             else run (cp_func ?cp) buf (param_args ?p1 (snd c)) s) (\<lambda>_ s. Ret ?p2 s)"
    using c by (simp add: dispatch_one_def id command_lookup_parser_def command_parsef_def cmd_ok_def)
  then show ?case using p(1) by (simp add: n IH obind_assoc Let_def)
qed

section \<open>Framing\<close>

lemma wr_bytes_split: "length ys = length bs \<Longrightarrow> p = length xs \<Longrightarrow> wr_bytes (xs @ ys @ zs) p bs = Some (xs @ bs @ zs)"
  by (simp add: wr_bytes_def)

lemma buf_parts:
  assumes "5 \<le> n" "n \<le> length buf"
  obtains a b pl x y z rest where "buf = a # b # pl @ x # y # z # rest" "n = length pl + 5"
    "drop 2 (take (n - 3) buf) = pl" "drop n buf = rest"
proof -
  obtain a b r where b: "buf = a # b # r" using assms by (cases buf; cases "tl buf") auto
  let ?pl = "take (n - 5) r" and ?t = "drop (n - 5) r"
  have "3 \<le> length ?t" using assms b by auto
  then obtain x y z rest where t: "?t = x # y # z # rest"
    by (cases ?t; cases "tl ?t"; cases "tl (tl ?t)") auto
  have r: "r = ?pl @ x # y # z # rest" using t by (metis append_take_drop_id)
  have l: "length ?pl = n - 5" using assms b by auto
  have "drop 3 ?t = rest" using t by simp
  moreover have "3 + (n - 5) = n - 2" using assms by simp
  ultimately have d: "drop (n - Suc (Suc 0)) r = rest" by (simp add: numeral_2_eq_2)
  show ?thesis
    by (rule that [of a b ?pl x y z rest]) (use assms b r l d in \<open>auto simp: take_Cons' drop_Cons'\<close>)
qed

lemma add_frame_frame:
  assumes "5 \<le> msglen" "msglen \<le> length buf"
  shows "command_add_frame buf msglen s =
    Some (frame (next_sequence s) (drop 2 (take (msglen - 3) buf)) @ drop msglen buf)"
proof -
  obtain a b pl x y z rest where buf: "buf = a # b # pl @ x # y # z # rest" "msglen = length pl + 5"
    "drop 2 (take (msglen - 3) buf) = pl" "drop msglen buf = rest"
    using buf_parts [OF assms] by blast
  let ?h = "of_nat msglen # next_sequence s # pl"
  let ?crc = "crc_of ?h"
  have 1: "wr_bytes buf 0 [of_nat msglen] = Some (of_nat msglen # b # pl @ x # y # z # rest)"
    using wr_bytes_split [of "[a]" "[of_nat msglen]" 0 "[]"] by (simp add: buf(1))
  have 2: "wr_bytes (of_nat msglen # b # pl @ x # y # z # rest) 1 [next_sequence s] = Some (?h @ x # y # z # rest)"
    using wr_bytes_split [of "[b]" "[next_sequence s]" 1 "[of_nat msglen]"] by simp
  have 3: "crc16_ccitt (?h @ x # y # z # rest) (msglen - 3) = Some ?crc"
    using buf(2) by (simp add: crc16_ccitt_eq)
  have 4: "wr_bytes (?h @ x # y # z # rest) (msglen - 3) [c] = Some (?h @ c # y # z # rest)" for c
    using wr_bytes_split [of "[x]" "[c]" "msglen - 3" ?h "y # z # rest"] buf(2) by simp
  have 5: "wr_bytes (?h @ c # y # z # rest) (msglen - 3 + 1) [d] = Some (?h @ c # d # z # rest)" for c d
    using wr_bytes_split [of "[y]" "[d]" "msglen - 3 + 1" "?h @ [c]" "z # rest"] buf(2) by simp
  have 6: "wr_bytes (?h @ c # d # z # rest) (msglen - 1) [e] = Some (?h @ c # d # e # rest)" for c d e
    using wr_bytes_split [of "[z]" "[e]" "msglen - 1" "?h @ [c, d]" rest] buf(2) by simp
  have f: "frame (next_sequence s) pl = ?h @ [ucast (drop_bit 8 ?crc), ucast ?crc, MESSAGE_SYNC]"
    by (simp add: frame_def Let_def buf(2))
  show ?thesis
    unfolding command_add_frame_def buf(3,4) f
    by (simp only: MESSAGE_POS_LEN_def MESSAGE_POS_SEQ_def MESSAGE_TRAILER_SIZE_def MESSAGE_TRAILER_CRC_def
        MESSAGE_TRAILER_SYNC_def add_0_right 1 2 3 4 5 6 bind.bind_lunit) simp
qed


text \<open>
  Encoding a message whose integer parameters fit the reserved size: the payload the loop writes, and
  that nothing is written outside the first \<open>max_size\<close> bytes.
\<close>

lemma wr_bytes_Some: "wr_bytes buf p bs = Some buf' \<longleftrightarrow>
   p + length bs \<le> length buf \<and> buf' = take p buf @ bs @ drop (p + length bs) buf"
  by (auto simp: wr_bytes_def)

lemma encode_param_int: "t \<in> {PT_uint32, PT_int32, PT_uint16, PT_int16, PT_byte} \<Longrightarrow>
   encode_param t (VA_int v # args) maxend p = Some (encode_int v, args)"
  by (cases t) auto

lemma encodef_loop_ints:
  assumes "list_all (\<lambda>t. t \<in> {PT_uint32, PT_int32, PT_uint16, PT_int16, PT_byte}) ts" "length vs = length ts"
    and "p + 5 * length ts \<le> maxend" "maxend \<le> length buf" "p \<le> length buf"
  shows "encodef_loop ts (map VA_int vs) maxend buf p s =
    Ret (take p buf @ params_bytes (map P_int vs) @ drop (p + length (params_bytes (map P_int vs))) buf,
         p + length (params_bytes (map P_int vs))) s"
  using assms
proof (induction ts arbitrary: vs p buf)
  case Nil
  then show ?case by (simp add: params_bytes_def)
next
  case (Cons t ts)
  obtain v vs' where vs: "vs = v # vs'" using Cons.prems(2) by (cases vs) auto
  let ?e = "encode_int v"
  let ?buf = "take p buf @ ?e @ drop (p + length ?e) buf"
  have l: "length ?e \<le> 5" using encode_int_length by blast
  have w: "wr_bytes buf p ?e = Some ?buf" using l Cons.prems by (simp add: wr_bytes_Some)
  have lb: "length ?buf = length buf" using l Cons.prems by simp
  have T: "take (p + length ?e) ?buf = take p buf @ ?e" using Cons.prems by simp
  have D: "drop (p + length ?e + k) ?buf = drop (p + length ?e + k) buf" for k
    using Cons.prems by (simp add: add_ac)
  have IH: "encodef_loop ts (map VA_int vs') maxend ?buf (p + length ?e) s =
    Ret (take (p + length ?e) ?buf @ params_bytes (map P_int vs')
         @ drop (p + length ?e + length (params_bytes (map P_int vs'))) ?buf,
         p + length ?e + length (params_bytes (map P_int vs'))) s"
    using Cons.prems l lb vs by (intro Cons.IH) simp_all
  have P: "params_bytes (map P_int vs) = ?e @ params_bytes (map P_int vs')" by (simp add: vs params_bytes_def)
  show ?case
    using Cons.prems(1,3) w encode_param_int [of t v "map VA_int vs'" maxend p]
    unfolding P by (simp add: vs IH [unfolded T D] add.assoc)
qed

section \<open>Properties of dispatch\<close>

text \<open>
  C30. Whatever a block contains, parsing and running its commands reads no byte outside the block and ends: the
  sync byte that closes every accepted block also ends every unfinished integer. Only a handler can fault.
\<close>

theorem command_dispatch_safe:
  assumes "length blk = msglen" "MESSAGE_MIN \<le> msglen" "last blk = MESSAGE_SYNC"
    and "\<forall>f args s. run f blk args s \<noteq> Fault"
  shows "command_dispatch ci run blk msglen s \<noteq> Fault"
proof -
  have "rd blk (msglen - 1) = Some MESSAGE_SYNC"
  proof -
    have "blk \<noteq> []" using assms(1,2) by auto
    then show ?thesis using assms(1-3) last_conv_nth [of blk] by (auto simp: rd_def)
  qed
  moreover have "MESSAGE_SYNC AND 0x80 = 0" by simp
  ultimately show ?thesis
    unfolding command_dispatch_def Let_def using assms(2,4)
    by (intro dispatch_loop_ok [of _ "msglen - 1" MESSAGE_SYNC]) auto
qed

definition demo_index :: "unit command_parser list" where
  "demo_index = replicate 2 \<lparr>cp_num_args = 1, cp_flags = 0, cp_param_types = [PT_byte], cp_func = ()\<rparr>"

definition demo_run :: "unit \<Rightarrow> u8 list \<Rightarrow> u32 list \<Rightarrow> sched_state \<Rightarrow> (unit, sched_state) outcome" where
  "demo_run f buf args s = Ret () (s\<lparr>tasks_busy := uint (hd args)\<rparr>)"

theorem command_dispatch_safe_witness:
  "command_dispatch demo_index demo_run [6, 0x10, 1, 2, 0x80, 0x7e] 6 demo_sched \<noteq> Fault"
  using command_dispatch_safe [of "[6, 0x10, 1, 2, 0x80, 0x7e]" 6 demo_run demo_index demo_sched]
  by (simp add: demo_run_def)

text \<open>
  C4. The whole receive path: when the received bytes start with the expected frame around a sequence of
  encoded commands, their handlers run in order with the parameters they were encoded from (a buffer parameter
  as its length and its place in the receive buffer), then the block is acknowledged with the next sequence number.
\<close>

theorem find_and_dispatch_commands:
  assumes "n \<le> length buf" "seq_ok (next_sequence s)" "sync_state s AND CF_NEED_SYNC = 0"
    and "take k buf = frame (next_sequence s) (concat (map cmd_bytes cs))" "k \<le> n" "k \<le> MESSAGE_MAX"
    and "list_all (cmd_ok ci) cs"
  shows "command_find_and_dispatch ci run buf n s =
    obind (run_commands ci run buf MESSAGE_HEADER_SIZE cs
             (s\<lparr>sync_state := sync_state s AND NOT CF_NEED_VALID, next_sequence := next_seq (next_sequence s)\<rparr>))
      (\<lambda>_ s. Ret (1, k) (command_sendf Acknak s))"
proof -
  let ?pl = "concat (map cmd_bytes cs)"
  let ?s = "s\<lparr>sync_state := sync_state s AND NOT CF_NEED_VALID, next_sequence := next_seq (next_sequence s)\<rparr>"
  have kl: "k \<le> length buf" using assms(1,5) by simp
  then have "length (take k buf) = k" by simp
  then have k: "k = length ?pl + 5" by (simp add: assms(4))
  then have pl: "length ?pl \<le> 59" using assms(6) by simp
  have "block_at buf n k (next_sequence s)" using assms(4,5) pl by (auto simp: block_at_def)
  then have fb: "command_find_block buf n s = Ret (1, k) ?s" by (rule find_block_accepts [OF assms(1,3) _ assms(2)])
  have "bytes_at (take k buf) (length [of_nat (length ?pl + 5), next_sequence s]) ?pl"
    unfolding assms(4) frame_def Let_def using bytes_at_self [of "[of_nat (length ?pl + 5), next_sequence s]" ?pl] by simp
  then have b: "bytes_at buf 2 ?pl" by (auto simp: bytes_at_def rd_def numeral_2_eq_2 split: if_splits)
  have "c \<in> set cs \<Longrightarrow> 1 \<le> length (cmd_bytes c)" for c by (simp add: cmd_bytes_def encode_msgid_def)
  then have "length cs \<le> length ?pl" by (induction cs) fastforce+
  then have "command_dispatch ci run buf k ?s = run_commands ci run buf 2 cs ?s"
    unfolding command_dispatch_def Let_def using k pl b assms(7)
    by (intro trans [OF dispatch_loop_encoded]) auto
  then show ?thesis by (simp add: command_find_and_dispatch_def fb command_send_ack_def)
qed

theorem find_and_dispatch_commands_witness:
  "command_find_and_dispatch demo_index demo_run (frame 0x10 (cmd_bytes (1, [P_int 7]))) 7 demo_sched =
     Ret (1, 7) (command_sendf Acknak (demo_sched\<lparr>sync_state := 0, next_sequence := 0x11, tasks_busy := 7\<rparr>))"
proof -
  have d: "next_sequence demo_sched = 0x10" "sync_state demo_sched = 0" "sched_is_shutdown (demo_sched\<lparr>sync_state := x, next_sequence := y\<rparr>) = False" for x y
    by (simp_all add: demo_sched_def sched_init_def set_waketime_def upd_timer_def sched_is_shutdown_def)
  have e: "encode_int 7 = [7]" "encode_msgid 1 = [1]"
    by (simp_all add: encode_int_def encode_msgid_def vlq_fits_def Let_def word_le_nat_alt)
  have c: "cmd_bytes (1, [P_int 7]) = [1, 7]" by (simp add: cmd_bytes_def params_bytes_def e)
  have "seq_ok (next_sequence demo_sched)" "next_seq 0x10 = 0x11" by (simp_all add: d seq_ok_def next_seq_def)
  moreover have "cmd_ok demo_index (1, [P_int 7])" by (simp add: cmd_ok_def demo_index_def word_less_nat_alt)
  ultimately show ?thesis
    using find_and_dispatch_commands [of 7 "frame 0x10 [1, 7]" demo_sched 7 "[(1, [P_int 7])]" demo_index demo_run]
    by (simp add: d c e demo_index_def demo_run_def)
qed


text \<open>A change of the message log only.\<close>

definition only_sent :: "'z console_state_scheme \<Rightarrow> 'z console_state_scheme \<Rightarrow> bool" where
  "only_sent s s' \<longleftrightarrow> (\<exists>l. s' = s\<lparr>sent := l\<rparr>)"

lemma only_sent_refl [simp]: "only_sent s s"
proof -
  have "s = s\<lparr>sent := sent s\<rparr>" by simp
  then show ?thesis unfolding only_sent_def ..
qed

lemma only_sent_trans: "only_sent s t \<Longrightarrow> only_sent t u \<Longrightarrow> only_sent s u"
  by (auto simp: only_sent_def)

lemma only_sent_sendf: "only_sent s (command_sendf m s)"
proof (cases "in_sendf s = 0")
  case True
  then show ?thesis unfolding only_sent_def command_sendf_eq by auto
qed (simp add: command_sendf_eq)

fun outcome_state :: "('a, 's) outcome \<Rightarrow> 's option" where
  "outcome_state (Ret x s) = Some s"
| "outcome_state (Longjmp r s) = Some s"
| "outcome_state Fault = None"

lemma dispatch_one_shutdown:
  assumes "\<forall>cp \<in> set ci. cp_flags cp AND HF_IN_SHUTDOWN = 0" "sched_is_shutdown s"
  shows "dispatch_one ci run buf msgend p s = Fault \<or> (\<exists>r. dispatch_one ci run buf msgend p s = Longjmp r s)
     \<or> (\<exists>q. dispatch_one ci run buf msgend p s = Ret q (sched_report_shutdown s))"
proof -
  have "\<not> length ci \<le> unat i \<Longrightarrow> cp_flags (ci ! unat i) AND 1 = 0" for i :: u16 using assms(1) by simp
  then show ?thesis
    using assms(2) by (auto simp: dispatch_one_def command_lookup_parser_def command_parsef_def sched_shutdown_def
        split: option.splits sum.splits)
qed

lemma dispatch_loop_shutdown:
  assumes "\<forall>cp \<in> set ci. cp_flags cp AND HF_IN_SHUTDOWN = 0"
  shows "sched_is_shutdown s \<Longrightarrow> outcome_state (dispatch_loop n ci run buf msgend p s) = Some s' \<Longrightarrow> only_sent s s'"
proof (induction n arbitrary: p s)
  case (Suc n)
  show ?case
  proof (cases "p < msgend")
    case True
    have r: "only_sent s (sched_report_shutdown s)"
      by (simp add: sched_report_shutdown_def sendf_def only_sent_sendf)
    then have rs: "sched_is_shutdown (sched_report_shutdown s)"
      using Suc.prems(1) by (auto simp: only_sent_def sched_is_shutdown_def)
    from dispatch_one_shutdown [OF assms Suc.prems(1), of run buf msgend p] show ?thesis
    proof (elim disjE exE)
      fix q
      assume "dispatch_one ci run buf msgend p s = Ret q (sched_report_shutdown s)"
      then have "only_sent (sched_report_shutdown s) s'" using True Suc.prems(2) Suc.IH [OF rs, of q] by simp
      then show ?thesis by (rule only_sent_trans [OF r])
    qed (use True Suc.prems(2) in simp_all)
  qed (use Suc.prems in simp)
qed simp



section \<open>Properties of encoding\<close>

lemma length_params_ints: "length (params_bytes (map P_int vs)) \<le> 5 * length vs"
proof (induction vs)
  case (Cons v vs)
  then show ?case using encode_int_length [of v] by (simp add: params_bytes_def)
qed (simp add: params_bytes_def)

lemma encodef_one:
  assumes "ce_param_types ce = [t]" "MESSAGE_MIN < ce_max_size ce" "wr_bytes buf 2 (encode_msgid (ce_msgid ce)) = Some b1"
    and "p = 2 + length (encode_msgid (ce_msgid ce))" "e = 2 + (ce_max_size ce - 5)" "p \<le> e"
    and "encode_param t args e p = Some (bs, args')" "wr_bytes b1 p bs = Some b2"
  shows "command_encodef buf ce args s = Ret (b2, p + length bs + 3) s"
proof -
  have m: "(ce_max_size ce \<le> 5) = False" using assms(2) by simp
  have "encodef_loop [t] args e b1 p s = Ret (b2, p + length bs) s" using assms(6-8) by simp
  then show ?thesis
    by (simp only: command_encodef_def Let_def MESSAGE_MIN_def MESSAGE_HEADER_SIZE_def MESSAGE_TRAILER_SIZE_def
        m if_False assms(1,3) option.case assms(4,5) [symmetric] obind.simps prod.case)
qed

definition int_type :: "ptype \<Rightarrow> bool" where
  "int_type t \<longleftrightarrow> t \<in> {PT_uint32, PT_int32, PT_uint16, PT_int16, PT_byte}"

lemma encode_frame_ints:
  assumes "list_all int_type (ce_param_types ce)" "length vs = length (ce_param_types ce)"
    and "MESSAGE_MIN + length (encode_msgid (ce_msgid ce)) + 5 * length vs \<le> ce_max_size ce"
    and "ce_max_size ce \<le> length buf"
  shows "\<exists>payload. payload = encode_msgid (ce_msgid ce) @ params_bytes (map P_int vs)
     \<and> length payload + MESSAGE_MIN \<le> ce_max_size ce
     \<and> command_encode_and_frame buf ce (map VA_int vs) s =
         Ret (frame (next_sequence s) payload @ drop (length payload + MESSAGE_MIN) buf, length payload + MESSAGE_MIN) s"
proof -
  let ?id = "encode_msgid (ce_msgid ce)" and ?ps = "params_bytes (map P_int vs)" and ?m = "ce_max_size ce"
  let ?n = "length ?id + length ?ps + 5"
  have ps: "length ?ps \<le> 5 * length vs" by (rule length_params_ints)
  have id: "0 < length ?id" by (simp add: encode_msgid_def)
  let ?b1 = "take 2 buf @ ?id @ drop (2 + length ?id) buf"
  have w: "wr_bytes buf 2 ?id = Some ?b1" using assms(3,4) by (simp add: wr_bytes_def)
  have ts: "list_all (\<lambda>t. t \<in> {PT_uint32, PT_int32, PT_uint16, PT_int16, PT_byte}) (ce_param_types ce)"
    using assms(1) by (simp add: int_type_def [abs_def])
  let ?b2 = "take 2 buf @ ?id @ ?ps @ drop (2 + length ?id + length ?ps) buf"
  have "5 < ?m" using assms(3) id unfolding MESSAGE_MIN_def by linarith
  then have m: "(?m \<le> 5) = False" by simp
  have lb: "2 + length ?id + 5 * length (ce_param_types ce) \<le> 2 + (?m - 5)" "2 + (?m - 5) \<le> length ?b1" "2 + length ?id \<le> length ?b1"
    using assms(2-4) m by auto
  have "take (2 + length ?id) ?b1 = take 2 buf @ ?id" "drop (2 + length ?id + k) ?b1 = drop (2 + length ?id + k) buf" for k
    using assms(3,4) by (simp_all add: add_ac numeral_2_eq_2)
  then have "encodef_loop (ce_param_types ce) (map VA_int vs) (2 + (?m - 5)) ?b1 (2 + length ?id) s = Ret (?b2, 2 + length ?id + length ?ps) s"
    using encodef_loop_ints [OF ts assms(2) lb, of s] by (simp only: append_assoc)
  then have e: "command_encodef buf ce (map VA_int vs) s = Ret (?b2, ?n) s"
    using w by (simp only: command_encodef_def Let_def MESSAGE_MIN_def MESSAGE_HEADER_SIZE_def MESSAGE_TRAILER_SIZE_def
        m if_False option.case obind.simps prod.case) simp
  have l: "5 \<le> ?n" "?n \<le> length ?b2" using assms(3,4) ps by auto
  have "drop 2 (take (?n - 3) ?b2) = ?id @ ?ps" "drop ?n ?b2 = drop ?n buf" using assms(3,4) by (simp_all add: add_ac)
  then have "command_add_frame ?b2 ?n s = Some (frame (next_sequence s) (?id @ ?ps) @ drop ?n buf)"
    using add_frame_frame [OF l, of s] by simp
  with e assms(3) ps show ?thesis by (simp add: command_encode_and_frame_def)
qed

text \<open>
  A response with integer parameters is encoded as one frame around its message id and its encoded
  parameters, of at most \<open>max_size\<close> bytes, and no byte after it is written, when \<open>max_size\<close> allows five bytes
  for each parameter.
\<close>

theorem encode_and_frame_ints:
  assumes "list_all int_type (ce_param_types ce)" "length vs = length (ce_param_types ce)"
    and "MESSAGE_MIN + length (encode_msgid (ce_msgid ce)) + 5 * length vs \<le> ce_max_size ce"
    and "ce_max_size ce \<le> length buf"
  shows "\<exists>payload. payload = encode_msgid (ce_msgid ce) @ params_bytes (map P_int vs)
     \<and> length payload + MESSAGE_MIN \<le> ce_max_size ce
     \<and> command_encode_and_frame buf ce (map VA_int vs) s =
         Ret (frame (next_sequence s) payload @ drop (length payload + MESSAGE_MIN) buf, length payload + MESSAGE_MIN) s"
  by (rule encode_frame_ints [OF assms])

theorem encode_and_frame_ints_witness:
  "\<exists>payload. payload = encode_msgid 3 @ params_bytes [P_int 9] \<and> length payload + 5 \<le> 11
     \<and> command_encode_and_frame (replicate 16 0) \<lparr>ce_msgid = 3, ce_max_size = 11, ce_param_types = [PT_byte]\<rparr> [VA_int 9] demo_sched =
         Ret (frame (next_sequence demo_sched) payload @ drop (length payload + 5) (replicate 16 0), length payload + 5) demo_sched"
proof -
  have "length (encode_msgid 3) = 1" by (simp add: encode_msgid_def word_le_nat_alt)
  then show ?thesis
    using encode_and_frame_ints [of "\<lparr>ce_msgid = 3, ce_max_size = 11, ce_param_types = [PT_byte]\<rparr>" "[9]" "replicate 16 0" demo_sched]
    by (simp add: int_type_def)
qed

text \<open>
  A byte buffer that does not fit is cut one byte too late: the length byte is not counted, so the block is
  one byte longer than the reserved \<open>max_size\<close>, and its sync byte is written behind the reserved bytes.
\<close>

theorem encode_buffer_overrun:
  assumes "ce_param_types ce = [PT_buffer]" "MESSAGE_MIN + length (encode_msgid (ce_msgid ce)) \<le> ce_max_size ce"
    and "ce_max_size ce \<le> MESSAGE_MAX" "ce_max_size ce < unat v" "unat v \<le> length d"
    and "ce_max_size ce \<le> length buf"
  shows "if length buf = ce_max_size ce
     then command_encode_and_frame buf ce [VA_int v, VA_ptr d] s = Fault
     else \<exists>buf'. command_encode_and_frame buf ce [VA_int v, VA_ptr d] s = Ret (buf', ce_max_size ce + 1) s"
proof -
  let ?id = "encode_msgid (ce_msgid ce)" and ?m = "ce_max_size ce"
  have id: "0 < length ?id" by (simp add: encode_msgid_def)
  let ?b1 = "take 2 buf @ ?id @ drop (2 + length ?id) buf"
  have w: "wr_bytes buf 2 ?id = Some ?b1" using assms(2,6) by (simp add: wr_bytes_def)
  have m: "MESSAGE_MIN < ?m" using assms(2) id by linarith
  let ?p = "2 + length ?id" and ?e = "2 + (?m - 5)"
  let ?bs = "of_nat (?e - ?p) # take (?e - ?p) d"
  have p: "encode_param PT_buffer [VA_int v, VA_ptr d] ?e ?p = Some (?bs, [])"
    using assms(2,4,5) by (auto simp: Let_def)
  have l: "length ?bs = ?e - ?p + 1" using assms(4,5) by simp
  have "?p + length ?bs \<le> length ?b1" using assms(2,6) l by simp
  then obtain b2 where b2: "wr_bytes ?b1 ?p ?bs = Some b2" "length b2 = length buf"
    using assms(2,6) by (auto simp: wr_bytes_def)
  have n: "?p + length ?bs + 3 = ?m + 1" "\<not> ?e < ?p" using assms(2) l by auto
  have e: "command_encodef buf ce [VA_int v, VA_ptr d] s = Ret (b2, ?m + 1) s"
    using encodef_one [OF assms(1) _ w refl refl _ p b2(1), of s] m n by (simp only: not_less refl)
  show ?thesis
  proof (cases "length buf = ?m")
    case True
    then have "command_add_frame b2 (?m + 1) s = None"
      using b2(2) by (auto simp: command_add_frame_def wr_bytes_def Let_def split: bind_splits)
    with True e show ?thesis by (simp add: command_encode_and_frame_def)
  next
    case False
    then have "5 \<le> ?m + 1" "?m + 1 \<le> length b2" using assms(2,6) b2(2) by auto
    from add_frame_frame [OF this, of s] False e show ?thesis by (simp add: command_encode_and_frame_def)
  qed
qed

theorem encode_buffer_overrun_witness:
  "command_encode_and_frame (replicate 64 0) \<lparr>ce_msgid = 3, ce_max_size = 64, ce_param_types = [PT_buffer]\<rparr>
     [VA_int 80, VA_ptr (replicate 80 1)] demo_sched = Fault"
proof -
  have "length (encode_msgid 3) = 1" by (simp add: encode_msgid_def word_le_nat_alt)
  then show ?thesis
    using encode_buffer_overrun [of "\<lparr>ce_msgid = 3, ce_max_size = 64, ce_param_types = [PT_buffer]\<rparr>" 80 "replicate 80 1" "replicate 64 0" demo_sched]
    by simp
qed

end
