(* ===== verification/Basecmd.thy ===== *)
theory Basecmd
  imports Command_Dispatch
begin

text \<open>
  The infrastructure commands of \<open>src/basecmd.c\<close>: the chunk allocator, the pool of move nodes with the queues
  made of them, the table of object ids, the configuration commands and the load statistics. Pointers are
  addresses (\<^typ>\<open>nat\<close>), NULL is \<^const>\<open>None\<close>. A move node is its \<open>next\<close> field in a store indexed by
  the node's address; the other fields of a node are in the component that owns it. The memory bounds, the
  pointer alignment and the sizes of structures are constants of the build, fields that no operation writes.
\<close>

section \<open>State\<close>

text \<open>
  The types of objects. The code uses the address of the configuration handler as the type of the objects
  it makes; here each handler is a constructor.
\<close>

datatype otype =
    Command_config_stepper | Command_config_trsync | Command_config_endstop
  | Command_config_digital_out | Command_config_pwm_out | Command_config_analog_in
  | Command_config_buttons | Command_config_counter | Command_config_spi | Command_config_i2c

record oid_s =
  o_type :: "otype option"
  o_data :: "nat option"

record move_queue_head =
  mq_first :: "nat option"
  mq_last :: "nat option"

record base_state = sched_state +
  alloc_end :: nat
  move_next :: "nat \<Rightarrow> nat option"
  move_free_list :: "nat option"
  move_list :: "nat option"
  move_count :: nat
  move_item_size :: nat
  oids :: "oid_s list option"
  oid_count :: u8
  config_crc :: u32
  stats_send_time :: u32
  stats_send_time_high :: u32
  stats_count :: u32
  stats_sum :: u32
  stats_sumsq :: u32
  cfg_dynmem_start :: nat
  cfg_dynmem_end :: nat
  cfg_ptr_align :: nat
  cfg_sizeof_oid :: nat
  cfg_sizeof_move_node :: nat
  cfg_identify_data :: "u8 list"

section \<open>Low level allocation\<close>

definition ALIGN :: "nat \<Rightarrow> nat \<Rightarrow> nat" where
  "ALIGN x a = (x + (a - 1)) div a * a"

definition alloc_init :: "'z base_state_scheme \<Rightarrow> 'z base_state_scheme" where
  "alloc_init s = s\<lparr>alloc_end := ALIGN (cfg_dynmem_start s) (cfg_ptr_align s)\<rparr>"

definition alloc_chunk :: "nat \<Rightarrow> 'z base_state_scheme \<Rightarrow> (nat, 'z base_state_scheme) outcome" where
  "alloc_chunk sz s =
     (if alloc_end s + sz > cfg_dynmem_end s then sched_shutdown ''alloc_chunk failed'' s
      else Ret (alloc_end s) (s\<lparr>alloc_end := alloc_end s + ALIGN sz (cfg_ptr_align s)\<rparr>))"

text \<open>The loop of \<open>alloc_chunks\<close>: how many of \<open>n\<close> chunks fit from \<open>p\<close> on.\<close>

fun chunks_fit :: "nat \<Rightarrow> nat \<Rightarrow> nat \<Rightarrow> nat \<Rightarrow> nat" where
  "chunks_fit 0 p sz end' = 0"
| "chunks_fit (Suc n) p sz end' =
     (if p + sz \<le> end' then Suc (chunks_fit n (p + sz) sz end') else 0)"

definition alloc_chunks :: "nat \<Rightarrow> nat \<Rightarrow> 'z base_state_scheme \<Rightarrow> (nat \<times> nat, 'z base_state_scheme) outcome" where
  "alloc_chunks sz count s =
     (let can_alloc = chunks_fit count (alloc_end s) sz (cfg_dynmem_end s) in
      if can_alloc = 0 then sched_shutdown ''alloc_chunks failed'' s
      else obind (alloc_chunk (can_alloc * sz) s) (\<lambda>data s. Ret (data, can_alloc) s))"

section \<open>Move queue\<close>

definition is_finalized :: "'z base_state_scheme \<Rightarrow> bool" where
  "is_finalized s \<longleftrightarrow> move_count s \<noteq> 0"

definition set_move_next :: "nat \<Rightarrow> nat option \<Rightarrow> 'z base_state_scheme \<Rightarrow> 'z base_state_scheme" where
  "set_move_next m n s = s\<lparr>move_next := (move_next s)(m := n)\<rparr>"

definition move_free :: "nat \<Rightarrow> 'z base_state_scheme \<Rightarrow> 'z base_state_scheme" where
  "move_free mf s = (let s = set_move_next mf (move_free_list s) s in s\<lparr>move_free_list := Some mf\<rparr>)"

definition move_alloc :: "'z base_state_scheme \<Rightarrow> (nat, 'z base_state_scheme) outcome" where
  "move_alloc s =
     (case move_free_list s of
        None \<Rightarrow> sched_shutdown ''Move queue overflow'' s
      | Some mf \<Rightarrow> Ret mf (s\<lparr>move_free_list := move_next s mf\<rparr>))"

definition move_queue_empty :: "move_queue_head \<Rightarrow> bool" where
  "move_queue_empty mh \<longleftrightarrow> mq_first mh = None"

definition move_queue_first :: "move_queue_head \<Rightarrow> nat option" where
  "move_queue_first mh = mq_first mh"

definition move_queue_push ::
  "nat \<Rightarrow> move_queue_head \<Rightarrow> 'z base_state_scheme \<Rightarrow> (bool \<times> move_queue_head, 'z base_state_scheme) outcome" where
  "move_queue_push m mh s =
     (let s = set_move_next m None s in
      case mq_first mh of
        Some _ \<Rightarrow>
          (case mq_last mh of
             None \<Rightarrow> Fault
           | Some l \<Rightarrow> Ret (False, mh\<lparr>mq_last := Some m\<rparr>) (set_move_next l (Some m) s))
      | None \<Rightarrow> Ret (True, \<lparr>mq_first = Some m, mq_last = Some m\<rparr>) s)"

definition move_queue_pop ::
  "move_queue_head \<Rightarrow> 'z base_state_scheme \<Rightarrow> (nat \<times> move_queue_head, 'z base_state_scheme) outcome" where
  "move_queue_pop mh s =
     (case mq_first mh of
        None \<Rightarrow> Fault
      | Some mn \<Rightarrow> Ret (mn, mh\<lparr>mq_first := move_next s mn\<rparr>) s)"

definition move_queue_clear :: "move_queue_head \<Rightarrow> move_queue_head" where
  "move_queue_clear mh = mh\<lparr>mq_first := None\<rparr>"

definition move_queue_setup :: "nat \<Rightarrow> 'z base_state_scheme \<Rightarrow> (move_queue_head, 'z base_state_scheme) outcome" where
  "move_queue_setup sz s =
     (if sz > 255 \<or> is_finalized s then sched_shutdown ''Invalid move request sz'' s
      else Ret \<lparr>mq_first = None, mq_last = None\<rparr>
             (if sz > move_item_size s then s\<lparr>move_item_size := sz\<rparr> else s))"

text \<open>The address of node \<open>i\<close> of the pool.\<close>

definition move_node :: "'z base_state_scheme \<Rightarrow> nat \<Rightarrow> nat \<Rightarrow> nat" where
  "move_node s base i = base + i * move_item_size s"

fun link_nodes :: "nat \<Rightarrow> nat \<Rightarrow> 'z base_state_scheme \<Rightarrow> 'z base_state_scheme" where
  "link_nodes base 0 s = s"
| "link_nodes base (Suc n) s =
     (let s = link_nodes base n s in set_move_next (move_node s base n) (Some (move_node s base (n + 1))) s)"

definition move_reset :: "'z base_state_scheme \<Rightarrow> (unit, 'z base_state_scheme) outcome" where
  "move_reset s =
     (if move_count s = 0 then Ret () s
      else case move_list s of
        None \<Rightarrow> Fault
      | Some base \<Rightarrow>
          let s = link_nodes base (move_count s - 1) s;
              s = set_move_next (move_node s base (move_count s - 1)) None s
          in Ret () (s\<lparr>move_free_list := Some base\<rparr>))"

definition move_finalize :: "'z base_state_scheme \<Rightarrow> (unit, 'z base_state_scheme) outcome" where
  "move_finalize s =
     (if is_finalized s then sched_shutdown ''Already finalized'' s
      else obind (move_queue_setup (cfg_sizeof_move_node s) s) (\<lambda>_ s.
           obind (alloc_chunks (move_item_size s) 1024 s) (\<lambda>(data, avail) s.
             move_reset (s\<lparr>move_list := Some data, move_count := avail\<rparr>))))"

section \<open>Object ids\<close>

definition oid_lookup :: "u8 \<Rightarrow> otype \<Rightarrow> 'z base_state_scheme \<Rightarrow> (nat option, 'z base_state_scheme) outcome" where
  "oid_lookup oid type s =
     (if oid \<ge> oid_count s then sched_shutdown ''Invalid oid type'' s
      else case oids s of
        None \<Rightarrow> Fault
      | Some os \<Rightarrow>
          (case rd os (unat oid) of
             None \<Rightarrow> Fault
           | Some x \<Rightarrow>
               if o_type x \<noteq> Some type then sched_shutdown ''Invalid oid type'' s
               else Ret (o_data x) s))"

definition oid_alloc :: "u8 \<Rightarrow> otype \<Rightarrow> nat \<Rightarrow> 'z base_state_scheme \<Rightarrow> (nat, 'z base_state_scheme) outcome" where
  "oid_alloc oid type sz s =
     (if oid \<ge> oid_count s then sched_shutdown ''Can't assign oid'' s
      else case oids s of
        None \<Rightarrow> Fault
      | Some os \<Rightarrow>
          (case rd os (unat oid) of
             None \<Rightarrow> Fault
           | Some x \<Rightarrow>
               if o_type x \<noteq> None \<or> is_finalized s then sched_shutdown ''Can't assign oid'' s
               else
                 let s = s\<lparr>oids := Some (os[unat oid := x\<lparr>o_type := Some type\<rparr>])\<rparr>
                 in obind (alloc_chunk sz s) (\<lambda>data s.
                      Ret data (s\<lparr>oids := Some (os[unat oid := x\<lparr>o_type := Some type, o_data := Some data\<rparr>])\<rparr>))))"

text \<open>
  \<open>oid_next\<close>: the next id of the type after \<open>oid\<close> (255, the \<open>uint8_t\<close> -1, is before the first one) and
  its object pointer. \<open>Some None\<close> is the NULL at the end of the table.
\<close>

definition oid_rank :: "u8 \<Rightarrow> nat" where
  "oid_rank oid = (if unat oid = 255 then 256 else 255 - unat oid)"

lemma oid_rank_step:
  assumes "oid + 1 < (n :: u8)"
  shows "oid_rank (oid + 1) < oid_rank oid"
proof -
  have u: "unat (oid + 1) = (unat oid + 1) mod 256" by (simp add: unat_word_ariths)
  have b: "unat oid < 256" "unat n < 256"
    using unsigned_less [of oid, where ?'a = nat] unsigned_less [of n, where ?'a = nat] by simp_all
  have "unat (oid + 1) < unat n" using assms by (simp add: word_less_nat_alt)
  with u b show ?thesis unfolding oid_rank_def by (cases "unat oid = 255") simp_all
qed

function oid_next :: "u8 \<Rightarrow> otype \<Rightarrow> 'z base_state_scheme \<Rightarrow> (u8 \<times> nat option) option option" where
  "oid_next oid type s =
     (let oid = oid + 1 in
      if oid \<ge> oid_count s then Some None
      else case oids s of
        None \<Rightarrow> None
      | Some os \<Rightarrow>
          (case rd os (unat oid) of
             None \<Rightarrow> None
           | Some x \<Rightarrow> if o_type x = Some type then Some (Some (oid, o_data x)) else oid_next oid type s))"
  by pat_completeness auto
termination
  by (relation "measure (\<lambda>(oid, type, s). oid_rank oid)") (auto simp: not_le intro: oid_rank_step)

declare oid_next.simps [simp del]

text \<open>
  \<open>foreach_oid(pos, data, type)\<close>: the objects the loop visits. A NULL object pointer ends the loop. No loop
  body writes the table, so the visited objects are those of the state before the loop.
\<close>

function foreach_from :: "u8 \<Rightarrow> otype \<Rightarrow> 'z base_state_scheme \<Rightarrow> (u8 \<times> nat) list option" where
  "foreach_from oid type s =
     (case oid_next oid type s of
        None \<Rightarrow> None
      | Some None \<Rightarrow> Some []
      | Some (Some (i, None)) \<Rightarrow> Some []
      | Some (Some (i, Some d)) \<Rightarrow> map_option (\<lambda>r. (i, d) # r) (foreach_from i type s))"
  by pat_completeness auto

lemma oid_next_rank: "oid_next oid type s = Some (Some (i, d)) \<Longrightarrow> oid_rank i < oid_rank oid"
proof (induction oid type s rule: oid_next.induct)
  case (1 oid type s)
  note e = "1.prems" [unfolded oid_next.simps [of oid] Let_def]
  show ?case
  proof (cases "oid + 1 \<ge> oid_count s")
    case False
    then have step: "oid_rank (oid + 1) < oid_rank oid" by (simp add: not_le oid_rank_step)
    obtain os x where x: "oids s = Some os" "rd os (unat (oid + 1)) = Some x"
      using e False by (auto split: option.splits)
    show ?thesis
    proof (cases "o_type x = Some type")
      case True
      with e False x step show ?thesis by simp
    next
      case nt: False
      have "oid_next (oid + 1) type s = Some (Some (i, d))" using e False x nt by simp
      with "1.IH" [OF refl False x nt] step show ?thesis by simp
    qed
  qed (use e in simp)
qed

termination foreach_from
  by (relation "measure (\<lambda>(oid, type, s). oid_rank oid)") (auto dest: oid_next_rank)

declare foreach_from.simps [simp del]

definition foreach_oid ::
  "otype \<Rightarrow> (u8 \<Rightarrow> nat \<Rightarrow> 'z base_state_scheme \<Rightarrow> (unit, 'z base_state_scheme) outcome) \<Rightarrow>
   'z base_state_scheme \<Rightarrow> (unit, 'z base_state_scheme) outcome" where
  "foreach_oid type body s =
     (case foreach_from 255 type s of
        None \<Rightarrow> Fault
      | Some xs \<Rightarrow> fold (\<lambda>(i, d) m. obind m (\<lambda>_ s. body i d s)) xs (Ret () s))"

definition command_allocate_oids :: "u32 list \<Rightarrow> 'z base_state_scheme \<Rightarrow> (unit, 'z base_state_scheme) outcome" where
  "command_allocate_oids args s =
     (if oids s \<noteq> None then sched_shutdown ''oids already allocated'' s
      else let count = ucast (args ! 0) :: u8 in
        obind (alloc_chunk (cfg_sizeof_oid s * unat count) s) (\<lambda>_ s.
          Ret () (s\<lparr>oids := Some (replicate (unat count) \<lparr>o_type = None, o_data = None\<rparr>), oid_count := count\<rparr>)))"

section \<open>Configuration\<close>

definition of_bool8 :: "bool \<Rightarrow> u32" where
  "of_bool8 b = (if b then 1 else 0)"

definition command_get_config :: "u32 list \<Rightarrow> 'z base_state_scheme \<Rightarrow> (unit, 'z base_state_scheme) outcome" where
  "command_get_config args s =
     Ret () (sendf ''config is_config=%c crc=%u is_shutdown=%c move_count=%hu''
       [Num (of_bool8 (is_finalized s)), Num (config_crc s), Num (of_bool8 (sched_is_shutdown s)),
        Num (of_nat (move_count s))] s)"

definition command_finalize_config :: "u32 list \<Rightarrow> 'z base_state_scheme \<Rightarrow> (unit, 'z base_state_scheme) outcome" where
  "command_finalize_config args s = obind (move_finalize s) (\<lambda>_ s. Ret () (s\<lparr>config_crc := args ! 0\<rparr>))"

definition config_reset :: "u32 list \<Rightarrow> 'z base_state_scheme \<Rightarrow> (unit, 'z base_state_scheme) outcome" where
  "config_reset args s =
     (if \<not> sched_is_shutdown s then sched_shutdown ''config_reset only available when shutdown'' s
      else let s = s\<lparr>config_crc := 0, oid_count := 0, oids := None, move_free_list := None, move_list := None,
                      move_count := 0, move_item_size := 0\<rparr>
           in sched_clear_shutdown (sched_timer_reset (alloc_init s)))"

section \<open>Timing and load stats\<close>

definition command_get_clock :: "u32 list \<Rightarrow> 'z base_state_scheme \<Rightarrow> (unit, 'z base_state_scheme) outcome" where
  "command_get_clock args s =
     (let (cur, s) = timer_read_time s in Ret () (sendf ''clock clock=%u'' [Num cur] s))"

definition command_get_uptime :: "u32 list \<Rightarrow> 'z base_state_scheme \<Rightarrow> (unit, 'z base_state_scheme) outcome" where
  "command_get_uptime args s =
     (let (cur, s) = timer_read_time s;
          high = stats_send_time_high s + (if cur < stats_send_time s then 1 else 0)
      in Ret () (sendf ''uptime high=%u clock=%u'' [Num high, Num cur] s))"

definition timer_has_elapsed :: "u32 \<Rightarrow> u32 \<Rightarrow> u32 \<Rightarrow> bool" where
  "timer_has_elapsed start cur duration \<longleftrightarrow> cur - start \<ge> duration"

definition SUMSQ_BASE :: u32 where "SUMSQ_BASE = 256"

definition DIV_ROUND_UP :: "u32 \<Rightarrow> u32 \<Rightarrow> u32" where
  "DIV_ROUND_UP n d = (n + d - 1) div d"

definition next_sumsq :: "u32 \<Rightarrow> u32 \<Rightarrow> u32" where
  "next_sumsq sumsq diff =
     (let nextsumsq =
        (if diff \<le> 0xffff then sumsq + DIV_ROUND_UP (diff * diff) SUMSQ_BASE
         else if diff \<le> 0xfffff then sumsq + DIV_ROUND_UP diff SUMSQ_BASE * diff
         else 0xffffffff)
      in if nextsumsq < sumsq then 0xffffffff else nextsumsq)"

definition stats_update :: "u32 \<Rightarrow> u32 \<Rightarrow> 'z base_state_scheme \<Rightarrow> 'z base_state_scheme" where
  "stats_update start cur s =
     (let diff = cur - start;
          s = s\<lparr>stats_count := stats_count s + 1, stats_sum := stats_sum s + diff,
                 stats_sumsq := next_sumsq (stats_sumsq s) diff\<rparr>
      in if \<not> timer_has_elapsed (stats_send_time s) cur (timer_from_us s 5000000) then s
         else
           let s = sendf ''stats count=%u sum=%u sumsq=%u''
                 [Num (stats_count s), Num (stats_sum s), Num (stats_sumsq s)] s;
               s = (if cur < stats_send_time s then s\<lparr>stats_send_time_high := stats_send_time_high s + 1\<rparr> else s)
           in s\<lparr>stats_send_time := cur, stats_count := 0, stats_sum := 0, stats_sumsq := 0\<rparr>)"

section \<open>Misc commands\<close>

definition command_emergency_stop :: "u32 list \<Rightarrow> 'z base_state_scheme \<Rightarrow> (unit, 'z base_state_scheme) outcome" where
  "command_emergency_stop args s = sched_shutdown ''Command request'' s"

definition command_clear_shutdown :: "u32 list \<Rightarrow> 'z base_state_scheme \<Rightarrow> (unit, 'z base_state_scheme) outcome" where
  "command_clear_shutdown args s = sched_clear_shutdown s"

definition command_identify :: "u32 list \<Rightarrow> 'z base_state_scheme \<Rightarrow> (unit, 'z base_state_scheme) outcome" where
  "command_identify args s =
     (let offset = args ! 0;
          count = ucast (args ! 1) :: u8;
          isize = of_nat (length (cfg_identify_data s)) :: u32;
          count = (if offset \<ge> isize then 0
                   else if offset + ucast count > isize then ucast (isize - offset) else count)
      in Ret () (sendf ''identify_response offset=%u data=%.*s''
           [Num offset, Bytes (take (unat count) (drop (unat offset) (cfg_identify_data s)))] s))"

end
