(* ===== verification/Move_Pool.thy ===== *)
theory Move_Pool
  imports Basecmd
begin

text \<open>
  The pool of move nodes and the queues made of them (\<open>src/basecmd.c\<close>): the free list and the queues as lists,
  the contract \<open>move_pool\<close> the owners of queues use, and the chunk allocator.
\<close>

section \<open>Chains of nodes\<close>

fun path :: "(nat \<Rightarrow> nat option) \<Rightarrow> nat option \<Rightarrow> nat list \<Rightarrow> bool" where
  "path nx p [] \<longleftrightarrow> p = None"
| "path nx p (a # as) \<longleftrightarrow> p = Some a \<and> path nx (nx a) as"

lemma path_upd [simp]: "a \<notin> set xs \<Longrightarrow> path (nx(a := v)) p xs = path nx p xs"
  by (induction xs arbitrary: p) auto

lemma path_unique: "path nx p xs \<Longrightarrow> path nx p ys \<Longrightarrow> xs = ys"
proof (induction xs arbitrary: p ys)
  case Nil
  then show ?case by (cases ys) auto
next
  case (Cons x xs)
  then show ?case by (cases ys) auto
qed

lemma path_append_one:
  "path nx p xs \<Longrightarrow> distinct (xs @ [m]) \<Longrightarrow> xs \<noteq> [] \<Longrightarrow> path (nx(m := None, last xs := Some m)) p (xs @ [m])"
proof (induction xs arbitrary: p)
  case (Cons x xs)
  show ?case
  proof (cases "xs = []")
    case False
    have "path (nx(m := None, last xs := Some m)) (nx x) (xs @ [m])"
      by (rule Cons.IH) (use Cons.prems False in auto)
    moreover have "x \<noteq> m" "last xs \<noteq> x" using Cons.prems(2) False by auto
    ultimately show ?thesis using Cons.prems False by (simp add: fun_upd_def)
  qed (use Cons.prems in auto)
qed simp

definition qlist :: "'z base_state_scheme \<Rightarrow> move_queue_head \<Rightarrow> nat list \<Rightarrow> bool" where
  "qlist s mh xs \<longleftrightarrow> path (move_next s) (mq_first mh) xs \<and> (xs \<noteq> [] \<longrightarrow> mq_last mh = Some (last xs))"

definition free_list :: "'z base_state_scheme \<Rightarrow> nat list \<Rightarrow> bool" where
  "free_list s xs \<longleftrightarrow> path (move_next s) (move_free_list s) xs"

section \<open>The contract of the move pool\<close>

text \<open>
  What the owners of move queues rely on: \<open>alloc\<close> takes a node from the pool, \<open>free\<close> gives it back, a queue is
  first in, first out, and an operation on one queue leaves the pool and every other queue alone as long as they
  share no node with it.
\<close>

locale move_pool =
  fixes pool :: "'s \<Rightarrow> nat list \<Rightarrow> bool"
    and queue :: "'s \<Rightarrow> 'h \<Rightarrow> nat list \<Rightarrow> bool"
    and alloc :: "'s \<Rightarrow> (nat, 's) outcome"
    and free :: "nat \<Rightarrow> 's \<Rightarrow> 's"
    and push :: "nat \<Rightarrow> 'h \<Rightarrow> 's \<Rightarrow> (bool \<times> 'h, 's) outcome"
    and pop :: "'h \<Rightarrow> 's \<Rightarrow> (nat \<times> 'h, 's) outcome"
  assumes alloc: "pool s (x # xs) \<Longrightarrow> \<exists>s'. alloc s = Ret x s' \<and> pool s' xs \<and> queue s' = queue s"
    and free: "pool s xs \<Longrightarrow> m \<notin> set xs \<Longrightarrow> pool (free m s) (m # xs)"
    and free_frame: "m \<notin> set ys \<Longrightarrow> queue (free m s) h ys = queue s h ys"
    and push: "queue s h ys \<Longrightarrow> distinct (ys @ [m]) \<Longrightarrow>
      \<exists>h' s'. push m h s = Ret (ys = [], h') s' \<and> queue s' h' (ys @ [m])
        \<and> (\<forall>h zs. set zs \<inter> set (m # ys) = {} \<longrightarrow> queue s' h zs = queue s h zs)
        \<and> (\<forall>xs. set xs \<inter> set (m # ys) = {} \<longrightarrow> pool s' xs = pool s xs)"
    and pop: "queue s h (y # ys) \<Longrightarrow> \<exists>h'. pop h s = Ret (y, h') s \<and> queue s h' ys"
begin

text \<open>
  A configuration of the pool: the free nodes and the nodes of the queues, each node in one place.
\<close>

definition conf :: "'s \<Rightarrow> nat list \<Rightarrow> ('h \<times> nat list) list \<Rightarrow> bool" where
  "conf s xs qs \<longleftrightarrow> pool s xs \<and> (\<forall>(h, ys) \<in> set qs. queue s h ys) \<and> distinct (xs @ concat (map snd qs))"

lemma conf_enqueue:
  assumes "conf s (x # xs) ((h, ys) # qs)"
  shows "\<exists>h' s'. obind (alloc s) (\<lambda>m s. push m h s) = Ret (ys = [], h') s' \<and> conf s' xs ((h', ys @ [x]) # qs)"
proof -
  from assms have c: "pool s (x # xs)" "queue s h ys" "\<And>h zs. (h, zs) \<in> set qs \<Longrightarrow> queue s h zs"
    and d: "distinct (x # xs @ ys @ concat (map snd qs))" by (auto simp: conf_def)
  obtain s1 where s1: "alloc s = Ret x s1" "pool s1 xs" "queue s1 = queue s" using alloc [OF c(1)] by blast
  have "queue s1 h ys" "distinct (ys @ [x])" using c(2) s1(3) d by auto
  from push [OF this] obtain h' s' where p: "push x h s1 = Ret (ys = [], h') s'" "queue s' h' (ys @ [x])"
    "\<forall>h zs. set zs \<inter> set (x # ys) = {} \<longrightarrow> queue s' h zs = queue s1 h zs"
    "\<forall>xs. set xs \<inter> set (x # ys) = {} \<longrightarrow> pool s' xs = pool s1 xs" by blast
  have "queue s' h zs" if "(h, zs) \<in> set qs" for h zs
  proof -
    have "set zs \<inter> set (x # ys) = {}" using d that by fastforce
    then show ?thesis using p(3) c(3) [OF that] s1(3) by simp
  qed
  moreover have "pool s' xs" using p(4) s1(2) d by auto
  ultimately have "conf s' xs ((h', ys @ [x]) # qs)" using p(2) d by (auto simp: conf_def)
  with s1(1) p(1) show ?thesis by auto
qed

lemma conf_dequeue:
  assumes "conf s xs ((h, y # ys) # qs)"
  shows "\<exists>h' s'. obind (pop h s) (\<lambda>(m, h) s. Ret (m, h) (free m s)) = Ret (y, h') s' \<and> conf s' (y # xs) ((h', ys) # qs)"
proof -
  from assms have c: "pool s xs" "queue s h (y # ys)" "\<And>h zs. (h, zs) \<in> set qs \<Longrightarrow> queue s h zs"
    and d: "distinct (y # xs @ ys @ concat (map snd qs))" by (auto simp: conf_def)
  obtain h' where h': "pop h s = Ret (y, h') s" "queue s h' ys" using pop [OF c(2)] by blast
  have "queue (free y s) k zs" if "(k, zs) \<in> set qs" for k zs
    using free_frame [of y zs s k] c(3) [OF that] d that by fastforce
  then have "conf (free y s) (y # xs) ((h', ys) # qs)"
    using free [OF c(1)] free_frame [of y ys s h'] h'(2) d by (auto simp: conf_def)
  with h'(1) show ?thesis by auto
qed

end

lemma move_push_qlist:
  assumes q: "qlist s h ys" and d: "distinct (ys @ [m])"
  obtains h' s' where "move_queue_push m h s = Ret (ys = [], h') s'" "qlist s' h' (ys @ [m])"
    "s' = s\<lparr>move_next := move_next s'\<rparr>"
    "\<And>p xs. set xs \<inter> set (m # ys) = {} \<Longrightarrow> path (move_next s') p xs = path (move_next s) p xs"
proof (cases "ys = []")
  case True
  let ?h = "\<lparr>mq_first = Some m, mq_last = Some m\<rparr>" and ?s = "s\<lparr>move_next := (move_next s)(m := None)\<rparr>"
  show ?thesis
    by (rule that [of ?h ?s]) (use True q in \<open>auto simp: qlist_def move_queue_push_def set_move_next_def\<close>)
next
  case False
  then obtain y r where ys: "ys = y # r" by (cases ys) auto
  let ?s = "s\<lparr>move_next := (move_next s)(m := None, last ys := Some m)\<rparr>"
  have "mq_first h = Some y" "mq_last h = Some (last ys)" using q by (auto simp: qlist_def ys)
  then have "move_queue_push m h s = Ret (ys = [], h\<lparr>mq_last := Some m\<rparr>) ?s"
    by (simp add: move_queue_push_def set_move_next_def ys)
  moreover have "qlist ?s (h\<lparr>mq_last := Some m\<rparr>) (ys @ [m])"
    using q d False path_append_one [of "move_next s" "mq_first h" ys m] by (simp add: qlist_def)
  moreover have "path (move_next ?s) p xs = path (move_next s) p xs" if "set xs \<inter> set (m # ys) = {}" for p xs
  proof -
    have "last ys \<notin> set xs" "m \<notin> set xs" using that False last_in_set [of ys] by auto
    then show ?thesis by simp
  qed
  ultimately show ?thesis using that [of "h\<lparr>mq_last := Some m\<rparr>" ?s] by simp
qed

interpretation mp: move_pool "free_list :: 'z base_state_scheme \<Rightarrow> _" qlist move_alloc move_free move_queue_push move_queue_pop
proof
  fix s :: "'z base_state_scheme" and x xs m h y ys
  show "free_list s (x # xs) \<Longrightarrow> \<exists>s'. move_alloc s = Ret x s' \<and> free_list s' xs \<and> qlist s' = qlist s"
    by (auto simp: free_list_def move_alloc_def qlist_def fun_eq_iff)
  show "free_list s xs \<Longrightarrow> m \<notin> set xs \<Longrightarrow> free_list (move_free m s) (m # xs)"
    by (simp add: free_list_def move_free_def set_move_next_def Let_def)
  show "m \<notin> set ys \<Longrightarrow> qlist (move_free m s) h ys = qlist s h ys"
    by (simp add: qlist_def move_free_def set_move_next_def Let_def)
  show "qlist s h (y # ys) \<Longrightarrow> \<exists>h'. move_queue_pop h s = Ret (y, h') s \<and> qlist s h' ys"
    by (auto simp: qlist_def move_queue_pop_def)
  assume "qlist s h ys" "distinct (ys @ [m])"
  then obtain h' s' where "move_queue_push m h s = Ret (ys = [], h') s'" "qlist s' h' (ys @ [m])"
    "s' = s\<lparr>move_next := move_next s'\<rparr>"
    "\<And>p xs. set xs \<inter> set (m # ys) = {} \<Longrightarrow> path (move_next s') p xs = path (move_next s) p xs"
    using move_push_qlist by blast
  moreover have "move_free_list s' = move_free_list s" by (subst calculation(3)) simp
  ultimately show "\<exists>h' s'. move_queue_push m h s = Ret (ys = [], h') s' \<and> qlist s' h' (ys @ [m])
        \<and> (\<forall>h zs. set zs \<inter> set (m # ys) = {} \<longrightarrow> qlist s' h zs = qlist s h zs)
        \<and> (\<forall>xs. set xs \<inter> set (m # ys) = {} \<longrightarrow> free_list s' xs = free_list s xs)"
    by (auto simp: qlist_def free_list_def)
qed

section \<open>The pool after a reset\<close>

lemma link_nodes_keep:
  "\<exists>f. link_nodes base n s = s\<lparr>move_next := f\<rparr>"
proof (induction n)
  case 0
  have "s = s\<lparr>move_next := move_next s\<rparr>" by simp
  then show ?case by (metis link_nodes.simps(1))
qed (auto simp: set_move_next_def Let_def)

lemma link_nodes_size [simp]: "move_item_size (link_nodes base n s) = move_item_size s"
    "move_count (link_nodes base n s) = move_count s"
  using link_nodes_keep [of base n s] by auto

lemma move_node_inj: "0 < move_item_size s \<Longrightarrow> move_node s base i = move_node s base j \<longleftrightarrow> i = j"
  by (simp add: move_node_def)

lemma link_nodes_next:
  assumes "0 < move_item_size s"
  shows "i < n \<Longrightarrow> move_next (link_nodes base n s) (move_node s base i) = Some (move_node s base (i + 1))"
proof (induction n)
  case (Suc n)
  have "move_node (link_nodes base n s) base = move_node s base" by (simp add: move_node_def fun_eq_iff)
  then show ?case
    using Suc move_node_inj [OF assms] by (auto simp: set_move_next_def Let_def less_Suc_eq)
qed simp

lemma path_nodes:
  assumes "\<And>i. i < n \<Longrightarrow> nx (f i) = Some (f (i + 1))" "nx (f n) = None" "k \<le> n"
  shows "path nx (Some (f k)) (map f [k..<Suc n])"
  using assms(3)
proof (induction k rule: inc_induct)
  case base
  then show ?case using assms(2) by simp
next
  case (step k)
  then have "map f [k..<Suc n] = f k # map f [Suc k..<Suc n]" by (subst upt_conv_Cons) auto
  then show ?case using step assms(1) [of k] by simp
qed

lemma move_reset_pool:
  assumes "move_count s \<noteq> 0" "move_list s = Some base" "0 < move_item_size s"
  obtains s' where "move_reset s = Ret () s'" "free_list s' (map (move_node s base) [0..<move_count s])"
    "distinct (map (move_node s base) [0..<move_count s])" "move_count s' = move_count s" "move_list s' = move_list s"
    "move_item_size s' = move_item_size s" "\<exists>f p. s' = s\<lparr>move_next := f, move_free_list := p\<rparr>"
proof -
  let ?n = "move_count s - 1"
  let ?l = "link_nodes base ?n s"
  let ?s = "?l\<lparr>move_next := (move_next ?l)(move_node s base ?n := None), move_free_list := Some base\<rparr>"
  have mn: "move_node ?l base = move_node s base" by (simp add: move_node_def fun_eq_iff)
  have r: "move_reset s = Ret () ?s"
    using assms(1,2) by (simp add: move_reset_def set_move_next_def mn [simplified] Let_def)
  have "path (move_next ?s) (Some (move_node s base 0)) (map (move_node s base) [0..<Suc ?n])"
    by (rule path_nodes) (use link_nodes_next [OF assms(3), of _ ?n base] move_node_inj [OF assms(3)] in auto)
  then have f: "free_list ?s (map (move_node s base) [0..<move_count s])"
    using assms(1) by (simp add: free_list_def move_node_def)
  have d: "distinct (map (move_node s base) [0..<move_count s])"
    using move_node_inj [OF assms(3)] by (simp add: distinct_map inj_on_def)
  obtain g where "?l = s\<lparr>move_next := g\<rparr>" using link_nodes_keep by blast
  then have "\<exists>f p. ?s = s\<lparr>move_next := f, move_free_list := p\<rparr>" "move_list ?s = move_list s" by auto
  then show ?thesis using that [OF r f d] by simp
qed

section \<open>Allocation\<close>

lemma ALIGN_ge: "0 < a \<Longrightarrow> x \<le> ALIGN x a"
proof -
  assume a: "0 < a"
  have "x + (a - 1) = (x + (a - 1)) div a * a + (x + (a - 1)) mod a" by simp
  moreover have "(x + (a - 1)) mod a \<le> a - 1" using a mod_less_divisor [of a "x + (a - 1)"] by linarith
  ultimately show ?thesis unfolding ALIGN_def by linarith
qed

lemma ALIGN_dvd: "a dvd ALIGN x a"
  by (simp add: ALIGN_def)

lemma alloc_chunk_Ret:
  "alloc_chunk n s = Ret d s' \<longleftrightarrow> alloc_end s + n \<le> cfg_dynmem_end s \<and> d = alloc_end s
     \<and> s' = s\<lparr>alloc_end := alloc_end s + ALIGN n (cfg_ptr_align s)\<rparr>"
  by (auto simp: alloc_chunk_def sched_shutdown_def)

lemma chunks_fit_bounds: "chunks_fit n p sz e \<le> n \<and> (chunks_fit n p sz e \<noteq> 0 \<longrightarrow> p + chunks_fit n p sz e * sz \<le> e)"
proof (induction n arbitrary: p)
  case (Suc n)
  from Suc [of "p + sz"] show ?case by (cases "chunks_fit n (p + sz) sz e = 0") (auto simp: algebra_simps)
qed simp

end
