(* ===== verification/Basecmd_Props.thy ===== *)
theory Basecmd_Props
  imports Move_Pool
begin

text \<open>
  The table of object ids, the load statistics, and the properties of \<open>src/basecmd.c\<close>.
\<close>

section \<open>The table of objects\<close>

definition oid_table :: "'z base_state_scheme \<Rightarrow> oid_s list \<Rightarrow> bool" where
  "oid_table s os \<longleftrightarrow> oids s = Some os \<and> length os = unat (oid_count s)"

definition typed_from :: "otype \<Rightarrow> oid_s list \<Rightarrow> nat \<Rightarrow> nat list" where
  "typed_from type os k = filter (\<lambda>i. o_type (os ! i) = Some type) [k..<length os]"

lemma typed_from_step:
  "typed_from type os k =
     (if k < length os then (if o_type (os ! k) = Some type then [k] else []) @ typed_from type os (Suc k) else [])"
  by (auto simp: typed_from_def upt_conv_Cons)

lemma typed_from_Cons:
  assumes "typed_from type os k = i # r"
  shows "r = typed_from type os (Suc i) \<and> i < length os \<and> k \<le> i"
  using assms
proof (induction "length os - k" arbitrary: k)
  case 0
  then show ?case by (simp add: typed_from_def)
next
  case (Suc n)
  have n: "n = length os - Suc k" using Suc.hyps(2) by simp
  show ?case
  proof (cases "k < length os \<and> o_type (os ! k) = Some type")
    case True
    then show ?thesis using Suc.prems typed_from_step [of type os k] by auto
  next
    case False
    then have "typed_from type os (Suc k) = i # r" using Suc.prems typed_from_step [of type os k] by (simp split: if_splits)
    with Suc.hyps(1) [OF n] show ?thesis by simp
  qed
qed

lemma unat_oid_step: "oid + 1 < (n :: u8) \<Longrightarrow> unat (oid + 1 + 1) = Suc (unat (oid + 1))"
proof -
  assume "oid + 1 < n"
  then have "unat (oid + 1) < 255" using unsigned_less [of n, where ?'a = nat] by (simp add: word_less_nat_alt)
  then show ?thesis by (subst unat_word_ariths(1)) simp
qed

lemma oid_next_table:
  "oid_table s os \<Longrightarrow> oid_next oid type s =
    Some (case typed_from type os (unat (oid + 1)) of [] \<Rightarrow> None | i # _ \<Rightarrow> Some (of_nat i, o_data (os ! i)))"
proof (induction oid type s rule: oid_next.induct)
  case (1 oid type s)
  have os: "oids s = Some os" "length os = unat (oid_count s)" using "1.prems" by (simp_all add: oid_table_def)
  show ?case
  proof (cases "oid + 1 \<ge> oid_count s")
    case True
    then have "typed_from type os (unat (oid + 1)) = []"
      using os(2) by (simp add: typed_from_def word_le_nat_alt)
    with True show ?thesis by (simp add: oid_next.simps [of oid] Let_def)
  next
    case False
    then have k: "unat (oid + 1) < length os" "rd os (unat (oid + 1)) = Some (os ! unat (oid + 1))"
      using os(2) by (simp_all add: word_le_nat_alt rd_def)
    have st: "unat (oid + 1 + 1) = Suc (unat (oid + 1))" using False by (intro unat_oid_step [of oid "oid_count s"]) simp
    show ?thesis
    proof (cases "o_type (os ! unat (oid + 1)) = Some type")
      case True
      then have "\<exists>r. typed_from type os (unat (oid + 1)) = unat (oid + 1) # r"
        using k typed_from_step [of type os "unat (oid + 1)"] by simp
      then show ?thesis using True False os k by (auto simp: oid_next.simps [of oid] Let_def)
    next
      case nt: False
      have "oid_next oid type s = oid_next (oid + 1) type s"
        using False os k nt by (subst oid_next.simps) (simp add: Let_def)
      also have "\<dots> = Some (case typed_from type os (unat (oid + 1 + 1)) of [] \<Rightarrow> None | i # _ \<Rightarrow> Some (of_nat i, o_data (os ! i)))"
        by (rule "1.IH" [OF refl False os(1) k(2) nt "1.prems"])
      also have "typed_from type os (unat (oid + 1 + 1)) = typed_from type os (unat (oid + 1))"
        unfolding st using nt k(1) typed_from_step [of type os "unat (oid + 1)"] by simp
      finally show ?thesis .
    qed
  qed
qed

text \<open>The objects \<open>foreach_oid\<close> visits: those of the type, in the order of their ids, up to the first NULL.\<close>

lemma foreach_from_table:
  assumes t: "oid_table s os"
  shows "foreach_from oid type s =
    Some (map (\<lambda>i. (of_nat i, the (o_data (os ! i))))
      (takeWhile (\<lambda>i. o_data (os ! i) \<noteq> None) (typed_from type os (unat (oid + 1)))))"
proof (induction "length os - unat (oid + 1)" arbitrary: oid rule: less_induct)
  case less
  have len: "length os < 256" using t unsigned_less [of "oid_count s", where ?'a = nat] by (simp add: oid_table_def)
  show ?case
  proof (cases "typed_from type os (unat (oid + 1))")
    case Nil
    then show ?thesis using oid_next_table [OF t, of oid type] by (simp add: foreach_from.simps [of oid])
  next
    case (Cons i r)
    from typed_from_Cons [OF Cons] have r: "r = typed_from type os (Suc i)" "i < length os" "unat (oid + 1) \<le> i" by auto
    have u: "unat (of_nat i + 1 :: u8) = Suc i" 
      using r(2) len by (simp add: unat_word_ariths unat_of_nat)
    show ?thesis
    proof (cases "o_data (os ! i)")
      case None
      then show ?thesis using Cons oid_next_table [OF t, of oid type] by (simp add: foreach_from.simps [of oid])
    next
      case (Some d)
      have "foreach_from (of_nat i) type s = Some (map (\<lambda>i. (of_nat i, the (o_data (os ! i))))
          (takeWhile (\<lambda>i. o_data (os ! i) \<noteq> None) r))"
        using less [of "of_nat i"] u r by simp
      then show ?thesis using Some Cons oid_next_table [OF t, of oid type] by (simp add: foreach_from.simps [of oid])
    qed
  qed
qed


lemma oid_alloc_table:
  assumes "oid_table s os" "oid_alloc oid type sz s = Ret d s'"
  shows "oid_table s' (os[unat oid := (os ! unat oid)\<lparr>o_type := Some type, o_data := Some d\<rparr>])"
    and "unat oid < length os" "o_type (os ! unat oid) = None" "\<not> is_finalized s"
    and "d = alloc_end s" "d + sz \<le> cfg_dynmem_end s"
    and "s' = s\<lparr>alloc_end := d + ALIGN sz (cfg_ptr_align s), oids := oids s'\<rparr>"
proof -
  have os: "oids s = Some os" "length os = unat (oid_count s)" using assms(1) by (simp_all add: oid_table_def)
  have "\<not> oid \<ge> oid_count s" using assms(2) by (auto simp: oid_alloc_def sched_shutdown_def)
  then show l: "unat oid < length os" using os(2) by (simp add: word_le_nat_alt)
  then have r: "rd os (unat oid) = Some (os ! unat oid)" by (simp add: rd_def)
  show t: "o_type (os ! unat oid) = None" and f: "\<not> is_finalized s"
    using assms(2) os(1) r \<open>\<not> oid \<ge> oid_count s\<close> by (auto simp: oid_alloc_def sched_shutdown_def split: if_splits)
  have e: "oid_alloc oid type sz s = obind (alloc_chunk sz (s\<lparr>oids := Some (os[unat oid := (os ! unat oid)\<lparr>o_type := Some type\<rparr>])\<rparr>))
     (\<lambda>data s. Ret data (s\<lparr>oids := Some (os[unat oid := (os ! unat oid)\<lparr>o_type := Some type, o_data := Some data\<rparr>])\<rparr>))"
    using os(1) r t f \<open>\<not> oid \<ge> oid_count s\<close> by (simp add: oid_alloc_def)
  show "d = alloc_end s" "d + sz \<le> cfg_dynmem_end s"
    "s' = s\<lparr>alloc_end := d + ALIGN sz (cfg_ptr_align s), oids := oids s'\<rparr>"
    "oid_table s' (os[unat oid := (os ! unat oid)\<lparr>o_type := Some type, o_data := Some d\<rparr>])"
    using assms(2) os(2) unfolding e by (auto simp: outcome_simps alloc_chunk_Ret oid_table_def)
qed

lemma oid_lookup_table:
  assumes "oid_table s os"
  shows "oid_lookup oid type s =
    (if unat oid < length os \<and> o_type (os ! unat oid) = Some type then Ret (o_data (os ! unat oid)) s
     else Longjmp ''Invalid oid type'' s)"
  using assms by (auto simp: oid_lookup_def oid_table_def rd_def word_le_nat_alt sched_shutdown_def)

section \<open>Statistics\<close>

lemma unat_DIV_ROUND_UP: "unat n + 255 < 2 ^ 32 \<Longrightarrow> unat (DIV_ROUND_UP n 256) = (unat n + 255) div 256"
  by (simp add: DIV_ROUND_UP_def unat_div unat_sub_if_size unat_word_ariths word_size)

definition square_cost :: "nat \<Rightarrow> nat" where
  "square_cost d = (if d \<le> 0xffff then (d * d + 255) div 256
                    else if d \<le> 0xfffff then (d + 255) div 256 * d else 2 ^ 32 - 1)"

lemma unat_add_sat: "unat a + b < 2 ^ 32 \<Longrightarrow> (a + of_nat b :: u32) \<ge> a \<and> unat (a + of_nat b :: u32) = unat a + b"
  by (simp add: word_le_nat_alt unat_word_ariths unat_of_nat)

lemma add_overflow_less:
  fixes a b :: u32
  assumes "2 ^ 32 \<le> unat a + unat b"
  shows "a + b < a"
proof -
  have "unat a < 2 ^ 32" "unat b < 2 ^ 32"
    using unsigned_less [of a, where ?'a = nat] unsigned_less [of b, where ?'a = nat] by simp_all
  then show ?thesis using assms by (simp add: word_less_nat_alt unat_word_ariths mod_if) linarith
qed

lemma no_overflow_ge:
  fixes a b :: u32
  assumes "unat a + unat b < 2 ^ 32"
  shows "\<not> a + b < a" "unat (a + b) = unat a + unat b"
  using assms by (simp_all add: word_less_nat_alt unat_word_ariths)

lemma sat_add:
  "unat (if a + b < (a :: u32) then 0xffffffff else a + b) = min (2 ^ 32 - 1) (unat a + unat b)"
proof (cases "unat a + unat b < 2 ^ 32")
  case True
  with no_overflow_ge [OF True] show ?thesis by simp
next
  case False
  with add_overflow_less [of a b] show ?thesis by simp
qed

lemma unat_mult_less: "unat (a :: u32) * unat b < 2 ^ 32 \<Longrightarrow> unat (a * b) = unat a * unat b"
  by (simp add: unat_word_ariths)

lemma next_sumsq_sat: "unat (next_sumsq a d) = min (2 ^ 32 - 1) (unat a + square_cost (unat d))"
proof -
  let ?d = "unat d"
  consider "?d \<le> 0xffff" | "0xffff < ?d" "?d \<le> 0xfffff" | "0xfffff < ?d" by linarith
  then show ?thesis
  proof cases
    case 1
    then have "?d * ?d \<le> 0xffff * 0xffff" by (intro mult_le_mono) auto
    then have "unat (d * d) = ?d * ?d" "unat (d * d) + 255 < 2 ^ 32" by (simp_all add: unat_mult_less)
    then have "unat (DIV_ROUND_UP (d * d) 256) = (?d * ?d + 255) div 256" by (simp add: unat_DIV_ROUND_UP)
    with 1 sat_add [of a "DIV_ROUND_UP (d * d) 256"] show ?thesis
      by (simp add: next_sumsq_def SUMSQ_BASE_def square_cost_def word_le_nat_alt Let_def)
  next
    case 2
    have q: "unat (DIV_ROUND_UP d 256) = (?d + 255) div 256" using 2 by (intro unat_DIV_ROUND_UP) simp
    moreover have "(?d + 255) div 256 \<le> 4096" using 2 by simp
    then have "(?d + 255) div 256 * ?d \<le> 4096 * 0xfffff" using 2 by (intro mult_le_mono) auto
    ultimately have "unat (DIV_ROUND_UP d 256 * d) = (?d + 255) div 256 * ?d" by (simp add: unat_mult_less)
    with 2 sat_add [of a "DIV_ROUND_UP d 256 * d"] show ?thesis
      by (simp add: next_sumsq_def SUMSQ_BASE_def square_cost_def word_le_nat_alt Let_def)
  next
    case 3
    have "\<not> (0xffffffff :: u32) < a" using unsigned_less [of a, where ?'a = nat] by (simp add: word_less_nat_alt)
    with 3 show ?thesis
      by (simp add: next_sumsq_def SUMSQ_BASE_def square_cost_def word_le_nat_alt Let_def)
  qed
qed

text \<open>The 64-bit time the statistics track: \<open>T0\<close> is the time of the last report.\<close>

definition uptime_inv :: "'z base_state_scheme \<Rightarrow> nat \<Rightarrow> bool" where
  "uptime_inv s T0 \<longleftrightarrow> stats_send_time s = of_nat T0 \<and> stats_send_time_high s = of_nat (T0 div 2 ^ 32)"

lemma high_word:
  assumes "T0 \<le> T" "T < T0 + 2 ^ 32"
  shows "(of_nat (T0 div 2 ^ 32) + (if (of_nat T :: u32) < of_nat T0 then 1 else 0) :: u32) = of_nat (T div 2 ^ 32)"
proof -
  have lt: "(of_nat T :: u32) < of_nat T0 \<longleftrightarrow> T mod 2 ^ 32 < T0 mod 2 ^ 32"
    by (simp add: word_less_nat_alt unat_of_nat)
  have "T div 2 ^ 32 = T0 div 2 ^ 32 + (if T mod 2 ^ 32 < T0 mod 2 ^ 32 then 1 else 0)"
  proof -
    let ?N = "2 ^ 32 :: nat"
    obtain a r b q where d: "a = T div ?N" "r = T mod ?N" "b = T0 div ?N" "q = T0 mod ?N" by blast
    then have T: "T = a * ?N + r" "T0 = b * ?N + q" "r < ?N" "q < ?N" by simp_all
    have "b \<le> a" using div_le_mono [OF assms(1), of ?N] d by simp
    moreover have "a \<le> b + 1"
    proof (rule ccontr)
      assume "\<not> a \<le> b + 1"
      then have "(b + 2) * ?N \<le> a * ?N" by (intro mult_le_mono1) simp
      then show False using T assms(2) by (simp add: algebra_simps)
    qed
    ultimately consider "a = b" | "a = b + 1" by linarith
    then have "a = b + (if r < q then 1 else 0)" by cases (use T assms in auto)
    then show ?thesis by (simp only: d)
  qed
  then show ?thesis unfolding lt by simp
qed

section \<open>Properties\<close>

text \<open>The free nodes and the queues, each node in one place (as in the contract).\<close>

definition pool_conf :: "'z base_state_scheme \<Rightarrow> nat list \<Rightarrow> (move_queue_head \<times> nat list) list \<Rightarrow> bool" where
  "pool_conf s xs qs \<longleftrightarrow> free_list s xs \<and> (\<forall>(h, ys) \<in> set qs. qlist s h ys) \<and> distinct (xs @ concat (map snd qs))"

lemma pool_conf_eq: "pool_conf s xs qs = mp.conf s xs qs"
  by (simp add: pool_conf_def mp.conf_def)

definition demo_base :: base_state where
  "demo_base = sched_state.extend demo_sched
     \<lparr>alloc_end = 1000, move_next = (\<lambda>_. None), move_free_list = None, move_list = None, move_count = 0,
      move_item_size = 0, oids = None, oid_count = 0, config_crc = 0, stats_send_time = 0,
      stats_send_time_high = 0, stats_count = 0, stats_sum = 0, stats_sumsq = 0, cfg_dynmem_start = 1000,
      cfg_dynmem_end = 5000, cfg_ptr_align = 4, cfg_sizeof_oid = 8, cfg_sizeof_move_node = 4,
      cfg_identify_data = []\<rparr>"

lemmas demo_base_simps = demo_base_def sched_state.extend_def demo_sched_def sched_init_def set_waketime_def upd_timer_def

text \<open>
  C32. Queuing a move takes a node out of the pool and puts it at the end of its queue; with an empty pool it
  shuts down with "Move queue overflow". No other queue changes, no node is lost and none is in two places.
\<close>

theorem move_enqueue:
  assumes "pool_conf s xs ((h, ys) # qs)"
  shows "case xs of
      [] \<Rightarrow> move_alloc s = Longjmp ''Move queue overflow'' s
    | x # xs' \<Rightarrow> \<exists>h' s'. obind (move_alloc s) (\<lambda>m s. move_queue_push m h s) = Ret (ys = [], h') s'
                   \<and> pool_conf s' xs' ((h', ys @ [x]) # qs)"
proof (cases xs)
  case Nil
  then show ?thesis
    using assms by (simp add: pool_conf_def free_list_def move_alloc_def sched_shutdown_def)
next
  case (Cons x xs')
  then show ?thesis using mp.conf_enqueue [of s x xs' h ys qs] assms by (simp add: pool_conf_eq)
qed

lemma demo_pool: "pool_conf (demo_base\<lparr>move_free_list := Some 8\<rparr>) [8] [(\<lparr>mq_first = None, mq_last = None\<rparr>, [])]"
  by (simp add: pool_conf_def free_list_def qlist_def demo_base_simps sched_state.defs)

theorem move_enqueue_witness:
  "\<exists>h' s'. obind (move_alloc (demo_base\<lparr>move_free_list := Some 8\<rparr>))
       (\<lambda>m s. move_queue_push m \<lparr>mq_first = None, mq_last = None\<rparr> s) = Ret (True, h') s' \<and> pool_conf s' [] [(h', [8])]"
  using move_enqueue [OF demo_pool] by simp

text \<open>
  C33. Taking a move off a queue returns the oldest one, and freeing it puts its node back into the pool; the other
  queues keep their moves.
\<close>

theorem move_dequeue:
  assumes "pool_conf s xs ((h, y # ys) # qs)"
  shows "\<exists>h' s'. obind (move_queue_pop h s) (\<lambda>(m, h) s. Ret (m, h) (move_free m s)) = Ret (y, h') s'
     \<and> pool_conf s' (y # xs) ((h', ys) # qs)"
  using mp.conf_dequeue [of s xs h y ys qs] assms by (simp add: pool_conf_eq)

theorem move_dequeue_witness:
  "\<exists>h' s'. obind (move_queue_pop \<lparr>mq_first = Some 8, mq_last = Some 8\<rparr> demo_base)
       (\<lambda>(m, h) s. Ret (m, h) (move_free m s)) = Ret (8, h') s' \<and> pool_conf s' [8] [(h', [])]"
proof -
  have "pool_conf demo_base [] [(\<lparr>mq_first = Some 8, mq_last = Some 8\<rparr>, [8])]"
    by (simp add: pool_conf_def free_list_def qlist_def demo_base_simps sched_state.defs)
  from move_dequeue [OF this] show ?thesis .
qed

text \<open>
  Finalizing the configuration makes the pool: at least one and at most 1024 nodes of the largest requested size,
  all free, all different, and all inside the memory that was left.
\<close>

theorem move_finalize_pool:
  assumes "\<not> is_finalized s" "0 < cfg_sizeof_move_node s" "cfg_sizeof_move_node s \<le> 255" "move_finalize s = Ret () s'"
  shows "0 < move_count s' \<and> move_count s' \<le> 1024 \<and> move_item_size s' = max (move_item_size s) (cfg_sizeof_move_node s)
     \<and> move_list s' = Some (alloc_end s)
     \<and> pool_conf s' (map (move_node s' (alloc_end s)) [0..<move_count s']) []
     \<and> alloc_end s + move_count s' * move_item_size s' \<le> cfg_dynmem_end s"
proof -
  let ?z = "max (move_item_size s) (cfg_sizeof_move_node s)"
  let ?s1 = "if cfg_sizeof_move_node s > move_item_size s then s\<lparr>move_item_size := cfg_sizeof_move_node s\<rparr> else s"
  let ?n = "chunks_fit 1024 (alloc_end s) ?z (cfg_dynmem_end s)"
  have z: "move_item_size ?s1 = ?z" "alloc_end ?s1 = alloc_end s" "cfg_dynmem_end ?s1 = cfg_dynmem_end s" by auto
  have "move_queue_setup (cfg_sizeof_move_node s) s = Ret \<lparr>mq_first = None, mq_last = None\<rparr> ?s1"
    using assms(1,3) by (simp add: move_queue_setup_def)
  with assms(1,4) have c: "obind (alloc_chunks ?z 1024 ?s1) (\<lambda>(data, avail) s.
      move_reset (s\<lparr>move_list := Some data, move_count := avail\<rparr>)) = Ret () s'"
    unfolding move_finalize_def using z(1) by simp
  have n: "?n \<noteq> 0"
  proof
    assume "?n = 0"
    with c show False by (simp add: alloc_chunks_def z sched_shutdown_def Let_def)
  qed
  with c obtain d s2 where a: "alloc_chunk (?n * ?z) ?s1 = Ret d s2"
    and r: "move_reset (s2\<lparr>move_list := Some d, move_count := ?n\<rparr>) = Ret () s'"
    by (auto simp: alloc_chunks_def z outcome_simps Let_def)
  have d: "d = alloc_end s" "alloc_end s + ?n * ?z \<le> cfg_dynmem_end s" "move_item_size s2 = ?z"
    using a z by (auto simp: alloc_chunk_Ret)
  have nd: "move_node (s2\<lparr>move_list := Some d, move_count := ?n\<rparr>) d = (\<lambda>i. d + i * ?z)"
    using d(3) by (simp add: move_node_def fun_eq_iff)
  obtain s3 where s3: "move_reset (s2\<lparr>move_list := Some d, move_count := ?n\<rparr>) = Ret () s3"
    "free_list s3 (map (\<lambda>i. d + i * ?z) [0..<?n])" "distinct (map (\<lambda>i. d + i * ?z) [0..<?n])"
    "move_count s3 = ?n" "move_list s3 = Some d" "move_item_size s3 = ?z"
    by (rule move_reset_pool [of "s2\<lparr>move_list := Some d, move_count := ?n\<rparr>" d])
      (use n d(3) assms(2) nd in simp_all)
  then have "s3 = s'" using r by simp
  moreover have "move_node s' d = (\<lambda>i. d + i * ?z)" using s3(6) \<open>s3 = s'\<close> by (simp add: move_node_def fun_eq_iff)
  ultimately show ?thesis
    using s3 n d chunks_fit_bounds [of 1024 "alloc_end s" ?z "cfg_dynmem_end s"] by (simp add: pool_conf_def)
qed

theorem move_finalize_pool_witness:
  "\<exists>s'. move_finalize demo_base = Ret () s' \<and> move_count s' \<le> 1024
      \<and> alloc_end demo_base + move_count s' * move_item_size s' \<le> cfg_dynmem_end demo_base"
proof -
  have "chunks_fit (Suc n) 1000 4 5000 \<noteq> 0" for n by simp
  from this [of 1023] have c: "chunks_fit 1024 1000 4 5000 \<noteq> 0" by (simp del: chunks_fit.simps)
  have b: "1000 + chunks_fit 1024 1000 4 5000 * 4 \<le> 5000" using chunks_fit_bounds [of 1024 1000 4 5000] c by blast
  let ?s = "demo_base\<lparr>move_item_size := 4, alloc_end := 1000 + ALIGN (chunks_fit 1024 1000 4 5000 * 4) 4,
     move_list := Some 1000, move_count := chunks_fit 1024 1000 4 5000\<rparr>"
  have d: "\<not> is_finalized demo_base" "cfg_sizeof_move_node demo_base = 4" "move_item_size demo_base = 0"
    "alloc_end demo_base = 1000" "cfg_dynmem_end demo_base = 5000" "cfg_ptr_align demo_base = 4"
    by (simp_all add: demo_base_simps sched_state.defs is_finalized_def)
  have "\<exists>s'. move_reset ?s = Ret () s'" using move_reset_pool [of ?s 1000] c by auto
  moreover have "move_finalize demo_base = move_reset ?s"
    using d b c by (simp add: move_finalize_def move_queue_setup_def alloc_chunks_def alloc_chunk_def Let_def)
  ultimately obtain s' where "move_finalize demo_base = Ret () s'" by auto
  with move_finalize_pool [OF d(1) _ _ this] d show ?thesis by auto
qed

text \<open>
  C34. Object ids: an id can be given to one object only, before the configuration is final; afterwards a lookup with the
  type returns the object, with another type it shuts down; no other id changes, and the object's memory is
  inside the dynamic memory and behind everything allocated before.
\<close>

theorem oid_alloc_lookup:
  assumes "oid_table s os" "oid_alloc oid type sz s = Ret d s'"
  shows "\<not> is_finalized s \<and> oid_lookup oid type s' = Ret (Some d) s'
     \<and> (\<forall>type'. type' \<noteq> type \<longrightarrow> oid_lookup oid type' s' = Longjmp ''Invalid oid type'' s')
     \<and> (\<forall>oid' type' x. oid' \<noteq> oid \<longrightarrow> oid_lookup oid' type' s = Ret x s \<longrightarrow> oid_lookup oid' type' s' = Ret x s')
     \<and> (\<forall>type' sz'. oid_alloc oid type' sz' s' = Longjmp ''Can't assign oid'' s')
     \<and> alloc_end s \<le> d \<and> d + sz \<le> cfg_dynmem_end s"
proof -
  let ?os = "os[unat oid := (os ! unat oid)\<lparr>o_type := Some type, o_data := Some d\<rparr>]"
  note a = oid_alloc_table [OF assms]
  have c: "oid_count s' = oid_count s" by (subst a(7)) simp
  have f: "oid_alloc oid type' sz' s' = Longjmp ''Can't assign oid'' s'" for type' sz'
    using a(1,2) by (auto simp: oid_alloc_def oid_table_def rd_def word_le_nat_alt sched_shutdown_def)
  have "oid_lookup oid' type' s' = Ret x s'" if "oid' \<noteq> oid" "oid_lookup oid' type' s = Ret x s" for oid' type' x
  proof -
    have "?os ! unat oid' = os ! unat oid'" using that(1) by (simp add: word_unat_eq_iff)
    then show ?thesis
      using that(2) by (simp add: oid_lookup_table [OF assms(1)] oid_lookup_table [OF a(1)] split: if_splits)
  qed
  with a f show ?thesis by (auto simp: oid_lookup_table [OF a(1)])
qed

definition demo_oids :: base_state where
  "demo_oids = demo_base\<lparr>oids := Some (replicate 4 \<lparr>o_type = None, o_data = None\<rparr>), oid_count := 4\<rparr>"

lemma demo_oids_table: "oid_table demo_oids (replicate 4 \<lparr>o_type = None, o_data = None\<rparr>)"
  by (simp add: oid_table_def demo_oids_def)

theorem oid_alloc_lookup_witness:
  "\<exists>s'. oid_alloc 2 Command_config_trsync 20 demo_oids = Ret 1000 s' \<and> oid_lookup 2 Command_config_trsync s' = Ret (Some 1000) s'"
proof -
  obtain s' where e: "oid_alloc 2 Command_config_trsync 20 demo_oids = Ret 1000 s'"
    by (simp add: oid_alloc_def demo_oids_def rd_def alloc_chunk_def is_finalized_def word_le_nat_alt
        demo_base_simps sched_state.defs Let_def)
  from oid_alloc_lookup [OF demo_oids_table e] e show ?thesis by blast
qed

text \<open>
  \<open>foreach_oid\<close> ends and visits exactly the objects of the type, once each and in the order of their ids, when
  every object of the type has its memory.
\<close>

theorem foreach_oid_visits:
  assumes "oid_table s os" "\<forall>x \<in> set os. o_type x = Some type \<longrightarrow> o_data x \<noteq> None"
  shows "foreach_from 255 type s =
    Some (map (\<lambda>i. (of_nat i, the (o_data (os ! i)))) (filter (\<lambda>i. o_type (os ! i) = Some type) [0..<length os]))"
proof -
  have z: "unat (255 + 1 :: u8) = 0" by simp
  have "takeWhile (\<lambda>i. o_data (os ! i) \<noteq> None) (typed_from type os 0) = typed_from type os 0"
    using assms(2) by (auto simp: typed_from_def takeWhile_eq_all_conv)
  then show ?thesis unfolding foreach_from_table [OF assms(1)] z by (simp only: typed_from_def)
qed

theorem foreach_oid_visits_witness: "foreach_from 255 Command_config_trsync demo_oids = Some []"
  using foreach_oid_visits [OF demo_oids_table, of Command_config_trsync] by simp

text \<open>
  When the memory for an object runs out, \<open>oid_alloc\<close> leaves its id with the type and a NULL object: the
  shutdown handlers that run next end their loop over the type there, and the objects of the type with higher ids are
  not visited.
\<close>

theorem oid_alloc_failure_stops_foreach:
  assumes "oid_table s os" "oid_alloc oid type sz s = Longjmp ''alloc_chunk failed'' s'"
    and "o_data (os ! unat oid) = None" "unat oid < j" "j < length os" "o_type (os ! j) = Some type"
  shows "\<exists>xs. foreach_from 255 type s' = Some xs \<and> of_nat j \<notin> fst ` set xs \<and> oid_lookup (of_nat j) type s' = Ret (o_data (os ! j)) s'"
proof -
  let ?os = "os[unat oid := (os ! unat oid)\<lparr>o_type := Some type\<rparr>]"
  have l: "length os = unat (oid_count s)" "oids s = Some os" using assms(1) by (simp_all add: oid_table_def)
  have s': "s' = s\<lparr>oids := Some ?os\<rparr>"
    using assms(2) l assms(4,5)
    by (auto simp: oid_alloc_def rd_def word_le_nat_alt sched_shutdown_def alloc_chunk_def Let_def split: if_splits)
  then have t: "oid_table s' ?os" using l by (simp add: oid_table_def)
  let ?tw = "takeWhile (\<lambda>i. o_data (?os ! i) \<noteq> None) (typed_from type ?os 0)"
  have lt: "length os < 256" using l unsigned_less [of "oid_count s", where ?'a = nat] by simp
  have "j \<notin> set ?tw"
  proof -
    have "typed_from type ?os 0 = typed_from type (take (unat oid) ?os) 0 @ unat oid # filter (\<lambda>i. o_type (?os ! i) = Some type) [Suc (unat oid)..<length os]"
    proof -
      have "[0..<length os] = [0..<unat oid] @ unat oid # [Suc (unat oid)..<length os]"
        using assms(4,5) by (metis less_trans upt_conv_Cons upt_add_eq_append le0 le_add_diff_inverse less_imp_le)
      moreover have "filter (\<lambda>i. o_type (?os ! i) = Some type) [0..<unat oid] = typed_from type (take (unat oid) ?os) 0"
        using assms(4,5) by (auto simp: typed_from_def intro!: filter_cong)
      ultimately show ?thesis using assms(4,5) by (simp add: typed_from_def)
    qed
    moreover have "j \<notin> set (typed_from type (take (unat oid) ?os) 0)" using assms(4) by (simp add: typed_from_def)
    moreover have "o_data (?os ! unat oid) = None" using assms(3-5) by simp
    ultimately show ?thesis using assms(4) by (auto simp: takeWhile_append dest: set_takeWhileD)
  qed
  moreover have "(of_nat i :: u8) = of_nat j \<longrightarrow> i = j" if "i \<in> set ?tw" for i
  proof -
    have "i < length os" using that by (auto simp: typed_from_def dest!: set_takeWhileD)
    then have "unat (of_nat i :: u8) = i" "unat (of_nat j :: u8) = j" using lt assms(5) by (simp_all add: unat_of_nat)
    then show ?thesis by metis
  qed
  ultimately have "of_nat j \<notin> fst ` set (map (\<lambda>i. (of_nat i :: u8, the (o_data (?os ! i)))) ?tw)" by auto
  moreover have "oid_lookup (of_nat j) type s' = Ret (o_data (os ! j)) s'"
    using assms(4-6) lt by (simp add: oid_lookup_table [OF t] unat_of_nat)
  ultimately show ?thesis using foreach_from_table [OF t, of 255 type] by simp
qed

theorem oid_alloc_failure_stops_foreach_witness:
  "\<exists>s' xs. oid_alloc 1 Command_config_digital_out 9000
       (demo_oids\<lparr>oids := Some [\<lparr>o_type = None, o_data = None\<rparr>, \<lparr>o_type = None, o_data = None\<rparr>,
          \<lparr>o_type = Some Command_config_digital_out, o_data = Some 900\<rparr>, \<lparr>o_type = None, o_data = None\<rparr>]\<rparr>)
     = Longjmp ''alloc_chunk failed'' s' \<and> foreach_from 255 Command_config_digital_out s' = Some xs
     \<and> 2 \<notin> fst ` set xs \<and> oid_lookup 2 Command_config_digital_out s' = Ret (Some 900) s'"
proof -
  let ?os = "[\<lparr>o_type = None, o_data = None\<rparr>, \<lparr>o_type = None, o_data = None\<rparr>,
          \<lparr>o_type = Some Command_config_digital_out, o_data = Some 900\<rparr>, \<lparr>o_type = None, o_data = None\<rparr>]"
  let ?s = "demo_oids\<lparr>oids := Some ?os\<rparr>"
  have t: "oid_table ?s ?os" by (simp add: oid_table_def demo_oids_def)
  obtain s' where "oid_alloc 1 Command_config_digital_out 9000 ?s = Longjmp ''alloc_chunk failed'' s'"
    by (simp add: oid_alloc_def demo_oids_def rd_def alloc_chunk_def is_finalized_def word_le_nat_alt
        demo_base_simps sched_state.defs sched_shutdown_def Let_def)
  with oid_alloc_failure_stops_foreach [OF t this, of 2] show ?thesis by auto
qed

text \<open>
  The sum of squares of the load statistics never wraps: it is the exact sum of the rounded-up costs, held at
  its maximum once it would exceed 32 bits, for every measured time and no intermediate product overflows.
\<close>

theorem stats_sumsq_saturates:
  "unat (next_sumsq sumsq diff) = min (2 ^ 32 - 1) (unat sumsq + square_cost (unat diff))"
  by (rule next_sumsq_sat)

text \<open>
  The reported uptime is the 64-bit time, when the statistics were last sent less than one turn of the
  32-bit clock ago; and sending them, at any time within a turn, keeps this true.
\<close>

theorem uptime_is_64bit_time:
  assumes "uptime_inv s T0" "T0 \<le> T" "T < T0 + 2 ^ 32" "clk s (clk_pos s) = of_nat T" "in_sendf s = 0"
  shows "\<exists>s'. command_get_uptime args s = Ret () s'
      \<and> last (sent s') = (next_sequence s, Response ''uptime high=%u clock=%u'' [Num (of_nat (T div 2 ^ 32)), Num (of_nat T)])
      \<and> uptime_inv (stats_update start (of_nat T) s) (if timer_has_elapsed (of_nat T0) (of_nat T) (timer_from_us s 5000000) then T else T0)"
proof -
  have t: "stats_send_time s = of_nat T0" "stats_send_time_high s = of_nat (T0 div 2 ^ 32)"
    using assms(1) by (simp_all add: uptime_inv_def)
  note h = high_word [OF assms(2,3)]
  have "uptime_inv (stats_update start (of_nat T) s) (if timer_has_elapsed (of_nat T0) (of_nat T) (timer_from_us s 5000000) then T else T0)"
    using h t by (auto simp: uptime_inv_def stats_update_def sendf_def command_sendf_eq timer_from_us_def Let_def split: if_splits)
  then show ?thesis
    using assms(4,5) h by (simp add: command_get_uptime_def timer_read_time_def sendf_def command_sendf_eq t)
qed

theorem uptime_is_64bit_time_witness:
  "\<exists>s'. command_get_uptime [] demo_base = Ret () s'
      \<and> last (sent s') = (0x10, Response ''uptime high=%u clock=%u'' [Num 0, Num 3])"
proof -
  have d: "uptime_inv demo_base 0" "clk demo_base (clk_pos demo_base) = of_nat 3" "in_sendf demo_base = 0" "next_sequence demo_base = 0x10"
    by (simp_all add: uptime_inv_def demo_base_simps sched_state.defs)
  from uptime_is_64bit_time [OF d(1) _ _ d(2,3), of "[]"] d(4) show ?thesis by auto
qed

end
