(* ===== verification/Gpio.thy ===== *)
theory Gpio
  imports Basecmd_Props
begin

text \<open>
  The digital pins as the components see them, after \<open>src/stm32/gpio.c\<close>: an output pin has a level, a read of
  an input pin takes the next sample of the tape of that pin. Which ports exist is a constant of the build. A
  \<open>struct gpio_out\<close>, the register and bit of a pin, is the number of the pin. The mode registers of the pins
  (\<open>gpio_peripheral\<close>, \<open>gpio_clock_enable\<close>) are not modelled.
\<close>

record gpio_state = base_state +
  gpio_level :: "u32 \<Rightarrow> bool"
  gpio_in_tape :: "u32 \<Rightarrow> nat \<Rightarrow> bool"
  gpio_in_pos :: "u32 \<Rightarrow> nat"
  cfg_gpio_port :: "u32 \<Rightarrow> bool"

definition GPIO2PORT :: "u32 \<Rightarrow> u32" where
  "GPIO2PORT pin = pin div 16"

definition gpio_pin_to_regs :: "u32 \<Rightarrow> 'z gpio_state_scheme \<Rightarrow> (unit, 'z gpio_state_scheme) outcome" where
  "gpio_pin_to_regs pin s =
     (if \<not> cfg_gpio_port s (GPIO2PORT pin) then sched_shutdown ''Not a valid pin'' s else Ret () s)"

definition gpio_out_write :: "u32 \<Rightarrow> bool \<Rightarrow> 'z gpio_state_scheme \<Rightarrow> 'z gpio_state_scheme" where
  "gpio_out_write g val s = s\<lparr>gpio_level := (gpio_level s)(g := val)\<rparr>"

definition gpio_out_reset :: "u32 \<Rightarrow> bool \<Rightarrow> 'z gpio_state_scheme \<Rightarrow> 'z gpio_state_scheme" where
  "gpio_out_reset g val s = s\<lparr>gpio_level := (gpio_level s)(g := val)\<rparr>"

definition gpio_out_setup :: "u32 \<Rightarrow> bool \<Rightarrow> 'z gpio_state_scheme \<Rightarrow> (u32, 'z gpio_state_scheme) outcome" where
  "gpio_out_setup pin val s =
     obind (gpio_pin_to_regs pin s) (\<lambda>_ s. Ret pin (gpio_out_reset pin val s))"

definition gpio_out_toggle_noirq :: "u32 \<Rightarrow> 'z gpio_state_scheme \<Rightarrow> 'z gpio_state_scheme" where
  "gpio_out_toggle_noirq g s = s\<lparr>gpio_level := (gpio_level s)(g := \<not> gpio_level s g)\<rparr>"

definition gpio_in_setup :: "u32 \<Rightarrow> u32 \<Rightarrow> 'z gpio_state_scheme \<Rightarrow> (u32, 'z gpio_state_scheme) outcome" where
  "gpio_in_setup pin pull_up s = obind (gpio_pin_to_regs pin s) (\<lambda>_ s. Ret pin s)"

definition gpio_in_read :: "u32 \<Rightarrow> 'z gpio_state_scheme \<Rightarrow> bool \<times> 'z gpio_state_scheme" where
  "gpio_in_read g s = (gpio_in_tape s g (gpio_in_pos s g), s\<lparr>gpio_in_pos := (gpio_in_pos s)(g := Suc (gpio_in_pos s g))\<rparr>)"

end
