(* ===== verification/Trsync.thy ===== *)
theory Trsync
  imports Gpio
begin

text \<open>
  Synchronized triggers, \<open>src/trsync.c\<close>. A \<open>struct trsync\<close> is a record in a store indexed by the object's
  address, its two timers are \<open>Obj_timer a 0\<close> (\<open>report_time\<close>) and \<open>Obj_timer a 1\<close> (\<open>expire_time\<close>). A
  \<open>struct trsync_signal\<close> is embedded in its owner and named by the owner's address; the callbacks are the
  constructors of \<open>sigfunc\<close>, with their meaning as an argument.
\<close>

section \<open>State\<close>

datatype sigfunc = Stepper_stop

record trsync =
  ts_report_ticks :: u32
  ts_signals :: "nat option"
  ts_flags :: u8
  ts_trigger_reason :: u8
  ts_expire_reason :: u8

definition zero_trsync :: trsync where
  "zero_trsync = \<lparr>ts_report_ticks = 0, ts_signals = None, ts_flags = 0, ts_trigger_reason = 0, ts_expire_reason = 0\<rparr>"

record trsync_state = gpio_state +
  trsyncs :: "nat \<Rightarrow> trsync"
  tss_next :: "nat \<Rightarrow> nat option"
  tss_func :: "nat \<Rightarrow> sigfunc option"
  cfg_sizeof_trsync :: nat

definition TSF_CAN_TRIGGER :: u8 where [simp]: "TSF_CAN_TRIGGER = 1"

definition TSF_REPORT :: u8 where [simp]: "TSF_REPORT = 4"

abbreviation report_time :: "nat \<Rightarrow> taddr" where "report_time ts \<equiv> Obj_timer ts 0"

abbreviation expire_time :: "nat \<Rightarrow> taddr" where "expire_time ts \<equiv> Obj_timer ts 1"

definition upd_trsync :: "nat \<Rightarrow> (trsync \<Rightarrow> trsync) \<Rightarrow> 'z trsync_state_scheme \<Rightarrow> 'z trsync_state_scheme" where
  "upd_trsync a f s = s\<lparr>trsyncs := (trsyncs s)(a := f (trsyncs s a))\<rparr>"

text \<open>A wake flag is named by the C variable.\<close>

definition trsync_wake :: string where "trsync_wake = ''trsync_wake''"

type_synonym 's sigcall = "sigfunc \<Rightarrow> nat \<Rightarrow> u8 \<Rightarrow> 's \<Rightarrow> (unit, 's) outcome"

section \<open>Triggers\<close>

text \<open>
  The loop over the signals; \<^const>\<open>None\<close> is a loop that does not end. A NULL callback would be a jump to
  address zero, a \<open>Fault\<close>.
\<close>

partial_function (option) dispatch_signals ::
  "'z trsync_state_scheme sigcall \<Rightarrow> nat \<Rightarrow> u8 \<Rightarrow> 'z trsync_state_scheme \<Rightarrow>
   (unit, 'z trsync_state_scheme) outcome option" where
  "dispatch_signals call ts reason s =
     (case ts_signals (trsyncs s ts) of
        None \<Rightarrow> Some (Ret () s)
      | Some tss \<Rightarrow>
          (let func = tss_func s tss;
               s = upd_trsync ts (\<lambda>t. t\<lparr>ts_signals := tss_next s tss\<rparr>) s;
               s = s\<lparr>tss_next := (tss_next s)(tss := None), tss_func := (tss_func s)(tss := None)\<rparr>
           in case func of
                None \<Rightarrow> Some Fault
              | Some f \<Rightarrow>
                  (case call f tss reason s of
                     Ret _ s \<Rightarrow> dispatch_signals call ts reason s
                   | Longjmp r s \<Rightarrow> Some (Longjmp r s)
                   | Fault \<Rightarrow> Some Fault)))"

definition trsync_do_trigger ::
  "'z trsync_state_scheme sigcall \<Rightarrow> nat \<Rightarrow> u8 \<Rightarrow> 'z trsync_state_scheme \<Rightarrow> (unit, 'z trsync_state_scheme) outcome" where
  "trsync_do_trigger call ts reason s =
     (let flags = ts_flags (trsyncs s ts) in
      if flags AND TSF_CAN_TRIGGER = 0 then Ret () s
      else
        let s = upd_trsync ts (\<lambda>t. t\<lparr>ts_trigger_reason := reason, ts_flags := (flags AND NOT TSF_CAN_TRIGGER) OR TSF_REPORT\<rparr>) s
        in case dispatch_signals call ts reason s of
             None \<Rightarrow> Fault
           | Some r \<Rightarrow> obind r (\<lambda>_ s. Ret () (sched_wake_task trsync_wake s)))"

definition trsync_expire_event ::
  "'z trsync_state_scheme sigcall \<Rightarrow> nat \<Rightarrow> 'z trsync_state_scheme \<Rightarrow> (sf, 'z trsync_state_scheme) outcome" where
  "trsync_expire_event call ts s =
     obind (trsync_do_trigger call ts (ts_expire_reason (trsyncs s ts)) s) (\<lambda>_ s. Ret SF_DONE s)"

definition trsync_report_event :: "nat \<Rightarrow> 'z trsync_state_scheme \<Rightarrow> (sf, 'z trsync_state_scheme) outcome" where
  "trsync_report_event ts s =
     (let s = upd_trsync ts (\<lambda>t. t\<lparr>ts_flags := ts_flags t OR TSF_REPORT\<rparr>) s;
          s = sched_wake_task trsync_wake s;
          s = set_waketime (report_time ts) (waketime s (report_time ts) + ts_report_ticks (trsyncs s ts)) s
      in Ret SF_RESCHEDULE s)"

definition command_config_trsync :: "u32 list \<Rightarrow> 'z trsync_state_scheme \<Rightarrow> (unit, 'z trsync_state_scheme) outcome" where
  "command_config_trsync args s =
     obind (oid_alloc (ucast (args ! 0)) Command_config_trsync (cfg_sizeof_trsync s) s) (\<lambda>ts s.
       let s = upd_trsync ts (\<lambda>_. zero_trsync) s;
           s = upd_timer (report_time ts) (\<lambda>_. zero_timer\<lparr>t_func := Some Trsync_report_event\<rparr>) s;
           s = upd_timer (expire_time ts) (\<lambda>_. zero_timer\<lparr>t_func := Some Trsync_expire_event\<rparr>) s
       in Ret () s)"

text \<open>A lookup whose result is used as a pointer: a NULL object is a \<open>Fault\<close> at its first use.\<close>

definition deref :: "(nat option, 's) outcome \<Rightarrow> (nat, 's) outcome" where
  "deref m = obind m (\<lambda>p s. case p of None \<Rightarrow> Fault | Some a \<Rightarrow> Ret a s)"

definition trsync_oid_lookup :: "u8 \<Rightarrow> 'z trsync_state_scheme \<Rightarrow> (nat, 'z trsync_state_scheme) outcome" where
  "trsync_oid_lookup oid s = deref (oid_lookup oid Command_config_trsync s)"

definition trsync_add_signal ::
  "nat \<Rightarrow> nat \<Rightarrow> sigfunc option \<Rightarrow> 'z trsync_state_scheme \<Rightarrow> (unit, 'z trsync_state_scheme) outcome" where
  "trsync_add_signal ts tss func s =
     (if tss_func s tss \<noteq> None \<or> func = None then sched_shutdown ''Can't add signal that is already active'' s
      else
        let s = s\<lparr>tss_func := (tss_func s)(tss := func), tss_next := (tss_next s)(tss := ts_signals (trsyncs s ts))\<rparr>
        in Ret () (upd_trsync ts (\<lambda>t. t\<lparr>ts_signals := Some tss\<rparr>) s))"

text \<open>The loop of \<open>trsync_clear\<close> over the signals, on their two fields.\<close>

partial_function (option) clear_signals ::
  "nat option \<Rightarrow> (nat \<Rightarrow> nat option) \<Rightarrow> (nat \<Rightarrow> sigfunc option) \<Rightarrow>
   ((nat \<Rightarrow> nat option) \<times> (nat \<Rightarrow> sigfunc option)) option" where
  "clear_signals p nx fn =
     (case p of
        None \<Rightarrow> Some (nx, fn)
      | Some tss \<Rightarrow> clear_signals (nx tss) (nx(tss := None)) (fn(tss := None)))"

definition trsync_clear :: "nat \<Rightarrow> 'z trsync_state_scheme \<Rightarrow> (unit, 'z trsync_state_scheme) outcome" where
  "trsync_clear ts s =
     obind (sched_del_timer (report_time ts) s) (\<lambda>_ s.
     obind (sched_del_timer (expire_time ts) s) (\<lambda>_ s.
       case clear_signals (ts_signals (trsyncs s ts)) (tss_next s) (tss_func s) of
         None \<Rightarrow> Fault
       | Some (nx, fn) \<Rightarrow>
           let s = s\<lparr>tss_next := nx, tss_func := fn\<rparr>
           in Ret () (upd_trsync ts (\<lambda>t. t\<lparr>ts_signals := None, ts_flags := 0, ts_trigger_reason := 0, ts_expire_reason := 0\<rparr>) s)))"

section \<open>Commands\<close>

definition command_trsync_start :: "u32 list \<Rightarrow> 'z trsync_state_scheme \<Rightarrow> (unit, 'z trsync_state_scheme) outcome" where
  "command_trsync_start args s =
     obind (trsync_oid_lookup (ucast (args ! 0)) s) (\<lambda>ts s.
     obind (trsync_clear ts s) (\<lambda>_ s.
       let s = upd_trsync ts (\<lambda>t. t\<lparr>ts_flags := TSF_CAN_TRIGGER\<rparr>) s;
           s = set_waketime (report_time ts) (args ! 1) s;
           s = upd_trsync ts (\<lambda>t. t\<lparr>ts_report_ticks := args ! 2\<rparr>) s
       in obind (if ts_report_ticks (trsyncs s ts) \<noteq> 0 then sched_add_timer (report_time ts) s else Ret () s) (\<lambda>_ s.
            Ret () (upd_trsync ts (\<lambda>t. t\<lparr>ts_expire_reason := ucast (args ! 3)\<rparr>) s))))"

definition command_trsync_set_timeout :: "u32 list \<Rightarrow> 'z trsync_state_scheme \<Rightarrow> (unit, 'z trsync_state_scheme) outcome" where
  "command_trsync_set_timeout args s =
     obind (trsync_oid_lookup (ucast (args ! 0)) s) (\<lambda>ts s.
       if ts_flags (trsyncs s ts) AND TSF_CAN_TRIGGER \<noteq> 0 then
         obind (sched_del_timer (expire_time ts) s) (\<lambda>_ s.
           sched_add_timer (expire_time ts) (set_waketime (expire_time ts) (args ! 1) s))
       else Ret () s)"

definition trsync_report :: "u8 \<Rightarrow> u8 \<Rightarrow> u8 \<Rightarrow> u32 \<Rightarrow> 'z trsync_state_scheme \<Rightarrow> 'z trsync_state_scheme" where
  "trsync_report oid flags reason clock s =
     sendf ''trsync_state oid=%c can_trigger=%c trigger_reason=%c clock=%u''
       [Num (ucast oid), Num (of_bool8 (flags AND TSF_CAN_TRIGGER \<noteq> 0)), Num (ucast reason), Num clock] s"

definition command_trsync_trigger ::
  "'z trsync_state_scheme sigcall \<Rightarrow> u32 list \<Rightarrow> 'z trsync_state_scheme \<Rightarrow> (unit, 'z trsync_state_scheme) outcome" where
  "command_trsync_trigger call args s =
     (let oid = ucast (args ! 0) in
      obind (trsync_oid_lookup oid s) (\<lambda>ts s.
      obind (trsync_do_trigger call ts (ucast (args ! 1)) s) (\<lambda>_ s.
      obind (sched_del_timer (report_time ts) s) (\<lambda>_ s.
      obind (sched_del_timer (expire_time ts) s) (\<lambda>_ s.
        let s = upd_trsync ts (\<lambda>t. t\<lparr>ts_flags := 0\<rparr>) s
        in Ret () (trsync_report oid 0 (ts_trigger_reason (trsyncs s ts)) 0 s))))))"

definition trsync_task :: "'z trsync_state_scheme \<Rightarrow> (unit, 'z trsync_state_scheme) outcome" where
  "trsync_task s =
     (let (woken, s) = sched_check_wake trsync_wake s in
      if \<not> woken then Ret () s
      else foreach_oid Command_config_trsync (\<lambda>oid ts s.
        if ts_flags (trsyncs s ts) AND TSF_REPORT = 0 then Ret () s
        else
          let (time, s) = timer_read_time s;
              trigger_reason = ts_trigger_reason (trsyncs s ts);
              flags = ts_flags (trsyncs s ts);
              s = upd_trsync ts (\<lambda>t. t\<lparr>ts_flags := flags AND NOT TSF_REPORT\<rparr>) s
          in Ret () (trsync_report oid flags trigger_reason time s)) s)"

definition trsync_shutdown :: "'z trsync_state_scheme \<Rightarrow> (unit, 'z trsync_state_scheme) outcome" where
  "trsync_shutdown s = foreach_oid Command_config_trsync (\<lambda>oid ts s. trsync_clear ts s) s"

end
