(* ===== verification/Stepper.thy ===== *)
theory Stepper
  imports Trsync
begin

text \<open>
  The stepper drivers, \<open>src/stepper.c\<close>. A \<open>struct stepper\<close> is a record in a store indexed by the object's
  address, its timer is \<open>Obj_timer a 0\<close>, its \<open>stop_signal\<close> is the signal with the same address; a queued
  \<open>struct stepper_move\<close> is a record in a store indexed by the address of its move node. The build options are
  constants of the state: which optimised event function exists, and the width of \<open>int_fast8_t\<close>.
\<close>

section \<open>State\<close>

record stepper_move =
  m_interval :: u32
  m_add :: "16 word"
  m_count :: "16 word"
  m_flags :: u8

record stepper =
  st_interval :: u32
  st_add :: "16 word"
  st_count :: u32
  st_next_step_time :: u32
  st_step_pulse_ticks :: u32
  st_step_pin :: u32
  st_dir_pin :: u32
  st_position :: u32
  st_mq :: move_queue_head
  st_flags :: u8

definition zero_stepper :: stepper where
  "zero_stepper =
     \<lparr>st_interval = 0, st_add = 0, st_count = 0, st_next_step_time = 0, st_step_pulse_ticks = 0, st_step_pin = 0,
      st_dir_pin = 0, st_position = 0, st_mq = \<lparr>mq_first = None, mq_last = None\<rparr>, st_flags = 0\<rparr>"

record stepper_state = trsync_state +
  steppers :: "nat \<Rightarrow> stepper"
  stepper_moves :: "nat \<Rightarrow> stepper_move"
  cfg_both_edge :: bool
  cfg_mach_avr :: bool
  cfg_fast8_bits :: nat
  cfg_sizeof_stepper :: nat
  cfg_sizeof_stepper_move :: nat

definition MF_DIR :: u8 where [simp]: "MF_DIR = 1"

definition POSITION_BIAS :: u32 where [simp]: "POSITION_BIAS = 0x40000000"

definition SF_LAST_DIR :: u8 where [simp]: "SF_LAST_DIR = 1"

definition SF_NEXT_DIR :: u8 where [simp]: "SF_NEXT_DIR = 2"

definition SF_INVERT_STEP :: u8 where [simp]: "SF_INVERT_STEP = 4"

definition SF_NEED_RESET :: u8 where [simp]: "SF_NEED_RESET = 8"

definition SF_SINGLE_SCHED :: u8 where [simp]: "SF_SINGLE_SCHED = 16"

definition SF_OPTIMIZED_PATH :: u8 where [simp]: "SF_OPTIMIZED_PATH = 32"

definition SF_HAVE_ADD :: u8 where [simp]: "SF_HAVE_ADD = 64"

definition HAVE_EDGE_OPTIMIZATION :: "'z stepper_state_scheme \<Rightarrow> bool" where
  "HAVE_EDGE_OPTIMIZATION s \<longleftrightarrow> cfg_inline_stepper_hack s \<and> cfg_both_edge s"

definition HAVE_AVR_OPTIMIZATION :: "'z stepper_state_scheme \<Rightarrow> bool" where
  "HAVE_AVR_OPTIMIZATION s \<longleftrightarrow> cfg_inline_stepper_hack s \<and> \<not> cfg_both_edge s \<and> cfg_mach_avr s"

definition EDGE_STEP_TICKS :: "'z stepper_state_scheme \<Rightarrow> u32" where
  "EDGE_STEP_TICKS s = (cfg_clock_freq s + (8000000 - 1)) div 8000000"

definition AVR_STEP_TICKS :: u32 where "AVR_STEP_TICKS = 40"

abbreviation step_time :: "nat \<Rightarrow> taddr" where "step_time a \<equiv> Obj_timer a 0"

definition has_flag :: "'z stepper_state_scheme \<Rightarrow> nat \<Rightarrow> u8 \<Rightarrow> bool" where
  "has_flag s a f \<longleftrightarrow> st_flags (steppers s a) AND f \<noteq> 0"

definition upd_stepper :: "nat \<Rightarrow> (stepper \<Rightarrow> stepper) \<Rightarrow> 'z stepper_state_scheme \<Rightarrow> 'z stepper_state_scheme" where
  "upd_stepper a f s = s\<lparr>steppers := (steppers s)(a := f (steppers s a))\<rparr>"

definition upd_move :: "nat \<Rightarrow> (stepper_move \<Rightarrow> stepper_move) \<Rightarrow> 'z stepper_state_scheme \<Rightarrow> 'z stepper_state_scheme" where
  "upd_move m f s = s\<lparr>stepper_moves := (stepper_moves s)(m := f (stepper_moves s m))\<rparr>"

section \<open>Loading a move\<close>

text \<open>
  The busy wait on the clock: the number of reads after it, \<^const>\<open>None\<close> when the clock never gets there.
\<close>

partial_function (option) wait_clock :: "(nat \<Rightarrow> u32) \<Rightarrow> nat \<Rightarrow> u32 \<Rightarrow> nat option" where
  "wait_clock c pos w = (if timer_is_before (c pos) w then wait_clock c (Suc pos) w else Some (Suc pos))"

text \<open>A change of direction while stepping: the minimum time between step change and direction change.\<close>

definition stepper_turn :: "nat \<Rightarrow> u32 \<Rightarrow> 'z stepper_state_scheme \<Rightarrow> (sf, 'z stepper_state_scheme) outcome" where
  "stepper_turn a min_next_time s =
     (case (if has_flag s a SF_SINGLE_SCHED then wait_clock (clk s) (clk_pos s) min_next_time else Some (clk_pos s)) of
        None \<Rightarrow> Fault
      | Some pos \<Rightarrow>
          let s = s\<lparr>clk_pos := pos\<rparr>;
              s = gpio_out_toggle_noirq (st_dir_pin (steppers s a)) s;
              (curtime, s) = timer_read_time s;
              min_next_time = curtime + st_step_pulse_ticks (steppers s a)
          in Ret SF_RESCHEDULE
               (if timer_is_before (waketime s (step_time a)) min_next_time
                then set_waketime (step_time a) min_next_time s else s))"

definition stepper_load_full ::
  "nat \<Rightarrow> u32 \<Rightarrow> 16 word \<Rightarrow> bool \<Rightarrow> 'z stepper_state_scheme \<Rightarrow> (sf, 'z stepper_state_scheme) outcome" where
  "stepper_load_full a move_interval mcount need_dir_change s =
     (let was_active = (st_count (steppers s a) \<noteq> 0);
          min_next_time = waketime s (step_time a);
          s = upd_stepper a (\<lambda>x. x\<lparr>st_next_step_time := st_next_step_time x + move_interval\<rparr>) s;
          next_step_time = st_next_step_time (steppers s a);
          s = set_waketime (step_time a) next_step_time s;
          s = upd_stepper a (\<lambda>x. x\<lparr>st_count := (if has_flag s a SF_SINGLE_SCHED then ucast mcount else ucast mcount * 2)\<rparr>) s
      in obind
           (if was_active \<and> timer_is_before next_step_time min_next_time then
              (if sint (next_step_time - min_next_time) < sint (- timer_from_us s 1000)
               then sched_shutdown ''Stepper too far in past'' s
               else Ret () (set_waketime (step_time a) min_next_time s))
            else Ret () s)
           (\<lambda>_ s.
             if was_active \<and> need_dir_change then stepper_turn a min_next_time s
             else
               Ret SF_RESCHEDULE
                 (if need_dir_change then gpio_out_toggle_noirq (st_dir_pin (steppers s a)) s else s)))"

definition stepper_load_next :: "nat \<Rightarrow> 'z stepper_state_scheme \<Rightarrow> (sf, 'z stepper_state_scheme) outcome" where
  "stepper_load_next a s =
     (if move_queue_empty (st_mq (steppers s a)) then
        Ret SF_DONE (upd_stepper a (\<lambda>x. x\<lparr>st_count := 0\<rparr>) s)
      else
        obind (move_queue_pop (st_mq (steppers s a)) s) (\<lambda>(m, mq) s.
          let s = upd_stepper a (\<lambda>x. x\<lparr>st_mq := mq\<rparr>) s;
              move_interval = m_interval (stepper_moves s m);
              mcount = m_count (stepper_moves s m);
              move_add = m_add (stepper_moves s m);
              need_dir_change = (m_flags (stepper_moves s m) AND MF_DIR \<noteq> 0);
              s = move_free m s;
              s = upd_stepper a (\<lambda>x. x\<lparr>st_position := (if need_dir_change then - st_position x else st_position x) + ucast mcount\<rparr>) s;
              s = upd_stepper a (\<lambda>x. x\<lparr>st_add := move_add, st_interval := move_interval + scast move_add\<rparr>) s
          in if (HAVE_EDGE_OPTIMIZATION s \<or> HAVE_AVR_OPTIMIZATION s) \<and> has_flag s a SF_OPTIMIZED_PATH then
               let s = set_waketime (step_time a) (waketime s (step_time a) + move_interval) s;
                   s = upd_stepper a (\<lambda>x. x\<lparr>st_count := ucast mcount\<rparr>) s;
                   s = (if HAVE_EDGE_OPTIMIZATION s then s
                        else upd_stepper a (\<lambda>x. x\<lparr>st_flags := (if move_add \<noteq> 0 then st_flags x OR SF_HAVE_ADD
                                                              else st_flags x AND NOT SF_HAVE_ADD)\<rparr>) s)
               in Ret SF_RESCHEDULE
                    (if need_dir_change then gpio_out_toggle_noirq (st_dir_pin (steppers s a)) s else s)
             else stepper_load_full a move_interval mcount need_dir_change s))"

section \<open>Step events\<close>

definition stepper_event_edge :: "nat \<Rightarrow> 'z stepper_state_scheme \<Rightarrow> (sf, 'z stepper_state_scheme) outcome" where
  "stepper_event_edge a s =
     (let s = gpio_out_toggle_noirq (st_step_pin (steppers s a)) s;
          count = st_count (steppers s a) - 1
      in if count \<noteq> 0 then
           let s = upd_stepper a (\<lambda>x. x\<lparr>st_count := count\<rparr>) s;
               s = set_waketime (step_time a) (waketime s (step_time a) + st_interval (steppers s a)) s;
               s = upd_stepper a (\<lambda>x. x\<lparr>st_interval := st_interval x + scast (st_add x)\<rparr>) s
           in Ret SF_RESCHEDULE s
         else stepper_load_next a s)"

text \<open>The AVR code counts in the low half of \<open>count\<close> (the machine is little endian).\<close>

definition stepper_event_avr :: "nat \<Rightarrow> 'z stepper_state_scheme \<Rightarrow> (sf, 'z stepper_state_scheme) outcome" where
  "stepper_event_avr a s =
     (let s = gpio_out_toggle_noirq (st_step_pin (steppers s a)) s;
          count = (ucast (st_count (steppers s a)) - 1 :: 16 word)
      in if count \<noteq> 0 then
           let s = upd_stepper a (\<lambda>x. x\<lparr>st_count := (st_count x AND 0xffff0000) OR ucast count\<rparr>) s;
               s = set_waketime (step_time a) (waketime s (step_time a) + st_interval (steppers s a)) s;
               s = gpio_out_toggle_noirq (st_step_pin (steppers s a)) s;
               s = (if has_flag s a SF_HAVE_ADD
                    then upd_stepper a (\<lambda>x. x\<lparr>st_interval := st_interval x + scast (st_add x)\<rparr>) s else s)
           in Ret SF_RESCHEDULE s
         else obind (stepper_load_next a s) (\<lambda>ret s.
           Ret ret (gpio_out_toggle_noirq (st_step_pin (steppers s a)) s)))"

definition stepper_event_full :: "nat \<Rightarrow> 'z stepper_state_scheme \<Rightarrow> (sf, 'z stepper_state_scheme) outcome" where
  "stepper_event_full a s =
     (let s = gpio_out_toggle_noirq (st_step_pin (steppers s a)) s;
          (curtime, s) = timer_read_time s;
          min_next_time = curtime + st_step_pulse_ticks (steppers s a);
          count = st_count (steppers s a) - 1;
          reschedule_min = (\<lambda>s. Ret SF_RESCHEDULE
            (set_waketime (step_time a) min_next_time (upd_stepper a (\<lambda>x. x\<lparr>st_count := count\<rparr>) s)))
      in if count AND 1 \<noteq> 0 \<and> \<not> has_flag s a SF_SINGLE_SCHED then reschedule_min s
         else if count \<noteq> 0 then
           let s = upd_stepper a (\<lambda>x. x\<lparr>st_next_step_time := st_next_step_time x + st_interval x\<rparr>) s;
               s = upd_stepper a (\<lambda>x. x\<lparr>st_interval := st_interval x + scast (st_add x)\<rparr>) s
           in if timer_is_before (st_next_step_time (steppers s a)) min_next_time then reschedule_min s
              else Ret SF_RESCHEDULE
                (set_waketime (step_time a) (st_next_step_time (steppers s a)) (upd_stepper a (\<lambda>x. x\<lparr>st_count := count\<rparr>) s))
         else stepper_load_next a (set_waketime (step_time a) min_next_time s))"

definition stepper_event :: "nat \<Rightarrow> 'z stepper_state_scheme \<Rightarrow> (sf, 'z stepper_state_scheme) outcome" where
  "stepper_event a s =
     (if HAVE_EDGE_OPTIMIZATION s then stepper_event_edge a s
      else if HAVE_AVR_OPTIMIZATION s then stepper_event_avr a s
      else stepper_event_full a s)"

section \<open>Commands\<close>

definition int_fast8 :: "nat \<Rightarrow> u32 \<Rightarrow> int" where
  "int_fast8 bits x = signed_take_bit (bits - 1) (uint x)"

definition command_config_stepper :: "u32 list \<Rightarrow> 'z stepper_state_scheme \<Rightarrow> (unit, 'z stepper_state_scheme) outcome" where
  "command_config_stepper args s =
     obind (oid_alloc (ucast (args ! 0)) Command_config_stepper (cfg_sizeof_stepper s) s) (\<lambda>a s.
       let invert_step = int_fast8 (cfg_fast8_bits s) (args ! 3);
           s = upd_stepper a (\<lambda>_. zero_stepper) s;
           s = upd_timer (step_time a) (\<lambda>_. zero_timer) s;
           s = s\<lparr>tss_next := (tss_next s)(a := None), tss_func := (tss_func s)(a := None)\<rparr>;
           s = upd_stepper a (\<lambda>x. x\<lparr>st_flags := (if invert_step > 0 then SF_INVERT_STEP
                                                else if invert_step < 0 then SF_SINGLE_SCHED else st_flags x)\<rparr>) s
       in obind (gpio_out_setup (args ! 1) (has_flag s a SF_INVERT_STEP) s) (\<lambda>step_pin s.
          obind (gpio_out_setup (args ! 2) False (upd_stepper a (\<lambda>x. x\<lparr>st_step_pin := step_pin\<rparr>) s)) (\<lambda>dir_pin s.
            let s = upd_stepper a (\<lambda>x. x\<lparr>st_dir_pin := dir_pin, st_position := - POSITION_BIAS, st_step_pulse_ticks := args ! 4\<rparr>) s
            in obind (move_queue_setup (cfg_sizeof_stepper_move s) s) (\<lambda>mq s.
                 let s = upd_stepper a (\<lambda>x. x\<lparr>st_mq := mq\<rparr>) s in
                 if HAVE_EDGE_OPTIMIZATION s then
                   (if invert_step < 0 \<and> st_step_pulse_ticks (steppers s a) \<le> EDGE_STEP_TICKS s
                    then Ret () (upd_stepper a (\<lambda>x. x\<lparr>st_flags := st_flags x OR SF_OPTIMIZED_PATH\<rparr>) s)
                    else Ret () (set_func (step_time a) Stepper_event_full s))
                 else if HAVE_AVR_OPTIMIZATION s then
                   (if invert_step \<ge> 0 \<and> st_step_pulse_ticks (steppers s a) \<le> AVR_STEP_TICKS
                    then Ret () (upd_stepper a (\<lambda>x. x\<lparr>st_flags := st_flags x OR (SF_SINGLE_SCHED OR SF_OPTIMIZED_PATH)\<rparr>) s)
                    else Ret () (set_func (step_time a) Stepper_event_full s))
                 else if \<not> cfg_inline_stepper_hack s then Ret () (set_func (step_time a) Stepper_event_full s)
                 else Ret () s))))"

definition stepper_oid_lookup :: "u8 \<Rightarrow> 'z stepper_state_scheme \<Rightarrow> (nat, 'z stepper_state_scheme) outcome" where
  "stepper_oid_lookup oid s = deref (oid_lookup oid Command_config_stepper s)"

definition push_move :: "nat \<Rightarrow> nat \<Rightarrow> 'z stepper_state_scheme \<Rightarrow> (unit, 'z stepper_state_scheme) outcome" where
  "push_move a m s =
     obind (move_queue_push m (st_mq (steppers s a)) s) (\<lambda>(_, mq) s. Ret () (upd_stepper a (\<lambda>x. x\<lparr>st_mq := mq\<rparr>) s))"

definition command_queue_step :: "u32 list \<Rightarrow> 'z stepper_state_scheme \<Rightarrow> (unit, 'z stepper_state_scheme) outcome" where
  "command_queue_step args s =
     obind (stepper_oid_lookup (ucast (args ! 0)) s) (\<lambda>a s.
     obind (move_alloc s) (\<lambda>m s.
       let s = upd_move m (\<lambda>x. x\<lparr>m_interval := args ! 1, m_count := ucast (args ! 2)\<rparr>) s in
       if m_count (stepper_moves s m) = 0 then sched_shutdown ''Invalid count parameter'' s
       else
         let s = upd_move m (\<lambda>x. x\<lparr>m_add := ucast (args ! 3), m_flags := 0\<rparr>) s;
             turn = (has_flag s a SF_LAST_DIR \<noteq> has_flag s a SF_NEXT_DIR);
             flags = (if turn then st_flags (steppers s a) XOR SF_LAST_DIR else st_flags (steppers s a));
             s = (if turn then upd_move m (\<lambda>x. x\<lparr>m_flags := m_flags x OR MF_DIR\<rparr>) s else s)
         in if st_count (steppers s a) \<noteq> 0 then
              push_move a m (upd_stepper a (\<lambda>x. x\<lparr>st_flags := flags\<rparr>) s)
            else if flags AND SF_NEED_RESET \<noteq> 0 then Ret () (move_free m s)
            else
              obind (push_move a m (upd_stepper a (\<lambda>x. x\<lparr>st_flags := flags\<rparr>) s)) (\<lambda>_ s.
              obind (stepper_load_next a s) (\<lambda>_ s. sched_add_timer (step_time a) s))))"

definition command_set_next_step_dir :: "u32 list \<Rightarrow> 'z stepper_state_scheme \<Rightarrow> (unit, 'z stepper_state_scheme) outcome" where
  "command_set_next_step_dir args s =
     obind (stepper_oid_lookup (ucast (args ! 0)) s) (\<lambda>a s.
       let nextdir = (if args ! 1 \<noteq> 0 then SF_NEXT_DIR else 0)
       in Ret () (upd_stepper a (\<lambda>x. x\<lparr>st_flags := (st_flags x AND NOT SF_NEXT_DIR) OR nextdir\<rparr>) s))"

definition command_reset_step_clock :: "u32 list \<Rightarrow> 'z stepper_state_scheme \<Rightarrow> (unit, 'z stepper_state_scheme) outcome" where
  "command_reset_step_clock args s =
     obind (stepper_oid_lookup (ucast (args ! 0)) s) (\<lambda>a s.
       if st_count (steppers s a) \<noteq> 0 then sched_shutdown ''Can't reset time when stepper active'' s
       else
         let s = set_waketime (step_time a) (args ! 1) s;
             s = upd_stepper a (\<lambda>x. x\<lparr>st_next_step_time := args ! 1\<rparr>) s
         in Ret () (upd_stepper a (\<lambda>x. x\<lparr>st_flags := st_flags x AND NOT SF_NEED_RESET\<rparr>) s))"

definition stepper_get_position :: "nat \<Rightarrow> 'z stepper_state_scheme \<Rightarrow> u32" where
  "stepper_get_position a s =
     (let position = st_position (steppers s a);
          position = (if has_flag s a SF_SINGLE_SCHED then position - st_count (steppers s a)
                      else position - st_count (steppers s a) div 2)
      in if position AND 0x80000000 \<noteq> 0 then - position else position)"

definition command_stepper_get_position :: "u32 list \<Rightarrow> 'z stepper_state_scheme \<Rightarrow> (unit, 'z stepper_state_scheme) outcome" where
  "command_stepper_get_position args s =
     (let oid = ucast (args ! 0) :: u8 in
      obind (stepper_oid_lookup oid s) (\<lambda>a s.
        Ret () (sendf ''stepper_position oid=%c pos=%i''
          [Num (ucast oid), Num (stepper_get_position a s - POSITION_BIAS)] s)))"

text \<open>The loop that gives the queued moves back to the pool.\<close>

partial_function (option) free_moves ::
  "move_queue_head \<Rightarrow> 'z base_state_scheme \<Rightarrow> (move_queue_head, 'z base_state_scheme) outcome option" where
  "free_moves mq s =
     (if move_queue_empty mq then Some (Ret mq s)
      else case move_queue_pop mq s of
        Ret r s \<Rightarrow> free_moves (snd r) (move_free (fst r) s)
      | Longjmp r s \<Rightarrow> Some (Longjmp r s)
      | Fault \<Rightarrow> Some Fault)"

definition stepper_stop :: "nat \<Rightarrow> u8 \<Rightarrow> 'z stepper_state_scheme \<Rightarrow> (unit, 'z stepper_state_scheme) outcome" where
  "stepper_stop a reason s =
     obind (sched_del_timer (step_time a) s) (\<lambda>_ s.
       let s = set_waketime (step_time a) 0 s;
           s = upd_stepper a (\<lambda>x. x\<lparr>st_next_step_time := 0\<rparr>) s;
           s = upd_stepper a (\<lambda>x. x\<lparr>st_position := - stepper_get_position a s\<rparr>) s;
           s = upd_stepper a (\<lambda>x. x\<lparr>st_count := 0\<rparr>) s;
           s = upd_stepper a (\<lambda>x. x\<lparr>st_flags :=
                 (st_flags x AND (SF_INVERT_STEP OR SF_SINGLE_SCHED OR SF_OPTIMIZED_PATH)) OR SF_NEED_RESET\<rparr>) s;
           s = gpio_out_write (st_dir_pin (steppers s a)) False s;
           s = (if \<not> has_flag s a SF_SINGLE_SCHED \<or> (HAVE_AVR_OPTIMIZATION s \<and> has_flag s a SF_OPTIMIZED_PATH)
                then gpio_out_write (st_step_pin (steppers s a)) (has_flag s a SF_INVERT_STEP) s else s)
       in case free_moves (st_mq (steppers s a)) s of
            None \<Rightarrow> Fault
          | Some r \<Rightarrow> obind r (\<lambda>mq s. Ret () (upd_stepper a (\<lambda>x. x\<lparr>st_mq := mq\<rparr>) s)))"

definition call_signal :: "'z stepper_state_scheme sigcall" where
  "call_signal f a reason s = (case f of Stepper_stop \<Rightarrow> stepper_stop a reason s)"

definition command_stepper_stop_on_trigger :: "u32 list \<Rightarrow> 'z stepper_state_scheme \<Rightarrow> (unit, 'z stepper_state_scheme) outcome" where
  "command_stepper_stop_on_trigger args s =
     obind (stepper_oid_lookup (ucast (args ! 0)) s) (\<lambda>a s.
     obind (trsync_oid_lookup (ucast (args ! 1)) s) (\<lambda>ts s.
       trsync_add_signal ts a (Some Stepper_stop) s))"

definition stepper_shutdown :: "'z stepper_state_scheme \<Rightarrow> (unit, 'z stepper_state_scheme) outcome" where
  "stepper_shutdown s =
     foreach_oid Command_config_stepper (\<lambda>i a s.
       stepper_stop a 0 (upd_stepper a (\<lambda>x. x\<lparr>st_mq := move_queue_clear (st_mq x)\<rparr>) s)) s"

end
