(* ===== verification/Endstop.thy ===== *)
theory Endstop
  imports Stepper
begin

text \<open>
  The end stops, \<open>src/endstop.c\<close>: the periodic check of an input pin, the oversampling before a trigger, and the
  homing commands. The timer of an end stop at address \<open>a\<close> is \<open>Obj_timer a 0\<close>.
\<close>

record endstop =
  es_pin :: u32
  es_rest_time :: u32
  es_sample_time :: u32
  es_nextwake :: u32
  es_ts :: "nat option"
  es_flags :: u8
  es_sample_count :: u8
  es_trigger_count :: u8
  es_trigger_reason :: u8

definition zero_endstop :: endstop where
  "zero_endstop =
     \<lparr>es_pin = 0, es_rest_time = 0, es_sample_time = 0, es_nextwake = 0, es_ts = None, es_flags = 0,
      es_sample_count = 0, es_trigger_count = 0, es_trigger_reason = 0\<rparr>"

record endstop_state = stepper_state +
  endstops :: "nat \<Rightarrow> endstop"
  cfg_sizeof_endstop :: nat

definition ESF_PIN_HIGH :: u8 where [simp]: "ESF_PIN_HIGH = 1"

definition ESF_HOMING :: u8 where [simp]: "ESF_HOMING = 2"

abbreviation endstop_time :: "nat \<Rightarrow> taddr" where "endstop_time a \<equiv> Obj_timer a 0"

definition upd_endstop :: "nat \<Rightarrow> (endstop \<Rightarrow> endstop) \<Rightarrow> 'z endstop_state_scheme \<Rightarrow> 'z endstop_state_scheme" where
  "upd_endstop a f s = s\<lparr>endstops := (endstops s)(a := f (endstops s a))\<rparr>"

text \<open>The test \<open>(val ? ~e->flags : e->flags) & ESF_PIN_HIGH\<close> of both events: the sample is not the wanted level.\<close>

definition no_match :: "bool \<Rightarrow> u8 \<Rightarrow> bool" where
  "no_match val flags \<longleftrightarrow> (if val then NOT flags else flags) AND ESF_PIN_HIGH \<noteq> 0"

definition endstop_oversample_event :: "nat \<Rightarrow> 'z endstop_state_scheme \<Rightarrow> (sf, 'z endstop_state_scheme) outcome" where
  "endstop_oversample_event a s =
     (let (val, s) = gpio_in_read (es_pin (endstops s a)) s in
      if no_match val (es_flags (endstops s a)) then
        let s = set_func (endstop_time a) Endstop_event s;
            s = set_waketime (endstop_time a) (es_nextwake (endstops s a)) s;
            s = upd_endstop a (\<lambda>e. e\<lparr>es_trigger_count := es_sample_count e\<rparr>) s
        in Ret SF_RESCHEDULE s
      else
        let count = es_trigger_count (endstops s a) - 1 in
        if count = 0 then
          (case es_ts (endstops s a) of
             None \<Rightarrow> Fault
           | Some ts \<Rightarrow> obind (trsync_do_trigger call_signal ts (es_trigger_reason (endstops s a)) s) (\<lambda>_ s. Ret SF_DONE s))
        else
          let s = upd_endstop a (\<lambda>e. e\<lparr>es_trigger_count := count\<rparr>) s
          in Ret SF_RESCHEDULE (set_waketime (endstop_time a) (waketime s (endstop_time a) + es_sample_time (endstops s a)) s))"

definition endstop_event :: "nat \<Rightarrow> 'z endstop_state_scheme \<Rightarrow> (sf, 'z endstop_state_scheme) outcome" where
  "endstop_event a s =
     (let (val, s) = gpio_in_read (es_pin (endstops s a)) s;
          nextwake = waketime s (endstop_time a) + es_rest_time (endstops s a)
      in if no_match val (es_flags (endstops s a)) then Ret SF_RESCHEDULE (set_waketime (endstop_time a) nextwake s)
         else
           let s = upd_endstop a (\<lambda>e. e\<lparr>es_nextwake := nextwake\<rparr>) s;
               s = set_func (endstop_time a) Endstop_oversample_event s
           in endstop_oversample_event a s)"

definition command_config_endstop :: "u32 list \<Rightarrow> 'z endstop_state_scheme \<Rightarrow> (unit, 'z endstop_state_scheme) outcome" where
  "command_config_endstop args s =
     obind (oid_alloc (ucast (args ! 0)) Command_config_endstop (cfg_sizeof_endstop s) s) (\<lambda>a s.
       let s = upd_endstop a (\<lambda>_. zero_endstop) s;
           s = upd_timer (endstop_time a) (\<lambda>_. zero_timer) s
       in obind (gpio_in_setup (args ! 1) (args ! 2) s) (\<lambda>pin s. Ret () (upd_endstop a (\<lambda>e. e\<lparr>es_pin := pin\<rparr>) s)))"

definition command_endstop_home :: "u32 list \<Rightarrow> 'z endstop_state_scheme \<Rightarrow> (unit, 'z endstop_state_scheme) outcome" where
  "command_endstop_home args s =
     obind (deref (oid_lookup (ucast (args ! 0)) Command_config_endstop s)) (\<lambda>a s.
     obind (sched_del_timer (endstop_time a) s) (\<lambda>_ s.
       let s = set_waketime (endstop_time a) (args ! 1) s;
           s = upd_endstop a (\<lambda>e. e\<lparr>es_sample_time := args ! 2, es_sample_count := ucast (args ! 3)\<rparr>) s
       in if es_sample_count (endstops s a) = 0 then
            Ret () (upd_endstop a (\<lambda>e. e\<lparr>es_ts := None, es_flags := 0\<rparr>) s)
          else
            let s = upd_endstop a (\<lambda>e. e\<lparr>es_rest_time := args ! 4\<rparr>) s;
                s = set_func (endstop_time a) Endstop_event s;
                s = upd_endstop a (\<lambda>e. e\<lparr>es_trigger_count := es_sample_count e,
                      es_flags := ESF_HOMING OR (if args ! 5 \<noteq> 0 then ESF_PIN_HIGH else 0)\<rparr>) s
            in obind (trsync_oid_lookup (ucast (args ! 6)) s) (\<lambda>ts s.
                 let s = upd_endstop a (\<lambda>e. e\<lparr>es_ts := Some ts, es_trigger_reason := ucast (args ! 7)\<rparr>) s
                 in sched_add_timer (endstop_time a) s)))"

definition command_endstop_query_state :: "u32 list \<Rightarrow> 'z endstop_state_scheme \<Rightarrow> (unit, 'z endstop_state_scheme) outcome" where
  "command_endstop_query_state args s =
     (let oid = ucast (args ! 0) :: u8 in
      obind (deref (oid_lookup oid Command_config_endstop s)) (\<lambda>a s.
        let eflags = es_flags (endstops s a);
            nextwake = es_nextwake (endstops s a);
            (val, s) = gpio_in_read (es_pin (endstops s a)) s
        in Ret () (sendf ''endstop_state oid=%c homing=%c next_clock=%u pin_value=%c''
             [Num (ucast oid), Num (of_bool8 (eflags AND ESF_HOMING \<noteq> 0)), Num nextwake, Num (of_bool8 val)] s)))"

end
