(* ===== verification/Digital_Out.thy ===== *)
theory Digital_Out
  imports Endstop
begin

text \<open>
  The digital output pins with scheduled updates and software PWM, \<open>src/gpiocmds.c\<close>. The timer of an output at
  address \<open>a\<close> is \<open>Obj_timer a 0\<close>; a queued \<open>struct digital_move\<close> is a record in a store indexed by the
  address of its move node.
\<close>

record digital_move =
  dm_waketime :: u32
  dm_on_duration :: u32

record digital_out_s =
  do_on_duration :: u32
  do_off_duration :: u32
  do_end_time :: u32
  do_pin :: u32
  do_max_duration :: u32
  do_cycle_time :: u32
  do_mq :: move_queue_head
  do_flags :: u8

definition zero_digital_out :: digital_out_s where
  "zero_digital_out =
     \<lparr>do_on_duration = 0, do_off_duration = 0, do_end_time = 0, do_pin = 0, do_max_duration = 0, do_cycle_time = 0,
      do_mq = \<lparr>mq_first = None, mq_last = None\<rparr>, do_flags = 0\<rparr>"

record digital_out_state = endstop_state +
  digital_outs :: "nat \<Rightarrow> digital_out_s"
  digital_moves :: "nat \<Rightarrow> digital_move"
  cfg_sizeof_digital_out :: nat
  cfg_sizeof_digital_move :: nat

definition DF_ON :: u8 where [simp]: "DF_ON = 1"

definition DF_TOGGLING :: u8 where [simp]: "DF_TOGGLING = 2"

definition DF_CHECK_END :: u8 where [simp]: "DF_CHECK_END = 4"

definition DF_DEFAULT_ON :: u8 where [simp]: "DF_DEFAULT_ON = 16"

abbreviation digital_timer :: "nat \<Rightarrow> taddr" where "digital_timer a \<equiv> Obj_timer a 0"

definition upd_digital ::
  "nat \<Rightarrow> (digital_out_s \<Rightarrow> digital_out_s) \<Rightarrow> 'z digital_out_state_scheme \<Rightarrow> 'z digital_out_state_scheme" where
  "upd_digital a f s = s\<lparr>digital_outs := (digital_outs s)(a := f (digital_outs s a))\<rparr>"

section \<open>Events\<close>

definition digital_toggle_event :: "nat \<Rightarrow> 'z digital_out_state_scheme \<Rightarrow> (sf, 'z digital_out_state_scheme) outcome" where
  "digital_toggle_event a s =
     (let s = gpio_out_toggle_noirq (do_pin (digital_outs s a)) s;
          s = upd_digital a (\<lambda>d. d\<lparr>do_flags := do_flags d XOR DF_ON\<rparr>) s;
          d = digital_outs s a;
          w = waketime s (digital_timer a) + (if do_flags d AND DF_ON \<noteq> 0 then do_on_duration d else do_off_duration d);
          check_end = (do_flags d AND DF_CHECK_END \<noteq> 0 \<and> \<not> timer_is_before w (do_end_time d));
          s = (if check_end then set_func (digital_timer a) Digital_load_event s else s)
      in Ret SF_RESCHEDULE (set_waketime (digital_timer a) (if check_end then do_end_time d else w) s))"

text \<open>The end time and flags of a pin state (\<open>flags\<close> is \<open>DF_ON\<close> or 0) without the rest of the queue.\<close>

definition digital_limit :: "u32 \<Rightarrow> digital_out_s \<Rightarrow> u32 \<Rightarrow> u8 \<Rightarrow> u32 \<times> u8" where
  "digital_limit now d on_duration flags =
     (if flags = 0 \<or> on_duration \<ge> do_cycle_time d then
        (if (flags = 0) \<noteq> (do_flags d AND DF_DEFAULT_ON = 0) \<and> do_max_duration d \<noteq> 0
         then (now + do_max_duration d, flags OR DF_CHECK_END)
         else (0, flags))
      else if do_max_duration d \<noteq> 0 then (now + do_max_duration d, flags OR DF_TOGGLING OR DF_CHECK_END)
      else (0, flags OR DF_TOGGLING))"

text \<open>The end time when there is another update in the queue.\<close>

definition digital_next ::
  "move_queue_head \<Rightarrow> u32 \<Rightarrow> u8 \<Rightarrow> 'z digital_out_state_scheme \<Rightarrow> (u32 \<times> u8, 'z digital_out_state_scheme) outcome" where
  "digital_next mq end_time flags s =
     (case move_queue_first mq of
        None \<Rightarrow> Ret (end_time, flags) s
      | Some nn \<Rightarrow>
          let wake = dm_waketime (digital_moves s nn) in
          if flags AND DF_CHECK_END \<noteq> 0 \<and> timer_is_before end_time wake then
            sched_shutdown ''Scheduled digital out event will exceed max_duration'' s
          else Ret (wake, flags OR DF_CHECK_END) s)"

text \<open>The next event of the pin.\<close>

definition digital_schedule ::
  "nat \<Rightarrow> u32 \<Rightarrow> u32 \<Rightarrow> u8 \<Rightarrow> 'z digital_out_state_scheme \<Rightarrow> (sf, 'z digital_out_state_scheme) outcome" where
  "digital_schedule a on_duration end_time flags s =
     (let s = upd_digital a (\<lambda>d. d\<lparr>do_end_time := end_time, do_flags := flags OR (do_flags d AND DF_DEFAULT_ON)\<rparr>) s
      in if flags AND DF_TOGGLING = 0 then
           (if flags AND DF_CHECK_END = 0 then Ret SF_DONE s
            else Ret SF_RESCHEDULE (set_waketime (digital_timer a) end_time s))
         else
           let w = waketime s (digital_timer a) + on_duration in
           if flags AND DF_CHECK_END \<noteq> 0 \<and> \<not> timer_is_before w end_time then
             Ret SF_RESCHEDULE (set_waketime (digital_timer a) end_time s)
           else
             let s = set_func (digital_timer a) Digital_toggle_event s;
                 s = set_waketime (digital_timer a) w s;
                 s = upd_digital a (\<lambda>d. d\<lparr>do_on_duration := on_duration, do_off_duration := do_cycle_time d - on_duration\<rparr>) s
             in Ret SF_RESCHEDULE s)"

definition digital_load_event :: "nat \<Rightarrow> 'z digital_out_state_scheme \<Rightarrow> (sf, 'z digital_out_state_scheme) outcome" where
  "digital_load_event a s =
     (if move_queue_empty (do_mq (digital_outs s a)) then
        sched_shutdown ''Missed scheduling of next digital out event'' s
      else
        obind (move_queue_pop (do_mq (digital_outs s a)) s) (\<lambda>(m, mq) s.
          let s = upd_digital a (\<lambda>d. d\<lparr>do_mq := mq\<rparr>) s;
              on_duration = dm_on_duration (digital_moves s m);
              flags = (if on_duration \<noteq> 0 then DF_ON else 0);
              s = gpio_out_write (do_pin (digital_outs s a)) (flags \<noteq> 0) s;
              s = move_free m s;
              (end_time, flags) = digital_limit (waketime s (digital_timer a)) (digital_outs s a) on_duration flags
          in obind (digital_next mq end_time flags s) (\<lambda>(end_time, flags) s. digital_schedule a on_duration end_time flags s)))"

section \<open>Commands\<close>

definition command_config_digital_out :: "u32 list \<Rightarrow> 'z digital_out_state_scheme \<Rightarrow> (unit, 'z digital_out_state_scheme) outcome" where
  "command_config_digital_out args s =
     obind (gpio_out_setup (args ! 1) (args ! 2 \<noteq> 0) s) (\<lambda>pin s.
     obind (oid_alloc (ucast (args ! 0)) Command_config_digital_out (cfg_sizeof_digital_out s) s) (\<lambda>a s.
       let s = upd_digital a (\<lambda>_. zero_digital_out) s;
           s = upd_timer (digital_timer a) (\<lambda>_. zero_timer) s;
           s = upd_digital a (\<lambda>d. d\<lparr>do_pin := pin,
                 do_flags := (if args ! 2 \<noteq> 0 then DF_ON else 0) OR (if args ! 3 \<noteq> 0 then DF_DEFAULT_ON else 0),
                 do_max_duration := args ! 4\<rparr>) s
       in obind (move_queue_setup (cfg_sizeof_digital_move s) s) (\<lambda>mq s.
            Ret () (upd_digital a (\<lambda>d. d\<lparr>do_mq := mq\<rparr>) s))))"

definition digital_oid_lookup :: "u8 \<Rightarrow> 'z digital_out_state_scheme \<Rightarrow> (nat, 'z digital_out_state_scheme) outcome" where
  "digital_oid_lookup oid s = deref (oid_lookup oid Command_config_digital_out s)"

definition command_set_digital_out_pwm_cycle ::
  "u32 list \<Rightarrow> 'z digital_out_state_scheme \<Rightarrow> (unit, 'z digital_out_state_scheme) outcome" where
  "command_set_digital_out_pwm_cycle args s =
     obind (digital_oid_lookup (ucast (args ! 0)) s) (\<lambda>a s.
       if \<not> move_queue_empty (do_mq (digital_outs s a)) then
         sched_shutdown ''Can not set soft pwm cycle ticks while updates pending'' s
       else Ret () (upd_digital a (\<lambda>d. d\<lparr>do_cycle_time := args ! 1\<rparr>) s))"

definition command_queue_digital_out :: "u32 list \<Rightarrow> 'z digital_out_state_scheme \<Rightarrow> (unit, 'z digital_out_state_scheme) outcome" where
  "command_queue_digital_out args s =
     obind (digital_oid_lookup (ucast (args ! 0)) s) (\<lambda>a s.
     obind (move_alloc s) (\<lambda>m s.
       let time = args ! 1;
           s = s\<lparr>digital_moves := (digital_moves s)(m := \<lparr>dm_waketime = time, dm_on_duration = args ! 2\<rparr>)\<rparr>
       in obind (move_queue_push m (do_mq (digital_outs s a)) s) (\<lambda>(first_on_queue, mq) s.
            let s = upd_digital a (\<lambda>d. d\<lparr>do_mq := mq\<rparr>) s in
            if \<not> first_on_queue then Ret () s
            else
              let flags = do_flags (digital_outs s a) in
              if flags AND DF_CHECK_END \<noteq> 0 \<and> timer_is_before (do_end_time (digital_outs s a)) time then
                sched_shutdown ''Scheduled digital out event will exceed max_duration'' s
              else
                let s = upd_digital a (\<lambda>d. d\<lparr>do_end_time := time, do_flags := flags OR DF_CHECK_END\<rparr>) s in
                if flags AND DF_TOGGLING \<noteq> 0 \<and> timer_is_before (waketime s (digital_timer a)) time then Ret () s
                else
                  obind (sched_del_timer (digital_timer a) s) (\<lambda>_ s.
                    let s = set_waketime (digital_timer a) time s;
                        s = set_func (digital_timer a) Digital_load_event s
                    in sched_add_timer (digital_timer a) s))))"

definition command_update_digital_out :: "u32 list \<Rightarrow> 'z digital_out_state_scheme \<Rightarrow> (unit, 'z digital_out_state_scheme) outcome" where
  "command_update_digital_out args s =
     obind (digital_oid_lookup (ucast (args ! 0)) s) (\<lambda>a s.
     obind (sched_del_timer (digital_timer a) s) (\<lambda>_ s.
       if \<not> move_queue_empty (do_mq (digital_outs s a)) then
         sched_shutdown ''update_digital_out not valid with active queue'' s
       else
         let value = ucast (args ! 1) :: u8;
             flags = do_flags (digital_outs s a);
             on_flag = (if value \<noteq> 0 then DF_ON else 0);
             s = gpio_out_write (do_pin (digital_outs s a)) (on_flag \<noteq> 0) s
         in if (on_flag = 0) \<noteq> (flags AND DF_DEFAULT_ON = 0) \<and> do_max_duration (digital_outs s a) \<noteq> 0 then
              let (now, s) = timer_read_time s;
                  end_time = now + do_max_duration (digital_outs s a);
                  s = upd_digital a (\<lambda>d. d\<lparr>do_end_time := end_time\<rparr>) s;
                  s = set_waketime (digital_timer a) end_time s;
                  s = set_func (digital_timer a) Digital_load_event s;
                  s = upd_digital a (\<lambda>d. d\<lparr>do_flags := (flags AND DF_DEFAULT_ON) OR on_flag OR DF_CHECK_END\<rparr>) s
              in sched_add_timer (digital_timer a) s
            else Ret () (upd_digital a (\<lambda>d. d\<lparr>do_flags := (flags AND DF_DEFAULT_ON) OR on_flag\<rparr>) s)))"

definition digital_out_reset :: "nat \<Rightarrow> 'z digital_out_state_scheme \<Rightarrow> (unit, 'z digital_out_state_scheme) outcome" where
  "digital_out_reset a s =
     (let default_on = (do_flags (digital_outs s a) AND DF_DEFAULT_ON \<noteq> 0);
          s = gpio_out_write (do_pin (digital_outs s a)) default_on s
      in Ret () (upd_digital a (\<lambda>d. d\<lparr>do_flags := (if default_on then DF_ON OR DF_DEFAULT_ON else 0),
                                      do_mq := move_queue_clear (do_mq d)\<rparr>) s))"

definition digital_out_shutdown :: "'z digital_out_state_scheme \<Rightarrow> (unit, 'z digital_out_state_scheme) outcome" where
  "digital_out_shutdown s = foreach_oid Command_config_digital_out (\<lambda>i a s. digital_out_reset a s) s"

definition command_set_digital_out :: "u32 list \<Rightarrow> 'z digital_out_state_scheme \<Rightarrow> (unit, 'z digital_out_state_scheme) outcome" where
  "command_set_digital_out args s =
     obind (gpio_out_setup (args ! 0) (args ! 1 \<noteq> 0) s) (\<lambda>_ s. Ret () s)"

end
