(* ===== verification/Pwm_Out.thy ===== *)
theory Pwm_Out
  imports Digital_Out
begin

text \<open>
  The hardware PWM outputs: the STM32 driver \<open>src/stm32/hard_pwm.c\<close> and the commands \<open>src/pwmcmds.c\<close>. A timer
  block of the chip is its registers that the driver reads back (\<open>CEN\<close>, \<open>PSC\<close>, \<open>ARR\<close>) and its compare
  registers; the pin table \<open>pwm_regs\<close> and the clock of each block are constants of the build.
\<close>

section \<open>State\<close>

record pwm_info =
  pi_timer :: nat
  pi_pin :: u8
  pi_channel :: u8

record gpio_pwm =
  gp_timer :: nat
  gp_channel :: u8
  gp_hwpwm_ticks :: u32

record tim_regs =
  tim_cen :: bool
  tim_psc :: "16 word"
  tim_arr :: "16 word"
  tim_ccr :: "u8 \<Rightarrow> u32"

record pwm_move =
  pm_waketime :: u32
  pm_value :: "16 word"

record pwm_out_s =
  po_pin :: gpio_pwm
  po_max_duration :: u32
  po_default_value :: "16 word"
  po_mq :: move_queue_head

record pwm_out_state = digital_out_state +
  tims :: "nat \<Rightarrow> tim_regs"
  pwm_outs :: "nat \<Rightarrow> pwm_out_s"
  pwm_moves :: "nat \<Rightarrow> pwm_move"
  cfg_pwm_regs :: "pwm_info list"
  cfg_pclk :: "nat \<Rightarrow> u32"
  cfg_sizeof_pwm_out :: nat
  cfg_sizeof_pwm_move :: nat

definition MAX_PWM :: u32 where [simp]: "MAX_PWM = 32768"

abbreviation pwm_timer :: "nat \<Rightarrow> taddr" where "pwm_timer a \<equiv> Obj_timer a 0"

definition upd_pwm :: "nat \<Rightarrow> (pwm_out_s \<Rightarrow> pwm_out_s) \<Rightarrow> 'z pwm_out_state_scheme \<Rightarrow> 'z pwm_out_state_scheme" where
  "upd_pwm a f s = s\<lparr>pwm_outs := (pwm_outs s)(a := f (pwm_outs s a))\<rparr>"

section \<open>The PWM driver\<close>

definition DIV_ROUND_CLOSEST :: "u32 \<Rightarrow> u32 \<Rightarrow> u32" where
  "DIV_ROUND_CLOSEST x divisor = (x + divisor div 2) div divisor"

definition pwm_duty :: "u32 \<Rightarrow> u32 \<Rightarrow> u32" where
  "pwm_duty val hwpwm_ticks = DIV_ROUND_CLOSEST (val * hwpwm_ticks) MAX_PWM"

definition gpio_pwm_write :: "gpio_pwm \<Rightarrow> u32 \<Rightarrow> 'z pwm_out_state_scheme \<Rightarrow> 'z pwm_out_state_scheme" where
  "gpio_pwm_write g val s =
     s\<lparr>tims := (tims s)(gp_timer g := (tims s (gp_timer g))
        \<lparr>tim_ccr := (tim_ccr (tims s (gp_timer g)))(gp_channel g := pwm_duty val (gp_hwpwm_ticks g))\<rparr>)\<rparr>"

text \<open>
  The loop that looks for the smallest power of two prescaler. \<open>shift\<close> is 16 at most, where every \<open>uint32_t\<close>
  shifted is at most \<open>UINT16_MAX\<close>.
\<close>

function pwm_prescale :: "u32 \<Rightarrow> u32 \<Rightarrow> nat \<Rightarrow> u32 \<Rightarrow> u32 \<times> u32" where
  "pwm_prescale pcycle_time hwpwm_ticks shift prescaler =
     (if hwpwm_ticks > 65535 \<and> shift < 32 then
        let shift = shift + 1;
            hwpwm_ticks = drop_bit shift (pcycle_time + push_bit (shift - 1) 1)
        in pwm_prescale pcycle_time hwpwm_ticks shift (push_bit shift 1)
      else (hwpwm_ticks, prescaler))"
  by pat_completeness auto
termination by (relation "measure (\<lambda>(p, h, shift, q). 32 - shift)") auto

declare pwm_prescale.simps [simp del]

text \<open>The cycle time as timer ticks and prescaler.\<close>

definition pwm_ticks :: "u32 \<Rightarrow> u32 \<times> u32" where
  "pwm_ticks pcycle_time =
     (let (hwpwm_ticks, prescaler) = pwm_prescale pcycle_time pcycle_time 0 1;
          (hwpwm_ticks, prescaler) = (if prescaler > 65536 then (65535, 65536) else (hwpwm_ticks, prescaler));
          hwpwm_ticks = (if hwpwm_ticks < 2 then 2 else hwpwm_ticks)
      in (hwpwm_ticks, prescaler))"

definition gpio_pwm_setup ::
  "u32 \<Rightarrow> u32 \<Rightarrow> u32 \<Rightarrow> 'z pwm_out_state_scheme \<Rightarrow> (gpio_pwm, 'z pwm_out_state_scheme) outcome" where
  "gpio_pwm_setup pin cycle_time val s =
     (case find (\<lambda>p. pi_pin p = ucast pin) (cfg_pwm_regs s) of
        None \<Rightarrow> sched_shutdown ''Not a valid PWM pin'' s
      | Some p \<Rightarrow>
          let pclock_div = cfg_clock_freq s div cfg_pclk s (pi_timer p);
              pclock_div = (if pclock_div > 1 then pclock_div div 2 else pclock_div);
              (hwpwm_ticks, prescaler) = pwm_ticks (cycle_time div pclock_div);
              t = tims s (pi_timer p)
          in obind
               (if tim_cen t then
                  (if tim_psc t \<noteq> ucast (prescaler - 1) then sched_shutdown ''PWM already programmed at different speed'' s
                   else if tim_arr t \<noteq> ucast (hwpwm_ticks - 1) then
                     sched_shutdown ''PWM already programmed with different pulse duration'' s
                   else Ret () s)
                else Ret () (s\<lparr>tims := (tims s)(pi_timer p := t\<lparr>tim_psc := ucast (prescaler - 1), tim_arr := ucast (hwpwm_ticks - 1)\<rparr>)\<rparr>))
               (\<lambda>_ s.
                 if pi_channel p \<notin> {1, 2, 3, 4} then sched_shutdown ''Invalid PWM channel'' s
                 else
                   let channel = \<lparr>gp_timer = pi_timer p, gp_channel = pi_channel p, gp_hwpwm_ticks = hwpwm_ticks\<rparr>;
                       s = gpio_pwm_write channel val s
                   in Ret channel (s\<lparr>tims := (tims s)(pi_timer p := (tims s (pi_timer p))\<lparr>tim_cen := True\<rparr>)\<rparr>)))"

section \<open>Events\<close>

definition pwm_end_event :: "nat \<Rightarrow> 'z pwm_out_state_scheme \<Rightarrow> (sf, 'z pwm_out_state_scheme) outcome" where
  "pwm_end_event a s = sched_shutdown ''Missed scheduling of next hard pwm event'' s"

definition pwm_event :: "nat \<Rightarrow> 'z pwm_out_state_scheme \<Rightarrow> (sf, 'z pwm_out_state_scheme) outcome" where
  "pwm_event a s =
     obind (move_queue_pop (po_mq (pwm_outs s a)) s) (\<lambda>(m, mq) s.
       let s = upd_pwm a (\<lambda>p. p\<lparr>po_mq := mq\<rparr>) s;
           value = pm_value (pwm_moves s m);
           s = gpio_pwm_write (po_pin (pwm_outs s a)) (ucast value) s;
           s = move_free m s;
           p = pwm_outs s a
       in case move_queue_first mq of
            None \<Rightarrow>
              (if value = po_default_value p \<or> po_max_duration p = 0 then Ret SF_DONE s
               else
                 let s = set_waketime (pwm_timer a) (waketime s (pwm_timer a) + po_max_duration p) s
                 in Ret SF_RESCHEDULE (set_func (pwm_timer a) Pwm_end_event s))
          | Some nn \<Rightarrow>
              let wake = pm_waketime (pwm_moves s nn) in
              if value \<noteq> po_default_value p \<and> po_max_duration p \<noteq> 0
                 \<and> timer_is_before (waketime s (pwm_timer a) + po_max_duration p) wake then
                sched_shutdown ''Scheduled pwm event will exceed max_duration'' s
              else Ret SF_RESCHEDULE (set_waketime (pwm_timer a) wake s))"

section \<open>Commands\<close>

definition command_config_pwm_out :: "u32 list \<Rightarrow> 'z pwm_out_state_scheme \<Rightarrow> (unit, 'z pwm_out_state_scheme) outcome" where
  "command_config_pwm_out args s =
     obind (gpio_pwm_setup (args ! 1) (args ! 2) (args ! 3) s) (\<lambda>pin s.
     obind (oid_alloc (ucast (args ! 0)) Command_config_pwm_out (cfg_sizeof_pwm_out s) s) (\<lambda>a s.
       let s = upd_pwm a (\<lambda>_. \<lparr>po_pin = pin, po_max_duration = args ! 5, po_default_value = ucast (args ! 4),
                               po_mq = \<lparr>mq_first = None, mq_last = None\<rparr>\<rparr>) s;
           s = upd_timer (pwm_timer a) (\<lambda>_. zero_timer\<lparr>t_func := Some Pwm_event\<rparr>) s
       in obind (move_queue_setup (cfg_sizeof_pwm_move s) s) (\<lambda>mq s. Ret () (upd_pwm a (\<lambda>p. p\<lparr>po_mq := mq\<rparr>) s))))"

definition command_queue_pwm_out :: "u32 list \<Rightarrow> 'z pwm_out_state_scheme \<Rightarrow> (unit, 'z pwm_out_state_scheme) outcome" where
  "command_queue_pwm_out args s =
     obind (deref (oid_lookup (ucast (args ! 0)) Command_config_pwm_out s)) (\<lambda>a s.
     obind (move_alloc s) (\<lambda>m s.
       let s = s\<lparr>pwm_moves := (pwm_moves s)(m := \<lparr>pm_waketime = args ! 1, pm_value = ucast (args ! 2)\<rparr>)\<rparr> in
       obind (move_queue_push m (po_mq (pwm_outs s a)) s) (\<lambda>(need_add_timer, mq) s.
         let s = upd_pwm a (\<lambda>p. p\<lparr>po_mq := mq\<rparr>) s in
         if \<not> need_add_timer then Ret () s
         else
           obind (sched_del_timer (pwm_timer a) s) (\<lambda>_ s.
             if t_func (timers s (pwm_timer a)) = Some Pwm_end_event
                \<and> timer_is_before (waketime s (pwm_timer a)) (pm_waketime (pwm_moves s m)) then
               sched_shutdown ''Scheduled pwm event will exceed max_duration'' s
             else
               let s = set_func (pwm_timer a) Pwm_event s;
                   s = set_waketime (pwm_timer a) (pm_waketime (pwm_moves s m)) s
               in sched_add_timer (pwm_timer a) s))))"

definition pwm_reset :: "nat \<Rightarrow> 'z pwm_out_state_scheme \<Rightarrow> (unit, 'z pwm_out_state_scheme) outcome" where
  "pwm_reset a s =
     (let s = gpio_pwm_write (po_pin (pwm_outs s a)) (ucast (po_default_value (pwm_outs s a))) s;
          s = set_func (pwm_timer a) Pwm_event s
      in Ret () (upd_pwm a (\<lambda>p. p\<lparr>po_mq := move_queue_clear (po_mq p)\<rparr>) s))"

definition pwm_shutdown :: "'z pwm_out_state_scheme \<Rightarrow> (unit, 'z pwm_out_state_scheme) outcome" where
  "pwm_shutdown s = foreach_oid Command_config_pwm_out (\<lambda>i a s. pwm_reset a s) s"

definition command_set_pwm_out :: "u32 list \<Rightarrow> 'z pwm_out_state_scheme \<Rightarrow> (unit, 'z pwm_out_state_scheme) outcome" where
  "command_set_pwm_out args s = obind (gpio_pwm_setup (args ! 0) (args ! 1) (args ! 2) s) (\<lambda>_ s. Ret () s)"

end
