(* ===== verification/Analog_In.thy ===== *)
theory Analog_In
  imports Pwm_Out
begin

text \<open>
  The analog inputs: the STM32 converter \<open>src/stm32/adc.c\<close> and the sampling of \<open>src/adccmds.c\<close>. Of a converter
  block the model has what the driver uses: whether a conversion was started (\<open>SR.STRT\<close>) and the channel
  (\<open>SQR3\<close>). Whether the conversion is complete (\<open>SR.EOC\<close>) and the converted value (\<open>DR\<close>) are input tapes.
\<close>

section \<open>State\<close>

record gpio_adc =
  ga_adc :: nat
  ga_chan :: nat

record analog_in =
  ai_rest_time :: u32
  ai_sample_time :: u32
  ai_next_begin_time :: u32
  ai_value :: "16 word"
  ai_min_value :: "16 word"
  ai_max_value :: "16 word"
  ai_pin :: gpio_adc
  ai_invalid_count :: u8
  ai_range_check_count :: u8
  ai_state :: u8
  ai_sample_count :: u8

record analog_in_state = pwm_out_state +
  adc_strt :: "nat \<Rightarrow> bool"
  adc_sqr3 :: "nat \<Rightarrow> nat"
  adc_eoc :: "nat \<Rightarrow> bool"
  adc_eoc_pos :: nat
  adc_dr :: "nat \<Rightarrow> 16 word"
  adc_dr_pos :: nat
  analog_ins :: "nat \<Rightarrow> analog_in"
  cfg_adc_pins :: "u8 list"
  cfg_have_adc3 :: bool
  cfg_sizeof_analog_in :: nat

abbreviation analog_timer :: "nat \<Rightarrow> taddr" where "analog_timer a \<equiv> Obj_timer a 0"

definition analog_wake :: string where "analog_wake = ''analog_wake''"

definition upd_analog :: "nat \<Rightarrow> (analog_in \<Rightarrow> analog_in) \<Rightarrow> 'z analog_in_state_scheme \<Rightarrow> 'z analog_in_state_scheme" where
  "upd_analog a f s = s\<lparr>analog_ins := (analog_ins s)(a := f (analog_ins s a))\<rparr>"

section \<open>The converter\<close>

fun find_chan :: "u32 \<Rightarrow> u8 list \<Rightarrow> nat \<Rightarrow> nat option" where
  "find_chan pin [] chan = None"
| "find_chan pin (p # ps) chan = (if ucast p = pin then Some chan else find_chan pin ps (chan + 1))"

definition gpio_adc_setup :: "u32 \<Rightarrow> 'z analog_in_state_scheme \<Rightarrow> (gpio_adc, 'z analog_in_state_scheme) outcome" where
  "gpio_adc_setup pin s =
     (case find_chan pin (cfg_adc_pins s) 0 of
        None \<Rightarrow> sched_shutdown ''Not a valid ADC pin'' s
      | Some chan \<Rightarrow>
          if cfg_have_adc3 s \<and> chan \<ge> 19 then Ret \<lparr>ga_adc = 3, ga_chan = chan - 19\<rparr> s
          else Ret \<lparr>ga_adc = 1, ga_chan = chan\<rparr> s)"

definition gpio_adc_sample :: "gpio_adc \<Rightarrow> 'z analog_in_state_scheme \<Rightarrow> u32 \<times> 'z analog_in_state_scheme" where
  "gpio_adc_sample g s =
     (let eoc = adc_eoc s (adc_eoc_pos s); s = s\<lparr>adc_eoc_pos := Suc (adc_eoc_pos s)\<rparr> in
      if adc_strt s (ga_adc g) then
        (if \<not> eoc \<or> adc_sqr3 s (ga_adc g) \<noteq> ga_chan g then (timer_from_us s 20, s) else (0, s))
      else
        (timer_from_us s 20,
         s\<lparr>adc_sqr3 := (adc_sqr3 s)(ga_adc g := ga_chan g), adc_strt := (adc_strt s)(ga_adc g := True)\<rparr>))"

definition gpio_adc_read :: "gpio_adc \<Rightarrow> 'z analog_in_state_scheme \<Rightarrow> 16 word \<times> 'z analog_in_state_scheme" where
  "gpio_adc_read g s =
     (adc_dr s (adc_dr_pos s), s\<lparr>adc_strt := (adc_strt s)(ga_adc g := False), adc_dr_pos := Suc (adc_dr_pos s)\<rparr>)"

definition gpio_adc_cancel_sample :: "gpio_adc \<Rightarrow> 'z analog_in_state_scheme \<Rightarrow> 'z analog_in_state_scheme" where
  "gpio_adc_cancel_sample g s =
     (if adc_strt s (ga_adc g) \<and> adc_sqr3 s (ga_adc g) = ga_chan g then snd (gpio_adc_read g s) else s)"

section \<open>Sampling\<close>

text \<open>The end of a cycle of samples: the range check and the start of the next cycle.\<close>

definition analog_finish :: "nat \<Rightarrow> 'z analog_in_state_scheme \<Rightarrow> (sf, 'z analog_in_state_scheme) outcome" where
  "analog_finish a s =
     (let x = analog_ins s a in
      obind
        (if ai_value x \<ge> ai_min_value x \<and> ai_value x \<le> ai_max_value x then
           Ret () (upd_analog a (\<lambda>x. x\<lparr>ai_invalid_count := 0\<rparr>) s)
         else
           let s = upd_analog a (\<lambda>x. x\<lparr>ai_invalid_count := ai_invalid_count x + 1\<rparr>) s in
           if ai_invalid_count (analog_ins s a) \<ge> ai_range_check_count (analog_ins s a) then
             obind (sched_try_shutdown ''ADC out of range'' s) (\<lambda>_ s.
               Ret () (upd_analog a (\<lambda>x. x\<lparr>ai_invalid_count := 0\<rparr>) s))
           else Ret () s)
        (\<lambda>_ s.
          let s = sched_wake_task analog_wake s;
              s = upd_analog a (\<lambda>x. x\<lparr>ai_next_begin_time := ai_next_begin_time x + ai_rest_time x\<rparr>) s
          in Ret SF_RESCHEDULE (set_waketime (analog_timer a) (ai_next_begin_time (analog_ins s a)) s)))"

definition analog_in_event :: "nat \<Rightarrow> 'z analog_in_state_scheme \<Rightarrow> (sf, 'z analog_in_state_scheme) outcome" where
  "analog_in_event a s =
     (let (sample_delay, s) = gpio_adc_sample (ai_pin (analog_ins s a)) s in
      if sample_delay \<noteq> 0 then
        Ret SF_RESCHEDULE (set_waketime (analog_timer a) (waketime s (analog_timer a) + sample_delay) s)
      else
        let (value, s) = gpio_adc_read (ai_pin (analog_ins s a)) s;
            x = analog_ins s a;
            over = (ai_state x \<ge> ai_sample_count x);
            state = (if over then 0 else ai_state x);
            value = (if over then value else value + ai_value x);
            s = upd_analog a (\<lambda>x. x\<lparr>ai_value := value, ai_state := state + 1\<rparr>) s;
            x = analog_ins s a
        in if ai_state x < ai_sample_count x then
             Ret SF_RESCHEDULE (set_waketime (analog_timer a) (waketime s (analog_timer a) + ai_sample_time x) s)
           else analog_finish a s)"

section \<open>Commands\<close>

definition command_config_analog_in :: "u32 list \<Rightarrow> 'z analog_in_state_scheme \<Rightarrow> (unit, 'z analog_in_state_scheme) outcome" where
  "command_config_analog_in args s =
     obind (gpio_adc_setup (args ! 1) s) (\<lambda>pin s.
     obind (oid_alloc (ucast (args ! 0)) Command_config_analog_in (cfg_sizeof_analog_in s) s) (\<lambda>a s.
       let s = upd_analog a (\<lambda>_. \<lparr>ai_rest_time = 0, ai_sample_time = 0, ai_next_begin_time = 0, ai_value = 0,
                 ai_min_value = 0, ai_max_value = 0, ai_pin = pin, ai_invalid_count = 0, ai_range_check_count = 0,
                 ai_state = 1, ai_sample_count = 0\<rparr>) s
       in Ret () (upd_timer (analog_timer a) (\<lambda>_. zero_timer\<lparr>t_func := Some Analog_in_event\<rparr>) s)))"

definition command_query_analog_in :: "u32 list \<Rightarrow> 'z analog_in_state_scheme \<Rightarrow> (unit, 'z analog_in_state_scheme) outcome" where
  "command_query_analog_in args s =
     obind (deref (oid_lookup (ucast (args ! 0)) Command_config_analog_in s)) (\<lambda>a s.
     obind (sched_del_timer (analog_timer a) s) (\<lambda>_ s.
       let s = gpio_adc_cancel_sample (ai_pin (analog_ins s a)) s;
           s = upd_analog a (\<lambda>x. x\<lparr>ai_next_begin_time := args ! 1\<rparr>) s;
           s = set_waketime (analog_timer a) (ai_next_begin_time (analog_ins s a)) s;
           s = upd_analog a (\<lambda>x. x\<lparr>ai_sample_time := args ! 2, ai_sample_count := ucast (args ! 3)\<rparr>) s;
           s = upd_analog a (\<lambda>x. x\<lparr>ai_state := ai_sample_count x + 1, ai_rest_time := args ! 4,
                 ai_min_value := ucast (args ! 5), ai_max_value := ucast (args ! 6), ai_range_check_count := ucast (args ! 7)\<rparr>) s
       in if ai_sample_count (analog_ins s a) = 0 then Ret () s
          else sched_add_timer (analog_timer a) s))"

definition analog_in_task :: "'z analog_in_state_scheme \<Rightarrow> (unit, 'z analog_in_state_scheme) outcome" where
  "analog_in_task s =
     (let (woken, s) = sched_check_wake analog_wake s in
      if \<not> woken then Ret () s
      else foreach_oid Command_config_analog_in (\<lambda>oid a s.
        let x = analog_ins s a in
        if ai_state x \<noteq> ai_sample_count x then Ret () s
        else
          let s = upd_analog a (\<lambda>x. x\<lparr>ai_state := ai_state x + 1\<rparr>) s
          in Ret () (sendf ''analog_in_state oid=%c next_clock=%u value=%hu''
               [Num (ucast oid), Num (ai_next_begin_time x), Num (ucast (ai_value x))] s)) s)"

definition analog_in_shutdown :: "'z analog_in_state_scheme \<Rightarrow> (unit, 'z analog_in_state_scheme) outcome" where
  "analog_in_shutdown s =
     foreach_oid Command_config_analog_in (\<lambda>i a s.
       let s = gpio_adc_cancel_sample (ai_pin (analog_ins s a)) s in
       if ai_sample_count (analog_ins s a) \<noteq> 0 then
         let s = upd_analog a (\<lambda>x. x\<lparr>ai_state := ai_sample_count x + 1, ai_next_begin_time := ai_next_begin_time x + ai_rest_time x\<rparr>) s
         in sched_add_timer (analog_timer a) (set_waketime (analog_timer a) (ai_next_begin_time (analog_ins s a)) s)
       else Ret () s) s"

end
