(* ===== verification/Buttons.thy ===== *)
theory Buttons
  imports Analog_In
begin

text \<open>
  The user interface buttons, \<open>src/buttons.c\<close>, and the edge counter, \<open>src/pulse_counter.c\<close>. The array
  \<open>reports[8]\<close> is a list of eight bytes, read and written with bounds checks (an access outside it is a
  \<open>Fault\<close>); the array of pins has \<open>button_count\<close> entries, \<^const>\<open>None\<close> one that was not set up.
\<close>

section \<open>Buttons\<close>

record buttons =
  bt_rest_ticks :: u32
  bt_pressed :: u8
  bt_last_pressed :: u8
  bt_report_count :: u8
  bt_reports :: "u8 list"
  bt_ack_count :: u8
  bt_retransmit_state :: u8
  bt_retransmit_count :: u8
  bt_button_count :: u8
  bt_pins :: "u32 option list"

record counter =
  ct_poll_ticks :: u32
  ct_sample_ticks :: u32
  ct_next_sample_time :: u32
  ct_count :: u32
  ct_last_count_time :: u32
  ct_flags :: u8
  ct_pin :: u32

record input_state = analog_in_state +
  buttons_objs :: "nat \<Rightarrow> buttons"
  counters :: "nat \<Rightarrow> counter"
  cfg_sizeof_buttons :: nat
  cfg_sizeof_gpio_in :: nat
  cfg_sizeof_counter :: nat

definition BF_NO_RETRANSMIT :: u8 where [simp]: "BF_NO_RETRANSMIT = 0x80"

definition BF_PENDING :: u8 where [simp]: "BF_PENDING = 0xff"

definition BF_ACKED :: u8 where [simp]: "BF_ACKED = 0xfe"

abbreviation buttons_time :: "nat \<Rightarrow> taddr" where "buttons_time a \<equiv> Obj_timer a 0"

definition buttons_wake :: string where "buttons_wake = ''buttons_wake''"

definition upd_buttons :: "nat \<Rightarrow> (buttons \<Rightarrow> buttons) \<Rightarrow> 'z input_state_scheme \<Rightarrow> 'z input_state_scheme" where
  "upd_buttons a f s = s\<lparr>buttons_objs := (buttons_objs s)(a := f (buttons_objs s a))\<rparr>"

text \<open>The loop that reads the pins, \<open>bit\<close> and \<open>status\<close> as in the code.\<close>

fun read_pins :: "u32 option list \<Rightarrow> u8 \<Rightarrow> u8 \<Rightarrow> 'z gpio_state_scheme \<Rightarrow> (u8, 'z gpio_state_scheme) outcome" where
  "read_pins [] bt status s = Ret status s"
| "read_pins (None # ps) bt status s = Fault"
| "read_pins (Some p # ps) bt status s =
     (let (val, s) = gpio_in_read p s in read_pins ps (push_bit 1 bt) (if val then status OR bt else status) s)"

text \<open>The debouncing of one sample: the new state of the buttons, without the retransmit timer.\<close>

definition buttons_debounce :: "u8 \<Rightarrow> buttons \<Rightarrow> (bool \<times> buttons) option" where
  "buttons_debounce status b =
     (let diff = status XOR bt_pressed b;
          debounced = NOT (status XOR bt_last_pressed b)
      in if diff \<noteq> 0 \<and> diff AND debounced \<noteq> 0 then
           let b = b\<lparr>bt_pressed := (bt_pressed b AND NOT debounced) OR (status AND debounced)\<rparr> in
           if bt_report_count b < 8 then
             (case rd (bt_reports b) (unat (bt_report_count b)) of
                None \<Rightarrow> None
              | Some _ \<Rightarrow>
                  Some (True, b\<lparr>bt_reports := (bt_reports b)[unat (bt_report_count b) := bt_pressed b],
                                bt_report_count := bt_report_count b + 1, bt_retransmit_state := BF_PENDING,
                                bt_last_pressed := status\<rparr>))
           else Some (False, b\<lparr>bt_last_pressed := status\<rparr>)
         else Some (False, b\<lparr>bt_last_pressed := status\<rparr>))"

text \<open>The end of \<open>buttons_event\<close>: the retransmit timeout and the next wake time.\<close>

definition buttons_retransmit :: "nat \<Rightarrow> 'z input_state_scheme \<Rightarrow> 'z input_state_scheme" where
  "buttons_retransmit a s =
     (let retransmit_state = bt_retransmit_state (buttons_objs s a);
          s = (if retransmit_state AND BF_NO_RETRANSMIT = 0 then
                 let retransmit_state = retransmit_state - 1;
                     s = (if retransmit_state AND BF_NO_RETRANSMIT \<noteq> 0 then sched_wake_task buttons_wake s else s)
                 in upd_buttons a (\<lambda>b. b\<lparr>bt_retransmit_state := retransmit_state\<rparr>) s
               else s)
      in set_waketime (buttons_time a) (waketime s (buttons_time a) + bt_rest_ticks (buttons_objs s a)) s)"

definition buttons_event :: "nat \<Rightarrow> 'z input_state_scheme \<Rightarrow> (sf, 'z input_state_scheme) outcome" where
  "buttons_event a s =
     obind (read_pins (take (unat (bt_button_count (buttons_objs s a))) (bt_pins (buttons_objs s a))) 1 0 s) (\<lambda>status s.
       case buttons_debounce status (buttons_objs s a) of
         None \<Rightarrow> Fault
       | Some (report, b) \<Rightarrow>
           let s = upd_buttons a (\<lambda>_. b) s;
               s = (if report then sched_wake_task buttons_wake s else s)
           in Ret SF_RESCHEDULE (buttons_retransmit a s))"

definition command_config_buttons :: "u32 list \<Rightarrow> 'z input_state_scheme \<Rightarrow> (unit, 'z input_state_scheme) outcome" where
  "command_config_buttons args s =
     (let button_count = ucast (args ! 1) :: u8 in
      if button_count > 8 then sched_shutdown ''Max of 8 buttons'' s
      else
        obind (oid_alloc (ucast (args ! 0)) Command_config_buttons
                 (cfg_sizeof_buttons s + cfg_sizeof_gpio_in s * unat button_count) s) (\<lambda>a s.
          let s = upd_buttons a (\<lambda>_. \<lparr>bt_rest_ticks = 0, bt_pressed = 0, bt_last_pressed = 0, bt_report_count = 0,
                    bt_reports = replicate 8 0, bt_ack_count = 0, bt_retransmit_state = 0, bt_retransmit_count = 0,
                    bt_button_count = button_count, bt_pins = replicate (unat button_count) None\<rparr>) s
          in Ret () (upd_timer (buttons_time a) (\<lambda>_. zero_timer\<lparr>t_func := Some Buttons_event\<rparr>) s)))"

definition command_buttons_add :: "u32 list \<Rightarrow> 'z input_state_scheme \<Rightarrow> (unit, 'z input_state_scheme) outcome" where
  "command_buttons_add args s =
     obind (deref (oid_lookup (ucast (args ! 0)) Command_config_buttons s)) (\<lambda>a s.
       let pos = ucast (args ! 1) :: u8 in
       if pos \<ge> bt_button_count (buttons_objs s a) then sched_shutdown ''Set button past maximum button count'' s
       else obind (gpio_in_setup (args ! 2) (args ! 3) s) (\<lambda>pin s.
         Ret () (upd_buttons a (\<lambda>b. b\<lparr>bt_pins := (bt_pins b)[unat pos := Some pin]\<rparr>) s)))"

definition command_buttons_query :: "u32 list \<Rightarrow> 'z input_state_scheme \<Rightarrow> (unit, 'z input_state_scheme) outcome" where
  "command_buttons_query args s =
     obind (deref (oid_lookup (ucast (args ! 0)) Command_config_buttons s)) (\<lambda>a s.
     obind (sched_del_timer (buttons_time a) s) (\<lambda>_ s.
       let s = set_waketime (buttons_time a) (args ! 1) s;
           s = upd_buttons a (\<lambda>b. b\<lparr>bt_rest_ticks := args ! 2, bt_pressed := ucast (args ! 4), bt_last_pressed := ucast (args ! 4),
                 bt_ack_count := 0, bt_report_count := 0, bt_retransmit_state := BF_ACKED, bt_retransmit_count := ucast (args ! 3)\<rparr>) s
       in if bt_retransmit_count (buttons_objs s a) \<ge> BF_NO_RETRANSMIT then
            sched_shutdown ''Invalid buttons retransmit count'' s
          else if bt_rest_ticks (buttons_objs s a) = 0 then Ret () s
          else sched_add_timer (buttons_time a) s))"

text \<open>The loop of \<open>command_buttons_ack\<close> that moves the pending reports to the front; \<^const>\<open>None\<close> is an access out of range.\<close>

fun shift_reports :: "nat \<Rightarrow> nat \<Rightarrow> nat \<Rightarrow> u8 list \<Rightarrow> u8 list option" where
  "shift_reports i 0 count rs = Some rs"
| "shift_reports i (Suc n) count rs =
     (case rd rs (i + count) of
        None \<Rightarrow> None
      | Some x \<Rightarrow> shift_reports (i + 1) n count (rs[i := x]))"

definition buttons_ack :: "u8 \<Rightarrow> buttons \<Rightarrow> buttons option" where
  "buttons_ack count b =
     (let b = b\<lparr>bt_ack_count := bt_ack_count b + count\<rparr> in
      if count \<ge> bt_report_count b then Some (b\<lparr>bt_report_count := 0, bt_retransmit_state := BF_ACKED\<rparr>)
      else
        let pending = bt_report_count b - count in
        map_option (\<lambda>rs. b\<lparr>bt_reports := rs, bt_report_count := pending\<rparr>)
          (shift_reports 0 (unat pending) (unat count) (bt_reports b)))"

definition command_buttons_ack :: "u32 list \<Rightarrow> 'z input_state_scheme \<Rightarrow> (unit, 'z input_state_scheme) outcome" where
  "command_buttons_ack args s =
     obind (deref (oid_lookup (ucast (args ! 0)) Command_config_buttons s)) (\<lambda>a s.
       case buttons_ack (ucast (args ! 1)) (buttons_objs s a) of
         None \<Rightarrow> Fault
       | Some b \<Rightarrow> Ret () (upd_buttons a (\<lambda>_. b) s))"

definition buttons_task :: "'z input_state_scheme \<Rightarrow> (unit, 'z input_state_scheme) outcome" where
  "buttons_task s =
     (let (woken, s) = sched_check_wake buttons_wake s in
      if \<not> woken then Ret () s
      else foreach_oid Command_config_buttons (\<lambda>oid a s.
        let b = buttons_objs s a in
        if bt_retransmit_state b \<noteq> BF_PENDING then Ret () s
        else if bt_report_count b = 0 then Ret () s
        else
          let s = upd_buttons a (\<lambda>b. b\<lparr>bt_retransmit_state := bt_retransmit_count b\<rparr>) s
          in Ret () (sendf ''buttons_state oid=%c ack_count=%c state=%*s''
               [Num (ucast oid), Num (ucast (bt_ack_count b)), Bytes (take (unat (bt_report_count b)) (bt_reports b))] s)) s)"

section \<open>Edge counter\<close>

definition CF_PENDING :: u8 where [simp]: "CF_PENDING = 1"

abbreviation counter_timer :: "nat \<Rightarrow> taddr" where "counter_timer a \<equiv> Obj_timer a 0"

definition counter_wake :: string where "counter_wake = ''counter_wake''"

definition upd_counter :: "nat \<Rightarrow> (counter \<Rightarrow> counter) \<Rightarrow> 'z input_state_scheme \<Rightarrow> 'z input_state_scheme" where
  "upd_counter a f s = s\<lparr>counters := (counters s)(a := f (counters s a))\<rparr>"

text \<open>The two parts of \<open>counter_event\<close>: counting an edge and asking for a report.\<close>

definition counter_edge :: "u32 \<Rightarrow> bool \<Rightarrow> counter \<Rightarrow> counter" where
  "counter_edge time value c =
     (if ct_count c AND 1 \<noteq> of_bool8 value then c\<lparr>ct_count := ct_count c + 1, ct_last_count_time := time\<rparr> else c)"

definition counter_due :: "u32 \<Rightarrow> counter \<Rightarrow> bool \<times> counter" where
  "counter_due time c =
     (if timer_is_before (ct_next_sample_time c) time
      then (True, c\<lparr>ct_flags := ct_flags c OR CF_PENDING, ct_next_sample_time := time + ct_sample_ticks c\<rparr>)
      else (False, c))"

definition counter_event :: "nat \<Rightarrow> 'z input_state_scheme \<Rightarrow> (sf, 'z input_state_scheme) outcome" where
  "counter_event a s =
     (let time = waketime s (counter_timer a);
          (value, s) = gpio_in_read (ct_pin (counters s a)) s;
          (report, c) = counter_due time (counter_edge time value (counters s a));
          s = upd_counter a (\<lambda>_. c) s;
          s = (if report then sched_wake_task counter_wake s else s)
      in Ret SF_RESCHEDULE (set_waketime (counter_timer a) (waketime s (counter_timer a) + ct_poll_ticks (counters s a)) s))"

definition command_config_counter :: "u32 list \<Rightarrow> 'z input_state_scheme \<Rightarrow> (unit, 'z input_state_scheme) outcome" where
  "command_config_counter args s =
     obind (oid_alloc (ucast (args ! 0)) Command_config_counter (cfg_sizeof_counter s) s) (\<lambda>a s.
       let s = upd_counter a (\<lambda>_. \<lparr>ct_poll_ticks = 0, ct_sample_ticks = 0, ct_next_sample_time = 0, ct_count = 0,
                 ct_last_count_time = 0, ct_flags = 0, ct_pin = 0\<rparr>) s;
           s = upd_timer (counter_timer a) (\<lambda>_. zero_timer) s
       in obind (gpio_in_setup (args ! 1) (args ! 2) s) (\<lambda>pin s.
            Ret () (set_func (counter_timer a) Counter_event (upd_counter a (\<lambda>c. c\<lparr>ct_pin := pin\<rparr>) s))))"

definition command_query_counter :: "u32 list \<Rightarrow> 'z input_state_scheme \<Rightarrow> (unit, 'z input_state_scheme) outcome" where
  "command_query_counter args s =
     obind (deref (oid_lookup (ucast (args ! 0)) Command_config_counter s)) (\<lambda>a s.
     obind (sched_del_timer (counter_timer a) s) (\<lambda>_ s.
       let s = set_waketime (counter_timer a) (args ! 1) s;
           s = upd_counter a (\<lambda>c. c\<lparr>ct_poll_ticks := args ! 2, ct_sample_ticks := args ! 3,
                 ct_next_sample_time := waketime s (counter_timer a)\<rparr>) s
       in sched_add_timer (counter_timer a) s))"

definition counter_task :: "'z input_state_scheme \<Rightarrow> (unit, 'z input_state_scheme) outcome" where
  "counter_task s =
     (let (woken, s) = sched_check_wake counter_wake s in
      if \<not> woken then Ret () s
      else foreach_oid Command_config_counter (\<lambda>oid a s.
        let c = counters s a in
        if ct_flags c AND CF_PENDING = 0 then Ret () s
        else
          let w = waketime s (counter_timer a);
              s = upd_counter a (\<lambda>c. c\<lparr>ct_flags := ct_flags c AND NOT CF_PENDING\<rparr>) s
          in Ret () (sendf ''counter_state oid=%c next_clock=%u count=%u count_clock=%u''
               [Num (ucast oid), Num w, Num (ct_count c), Num (ct_last_count_time c)] s)) s)"

end
