(* ===== verification/Stepper_Lib.thy ===== *)
theory Stepper_Lib
  imports Stepper
begin

text \<open>
The library of the stepper proofs: how the fields change under each operation, the loading of a move, the position counter, the minimum time between events, and the effect of a stop.
\<close>

lemma upd_stepper_simps [simp]:
  "steppers (upd_stepper a f s) = (steppers s)(a := f (steppers s a))"
  "timers (upd_stepper a f s) = timers s" "stepper_moves (upd_stepper a f s) = stepper_moves s"
  "gpio_level (upd_stepper a f s) = gpio_level s" "clk (upd_stepper a f s) = clk s" "clk_pos (upd_stepper a f s) = clk_pos s"
  "move_next (upd_stepper a f s) = move_next s" "move_free_list (upd_stepper a f s) = move_free_list s"
  "cfg_clock_freq (upd_stepper a f s) = cfg_clock_freq s"
  "HAVE_EDGE_OPTIMIZATION (upd_stepper a f s) = HAVE_EDGE_OPTIMIZATION s"
  "HAVE_AVR_OPTIMIZATION (upd_stepper a f s) = HAVE_AVR_OPTIMIZATION s"
  by (simp_all add: upd_stepper_def HAVE_EDGE_OPTIMIZATION_def HAVE_AVR_OPTIMIZATION_def)

lemma set_waketime_simps [simp]:
  "waketime (set_waketime t w s) x = (if x = t then w else waketime s x)"
  "t_func (timers (set_waketime t w s) x) = t_func (timers s x)"
  "t_next (timers (set_waketime t w s) x) = t_next (timers s x)"
  by (simp_all add: set_waketime_def upd_timer_def)

lemma set_waketime_stepper [simp]:
  fixes s :: "'z stepper_state_scheme"
  shows "steppers (set_waketime t w s) = steppers s" "stepper_moves (set_waketime t w s) = stepper_moves s"
    "gpio_level (set_waketime t w s) = gpio_level s" "clk (set_waketime t w s) = clk s" "clk_pos (set_waketime t w s) = clk_pos s"
    "move_next (set_waketime t w s) = move_next s" "move_free_list (set_waketime t w s) = move_free_list s"
    "cfg_clock_freq (set_waketime t w s) = cfg_clock_freq s"
    "HAVE_EDGE_OPTIMIZATION (set_waketime t w s) = HAVE_EDGE_OPTIMIZATION s"
    "HAVE_AVR_OPTIMIZATION (set_waketime t w s) = HAVE_AVR_OPTIMIZATION s"
  by (simp_all add: set_waketime_def upd_timer_def HAVE_EDGE_OPTIMIZATION_def HAVE_AVR_OPTIMIZATION_def)

lemma toggle_stepper [simp]:
  fixes s :: "'z stepper_state_scheme"
  shows "steppers (gpio_out_toggle_noirq p s) = steppers s" "stepper_moves (gpio_out_toggle_noirq p s) = stepper_moves s"
    "timers (gpio_out_toggle_noirq p s) = timers s"
    "gpio_level (gpio_out_toggle_noirq p s) = (gpio_level s)(p := \<not> gpio_level s p)"
    "clk (gpio_out_toggle_noirq p s) = clk s" "clk_pos (gpio_out_toggle_noirq p s) = clk_pos s"
    "move_next (gpio_out_toggle_noirq p s) = move_next s" "move_free_list (gpio_out_toggle_noirq p s) = move_free_list s"
    "cfg_clock_freq (gpio_out_toggle_noirq p s) = cfg_clock_freq s"
    "HAVE_EDGE_OPTIMIZATION (gpio_out_toggle_noirq p s) = HAVE_EDGE_OPTIMIZATION s"
    "HAVE_AVR_OPTIMIZATION (gpio_out_toggle_noirq p s) = HAVE_AVR_OPTIMIZATION s"
  by (simp_all add: gpio_out_toggle_noirq_def HAVE_EDGE_OPTIMIZATION_def HAVE_AVR_OPTIMIZATION_def)

lemma edge_step:
  fixes s :: "'z stepper_state_scheme"
  assumes "st_count (steppers s a) \<noteq> 1"
  obtains s' where "stepper_event_edge a s = Ret SF_RESCHEDULE s'"
    "steppers s' = (steppers s)(a := (steppers s a)\<lparr>st_count := st_count (steppers s a) - 1,
        st_interval := st_interval (steppers s a) + scast (st_add (steppers s a))\<rparr>)"
    "waketime s' (step_time a) = waketime s (step_time a) + st_interval (steppers s a)"
    "gpio_level s' = (gpio_level s)(st_step_pin (steppers s a) := \<not> gpio_level s (st_step_pin (steppers s a)))"
  by (rule that [OF _ _ _ _]) (use assms in \<open>auto simp: stepper_event_edge_def Let_def\<close>)

fun run_edge :: "nat \<Rightarrow> nat \<Rightarrow> 'z stepper_state_scheme \<Rightarrow> (unit, 'z stepper_state_scheme) outcome" where
  "run_edge 0 a s = Ret () s"
| "run_edge (Suc k) a s = obind (stepper_event_edge a s) (\<lambda>_ s. run_edge k a s)"

lemma tri_Suc: "Suc k * k div 2 = k * (k - 1) div 2 + k"
proof (cases k)
  case (Suc j)
  have "Suc k * k = k * (k - 1) + 2 * k" by (simp add: Suc)
  then show ?thesis by simp
qed simp

lemma run_edge_times:
  fixes s :: "'z stepper_state_scheme"
  assumes "k < unat (st_count (steppers s a))"
  shows "\<exists>s'. run_edge k a s = Ret () s'
      \<and> waketime s' (step_time a) = waketime s (step_time a) + of_nat k * st_interval (steppers s a)
          + of_nat (k * (k - 1) div 2) * scast (st_add (steppers s a))
      \<and> st_count (steppers s' a) = st_count (steppers s a) - of_nat k
      \<and> gpio_level s' (st_step_pin (steppers s a)) = (gpio_level s (st_step_pin (steppers s a)) \<noteq> odd k)
      \<and> (\<forall>b. b \<noteq> a \<longrightarrow> steppers s' b = steppers s b)
      \<and> (\<forall>p. p \<noteq> st_step_pin (steppers s a) \<longrightarrow> gpio_level s' p = gpio_level s p)"
  using assms
proof (induction k arbitrary: s)
  case (Suc k)
  let ?x = "steppers s a"
  have c: "st_count ?x \<noteq> 1" using Suc.prems by auto
  obtain s1 where s1: "stepper_event_edge a s = Ret SF_RESCHEDULE s1"
    "steppers s1 = (steppers s)(a := ?x\<lparr>st_count := st_count ?x - 1, st_interval := st_interval ?x + scast (st_add ?x)\<rparr>)"
    "waketime s1 (step_time a) = waketime s (step_time a) + st_interval ?x"
    "gpio_level s1 = (gpio_level s)(st_step_pin ?x := \<not> gpio_level s (st_step_pin ?x))"
    using edge_step [OF c] by blast
  have "unat (st_count ?x - 1) = unat (st_count ?x) - 1"
    using Suc.prems by (metis less_nat_zero_code unat_eq_zero unat_minus_one)
  then have "k < unat (st_count (steppers s1 a))" using Suc.prems s1(2) by simp
  from Suc.IH [OF this] obtain s' where s': "run_edge k a s1 = Ret () s'"
    "waketime s' (step_time a) = waketime s1 (step_time a) + of_nat k * st_interval (steppers s1 a)
          + of_nat (k * (k - 1) div 2) * scast (st_add (steppers s1 a))"
    "st_count (steppers s' a) = st_count (steppers s1 a) - of_nat k"
    "gpio_level s' (st_step_pin (steppers s1 a)) = (gpio_level s1 (st_step_pin (steppers s1 a)) \<noteq> odd k)"
    "\<forall>b. b \<noteq> a \<longrightarrow> steppers s' b = steppers s1 b"
    "\<forall>p. p \<noteq> st_step_pin (steppers s1 a) \<longrightarrow> gpio_level s' p = gpio_level s1 p" by blast
  have t: "Suc k * (Suc k - 1) div 2 = k * (k - 1) div 2 + k" using tri_Suc [of k] by simp
  have "waketime s' (step_time a) = waketime s (step_time a) + of_nat (Suc k) * st_interval ?x
          + of_nat (Suc k * (Suc k - 1) div 2) * scast (st_add ?x)"
    unfolding t using s'(2) s1(2,3) by (simp add: algebra_simps)
  then show ?case using s1 s' by (intro exI [of _ s']) (auto simp: algebra_simps)
qed simp

lemma move_free_stepper [simp]:
  fixes s :: "'z stepper_state_scheme"
  shows "steppers (move_free m s) = steppers s" "stepper_moves (move_free m s) = stepper_moves s"
    "timers (move_free m s) = timers s" "gpio_level (move_free m s) = gpio_level s" "clk (move_free m s) = clk s"
    "clk_pos (move_free m s) = clk_pos s" "cfg_clock_freq (move_free m s) = cfg_clock_freq s"
    "HAVE_EDGE_OPTIMIZATION (move_free m s) = HAVE_EDGE_OPTIMIZATION s"
    "HAVE_AVR_OPTIMIZATION (move_free m s) = HAVE_AVR_OPTIMIZATION s"
  by (simp_all add: move_free_def set_move_next_def HAVE_EDGE_OPTIMIZATION_def HAVE_AVR_OPTIMIZATION_def)

text \<open>The state after the move \<open>m\<close> is popped and its values are in the stepper, before the step time is set.\<close>

definition load_state :: "nat \<Rightarrow> nat \<Rightarrow> 'z stepper_state_scheme \<Rightarrow> 'z stepper_state_scheme" where
  "load_state a m s =
     upd_stepper a (\<lambda>x. x\<lparr>st_mq := (st_mq x)\<lparr>mq_first := move_next s m\<rparr>,
         st_position := (if m_flags (stepper_moves s m) AND MF_DIR \<noteq> 0 then - st_position x else st_position x)
           + ucast (m_count (stepper_moves s m)),
         st_add := m_add (stepper_moves s m),
         st_interval := m_interval (stepper_moves s m) + scast (m_add (stepper_moves s m))\<rparr>) (move_free m s)"

definition load_optimized :: "nat \<Rightarrow> nat \<Rightarrow> 'z stepper_state_scheme \<Rightarrow> 'z stepper_state_scheme" where
  "load_optimized a m s =
     (let s' = load_state a m s;
          s' = set_waketime (step_time a) (waketime s (step_time a) + m_interval (stepper_moves s m)) s';
          s' = upd_stepper a (\<lambda>x. x\<lparr>st_count := ucast (m_count (stepper_moves s m))\<rparr>) s';
          s' = (if HAVE_EDGE_OPTIMIZATION s then s'
                else upd_stepper a (\<lambda>x. x\<lparr>st_flags := (if m_add (stepper_moves s m) \<noteq> 0 then st_flags x OR SF_HAVE_ADD
                                                      else st_flags x AND NOT SF_HAVE_ADD)\<rparr>) s')
      in if m_flags (stepper_moves s m) AND MF_DIR \<noteq> 0 then gpio_out_toggle_noirq (st_dir_pin (steppers s a)) s' else s')"

lemma upd_stepper_twice: "upd_stepper a f (upd_stepper a g s) = upd_stepper a (\<lambda>x. f (g x)) s"
  by (simp add: upd_stepper_def)

lemma upd_stepper_free: "move_free m (upd_stepper a g s) = upd_stepper a g (move_free m s)"
  by (simp add: upd_stepper_def move_free_def set_move_next_def)

lemma load_next_eq:
  assumes "mq_first (st_mq (steppers s a)) = Some m"
  shows "stepper_load_next a s =
     (if (HAVE_EDGE_OPTIMIZATION s \<or> HAVE_AVR_OPTIMIZATION s) \<and> has_flag s a SF_OPTIMIZED_PATH
      then Ret SF_RESCHEDULE (load_optimized a m s)
      else stepper_load_full a (m_interval (stepper_moves s m)) (m_count (stepper_moves s m))
             (m_flags (stepper_moves s m) AND MF_DIR \<noteq> 0) (load_state a m s))"
proof -
  let ?turn = "m_flags (stepper_moves s m) AND MF_DIR \<noteq> 0"
  have l: "upd_stepper a (\<lambda>x. x\<lparr>st_add := m_add (stepper_moves s m), st_interval := m_interval (stepper_moves s m) + scast (m_add (stepper_moves s m))\<rparr>)
      (upd_stepper a (\<lambda>x. x\<lparr>st_position := (if ?turn then - st_position x else st_position x) + ucast (m_count (stepper_moves s m))\<rparr>)
        (move_free m (upd_stepper a (\<lambda>x. x\<lparr>st_mq := (st_mq (steppers s a))\<lparr>mq_first := move_next s m\<rparr>\<rparr>) s))) = load_state a m s"
    unfolding upd_stepper_free upd_stepper_twice by (simp add: upd_stepper_def load_state_def)
  have f: "has_flag (load_state a m s) a f = has_flag s a f" "waketime (load_state a m s) t = waketime s t"
    "HAVE_EDGE_OPTIMIZATION (load_state a m s) = HAVE_EDGE_OPTIMIZATION s"
    "HAVE_AVR_OPTIMIZATION (load_state a m s) = HAVE_AVR_OPTIMIZATION s"
    "st_dir_pin (steppers (load_state a m s) a) = st_dir_pin (steppers s a)" for f t
    by (simp_all add: load_state_def has_flag_def)
  show ?thesis
    using assms unfolding stepper_load_next_def move_queue_empty_def move_queue_pop_def load_optimized_def
    by (simp add: Let_def l [unfolded MF_DIR_def, simplified] f [simplified] MF_DIR_def del: upd_stepper_simps(2))
qed

section \<open>Step timing\<close>

lemma load_optimized_edge:
  fixes s :: "'z stepper_state_scheme"
  assumes "HAVE_EDGE_OPTIMIZATION s"
  shows "waketime (load_optimized a m s) (step_time a) = waketime s (step_time a) + m_interval (stepper_moves s m)"
    "st_interval (steppers (load_optimized a m s) a) = m_interval (stepper_moves s m) + scast (m_add (stepper_moves s m))"
    "st_add (steppers (load_optimized a m s) a) = m_add (stepper_moves s m)"
    "st_count (steppers (load_optimized a m s) a) = ucast (m_count (stepper_moves s m))"
    "st_step_pin (steppers (load_optimized a m s) a) = st_step_pin (steppers s a)"
    "st_dir_pin (steppers s a) \<noteq> st_step_pin (steppers s a) \<Longrightarrow>
       gpio_level (load_optimized a m s) (st_step_pin (steppers s a)) = gpio_level s (st_step_pin (steppers s a))"
  using assms by (simp_all add: load_optimized_def load_state_def Let_def)

lemma unat_ucast_16_32: "unat (ucast (x :: 16 word) :: u32) = unat x"
  using unsigned_less [of x, where ?'a = nat] by (simp add: unsigned_ucast_eq take_bit_nat_eq_self)

lemma edge_move_times:
  fixes s :: "'z stepper_state_scheme"
  assumes "HAVE_EDGE_OPTIMIZATION s" "has_flag s a SF_OPTIMIZED_PATH" "qlist s (st_mq (steppers s a)) (m # ms)"
    and "st_dir_pin (steppers s a) \<noteq> st_step_pin (steppers s a)"
    and "k < unat (m_count (stepper_moves s m))"
  shows "\<exists>s'. obind (stepper_load_next a s) (\<lambda>_ s. run_edge k a s) = Ret () s'
      \<and> waketime s' (step_time a) = waketime s (step_time a) + of_nat (k + 1) * m_interval (stepper_moves s m)
          + of_nat ((k + 1) * k div 2) * scast (m_add (stepper_moves s m))
      \<and> gpio_level s' (st_step_pin (steppers s a)) = (gpio_level s (st_step_pin (steppers s a)) \<noteq> odd k)
      \<and> st_count (steppers s' a) = ucast (m_count (stepper_moves s m)) - of_nat k"
proof -
  note L = load_optimized_edge [OF assms(1), of a m]
  have q: "mq_first (st_mq (steppers s a)) = Some m" using assms(3) by (simp add: qlist_def)
  have l: "stepper_load_next a s = Ret SF_RESCHEDULE (load_optimized a m s)" using load_next_eq [OF q] assms(1,2) by simp
  have "k < unat (st_count (steppers (load_optimized a m s) a))" using assms(5) by (simp only: L(4) unat_ucast_16_32)
  from run_edge_times [OF this] obtain s' where s': "run_edge k a (load_optimized a m s) = Ret () s'"
    "waketime s' (step_time a) = waketime (load_optimized a m s) (step_time a)
        + of_nat k * st_interval (steppers (load_optimized a m s) a)
        + of_nat (k * (k - 1) div 2) * scast (st_add (steppers (load_optimized a m s) a))"
    "st_count (steppers s' a) = st_count (steppers (load_optimized a m s) a) - of_nat k"
    "gpio_level s' (st_step_pin (steppers (load_optimized a m s) a)) =
        (gpio_level (load_optimized a m s) (st_step_pin (steppers (load_optimized a m s) a)) \<noteq> odd k)"
    by blast
  have t: "(k + 1) * k div 2 = k * (k - 1) div 2 + k" using tri_Suc [of k] by simp
  have "waketime s' (step_time a) = waketime s (step_time a) + of_nat (k + 1) * m_interval (stepper_moves s m)
          + of_nat ((k + 1) * k div 2) * scast (m_add (stepper_moves s m))"
    unfolding t using s'(2) L(1-3) by (simp add: algebra_simps)
  then show ?thesis using s' L(4-5) L(6) [OF assms(4)] l by auto
qed

section \<open>Position\<close>

definition wabs :: "u32 \<Rightarrow> u32" where
  "wabs p = (if p AND 0x80000000 \<noteq> 0 then - p else p)"

definition steps_left :: "nat \<Rightarrow> 'z stepper_state_scheme \<Rightarrow> u32" where
  "steps_left a s = (if has_flag s a SF_SINGLE_SCHED then st_count (steppers s a) else st_count (steppers s a) div 2)"

text \<open>The position counter without the steps not yet taken; its top bit is the direction.\<close>

definition position_word :: "nat \<Rightarrow> 'z stepper_state_scheme \<Rightarrow> u32" where
  "position_word a s = st_position (steppers s a) - steps_left a s"

lemma get_position_wabs: "stepper_get_position a s = wabs (position_word a s)"
  by (simp add: stepper_get_position_def wabs_def position_word_def steps_left_def Let_def)

lemma top_bit: "(p :: u32) AND 0x80000000 \<noteq> 0 \<longleftrightarrow> 2 ^ 31 \<le> unat p"
proof -
  have "(0x80000000 :: u32) = push_bit 31 1" by simp
  then have "p AND 0x80000000 \<noteq> 0 \<longleftrightarrow> bit p 31"
    by (metis and_exp_eq_0_iff_not_bit bit_word_def push_bit_of_1)
  also have "\<dots> \<longleftrightarrow> bit (unat p) 31" by (simp add: bit_unsigned_iff)
  also have "\<dots> \<longleftrightarrow> odd (unat p div 2 ^ 31)" by (simp add: bit_iff_odd)
  also have "\<dots> \<longleftrightarrow> 2 ^ 31 \<le> unat p"
  proof -
    have "unat p < 2 ^ 32" using unsigned_less [of p, where ?'a = nat] by simp
    then have "unat p div 2 ^ 31 < 2" by (simp add: less_mult_imp_div_less)
    then have "odd (unat p div 2 ^ 31) \<longleftrightarrow> unat p div 2 ^ 31 \<noteq> 0" by (metis less_2_cases odd_one even_zero One_nat_def)
    then show ?thesis by (simp add: div_eq_0_iff not_less)
  qed
  finally show ?thesis .
qed

lemma wabs_minus [simp]: "wabs (- p) = wabs p"
proof -
  have u: "unat (- p) = (if p = 0 then 0 else 2 ^ 32 - unat p)" using unat_sub_if' [of 0 p] by (auto simp: unsigned_eq_0_iff)
  have "unat p < 2 ^ 32" using unsigned_less [of p, where ?'a = nat] by simp
  then have "2 ^ 31 \<le> unat (- p) \<longleftrightarrow> p \<noteq> 0 \<and> unat p \<le> 2 ^ 31" unfolding u by auto
  moreover have "p = - p" if "unat p = 2 ^ 31"
  proof -
    have "p = 0x80000000" using that by (simp add: word_unat_eq_iff)
    then show ?thesis by simp
  qed
  ultimately show ?thesis unfolding wabs_def top_bit by (cases "p = 0") (auto simp: not_le le_less)
qed

lemma wabs_step: "wabs (p + 1) = (if p AND 0x80000000 \<noteq> 0 then wabs p - 1 else wabs p + 1)"
proof (cases "p = - 1")
  case False
  then have u: "unat (p + 1) = unat p + 1" by (metis Suc_eq_plus1 add.commute unatSuc minus_equation_iff add_eq_0_iff)
  show ?thesis
  proof (cases "unat p + 1 = 2 ^ 31")
    case True
    then have "p + 1 = 0x80000000" using u by (simp add: word_unat_eq_iff)
    then show ?thesis using True unfolding wabs_def top_bit by simp
  qed (auto simp: wabs_def top_bit u)
qed (simp add: wabs_def)

lemma has_flag_upd [simp]:
  "has_flag (set_waketime t w s) a f = has_flag s a f" "has_flag (gpio_out_toggle_noirq p s) a f = has_flag s a f"
  "has_flag (move_free m s) a f = has_flag s a f"
  "has_flag (s\<lparr>clk_pos := n\<rparr>) a f = has_flag s a f"
  by (simp_all add: has_flag_def)

lemma timer_from_us_upd [simp]:
  "timer_from_us (upd_stepper a f s) = timer_from_us s"
  by (simp add: timer_from_us_def fun_eq_iff)

lemma turn_steppers: "stepper_turn a w s = Ret r s' \<Longrightarrow> steppers s' = steppers s"
  by (auto simp: stepper_turn_def Let_def timer_read_time_def split: if_splits option.splits)

lemma load_full_steppers:
  assumes "stepper_load_full a ival mc turn s = Ret r s'"
  shows "steppers s' = (steppers s)(a := (steppers s a)\<lparr>st_next_step_time := st_next_step_time (steppers s a) + ival,
      st_count := (if has_flag s a SF_SINGLE_SCHED then ucast mc else ucast mc * 2)\<rparr>)"
proof -
  have f: "has_flag (upd_stepper a (\<lambda>x. x\<lparr>st_next_step_time := w x\<rparr>) s) a g = has_flag s a g" for w g
    by (simp add: has_flag_def)
  show ?thesis
    using assms unfolding stepper_load_full_def
    by (auto simp: Let_def outcome_simps sched_shutdown_def f dest!: turn_steppers split: if_splits)
qed

lemma double_half: "(ucast (mc :: 16 word) * 2 :: u32) div 2 = ucast mc"
proof -
  have b: "unat mc < 2 ^ 16" using unsigned_less [of mc, where ?'a = nat] by simp
  have "unat (ucast mc * 2 :: u32) = unat mc * 2"
    using b by (simp add: unat_word_ariths unat_ucast_16_32)
  then show ?thesis by (simp add: word_unat_eq_iff unat_div_distrib unat_ucast_16_32)
qed

lemma load_next_position:
  fixes s :: "'z stepper_state_scheme"
  assumes "stepper_load_next a s = Ret r s'" "has_flag s a SF_OPTIMIZED_PATH \<longrightarrow> has_flag s a SF_SINGLE_SCHED"
  shows "stepper_get_position a s' = wabs (st_position (steppers s a))"
proof (cases "mq_first (st_mq (steppers s a))")
  case None
  then have "s' = upd_stepper a (\<lambda>x. x\<lparr>st_count := 0\<rparr>) s"
    using assms(1) by (auto simp: stepper_load_next_def move_queue_empty_def)
  then show ?thesis by (simp add: get_position_wabs position_word_def steps_left_def)
next
  case (Some m)
  let ?p = "(if m_flags (stepper_moves s m) AND MF_DIR \<noteq> 0 then - st_position (steppers s a) else st_position (steppers s a))"
  have w: "wabs ?p = wabs (st_position (steppers s a))" by simp
  have l: "st_position (steppers (load_state a m s) a) = ?p + ucast (m_count (stepper_moves s m))"
    "has_flag (load_state a m s) a f = has_flag s a f" for f
    by (simp_all add: load_state_def has_flag_def)
  show ?thesis
  proof (cases "(HAVE_EDGE_OPTIMIZATION s \<or> HAVE_AVR_OPTIMIZATION s) \<and> has_flag s a SF_OPTIMIZED_PATH")
    case True
    then have s': "s' = load_optimized a m s" using assms(1) load_next_eq [OF Some] by simp
    have sg: "(st_flags (steppers s a) OR 64) AND 16 \<noteq> 0" "(st_flags (steppers s a) AND - 65) AND 16 \<noteq> 0"
      using True assms(2) by (simp_all add: has_flag_def bit.conj_disj_distrib2 and.assoc)
    have "position_word a s' = ?p"
      unfolding s' using True assms(2) sg
      by (auto simp: load_optimized_def load_state_def position_word_def steps_left_def Let_def has_flag_def)
    then show ?thesis using w by (simp only: get_position_wabs)
  next
    case False
    then have "stepper_load_full a (m_interval (stepper_moves s m)) (m_count (stepper_moves s m))
             (m_flags (stepper_moves s m) AND MF_DIR \<noteq> 0) (load_state a m s) = Ret r s'"
      using assms(1) unfolding load_next_eq [OF Some] by (simp only: if_False)
    from load_full_steppers [OF this] have "position_word a s' = ?p"
      using l by (simp add: position_word_def steps_left_def has_flag_def double_half)
    then show ?thesis using w by (simp only: get_position_wabs)
  qed
qed

section \<open>Step events\<close>

lemma position_step:
  fixes s s' :: "'z stepper_state_scheme"
  shows "stepper_get_position a s' = wabs (position_word a s + 1) \<Longrightarrow>
    stepper_get_position a s' = (if position_word a s AND 0x80000000 \<noteq> 0 then stepper_get_position a s - 1
                                 else stepper_get_position a s + 1)"
  by (simp only: get_position_wabs wabs_step)

lemma edge_position:
  fixes s :: "'z stepper_state_scheme"
  assumes "stepper_event_edge a s = Ret r s'" "has_flag s a SF_SINGLE_SCHED"
  shows "stepper_get_position a s' = wabs (position_word a s + 1)"
proof (cases "st_count (steppers s a) = 1")
  case True
  then have "stepper_load_next a (gpio_out_toggle_noirq (st_step_pin (steppers s a)) s) = Ret r s'"
    using assms(1) by (simp add: stepper_event_edge_def Let_def)
  from load_next_position [OF this] show ?thesis
    using assms(2) True by (simp add: position_word_def steps_left_def)
next
  case False
  obtain s1 where "stepper_event_edge a s = Ret SF_RESCHEDULE s1"
    "steppers s1 = (steppers s)(a := (steppers s a)\<lparr>st_count := st_count (steppers s a) - 1,
        st_interval := st_interval (steppers s a) + scast (st_add (steppers s a))\<rparr>)"
    using edge_step [OF False] by blast
  then show ?thesis
    using assms by (simp add: get_position_wabs position_word_def steps_left_def has_flag_def algebra_simps)
qed

lemma low_half_pred:
  assumes "unat (c :: u32) < 2 ^ 16" "c \<noteq> 0"
  shows "(c AND 0xffff0000) OR ucast (ucast c - 1 :: 16 word) = c - 1" "(ucast c - 1 :: 16 word) = 0 \<longleftrightarrow> c = 1"
proof -
  have "take_bit 16 c = c" using assms(1) by (simp add: word_unat_eq_iff unsigned_take_bit_eq take_bit_nat_eq_self)
  then have "c = c AND mask 16" by (simp only: take_bit_eq_mask)
  moreover have "(0xffff0000 :: u32) = NOT (mask 16)" by (simp add: mask_eq_exp_minus_1)
  ultimately have h: "c AND 0xffff0000 = 0" by (metis and.assoc and.right_neutral bit.conj_cancel_right and_zero_eq)
  have u: "unat (ucast c :: 16 word) = unat c"
    using assms(1) by (simp add: unsigned_ucast_eq take_bit_nat_eq_self)
  have c: "unat c \<noteq> 0" using assms(2) by (simp add: unsigned_eq_0_iff)
  then have "unat (ucast c - 1 :: 16 word) = unat c - 1" using u
    by (metis unat_eq_zero unat_minus_one)
  moreover have "unat (c - 1) = unat c - 1" using assms(2) by (simp add: unat_minus_one)
  ultimately show "(c AND 0xffff0000) OR ucast (ucast c - 1 :: 16 word) = c - 1"
    unfolding h by (simp add: word_unat_eq_iff unat_ucast_16_32)
  show "(ucast c - 1 :: 16 word) = 0 \<longleftrightarrow> c = 1"
    using \<open>unat (ucast c - 1 :: 16 word) = unat c - 1\<close> c by (auto simp: word_unat_eq_iff)
qed

lemma avr_position:
  fixes s :: "'z stepper_state_scheme"
  assumes "stepper_event_avr a s = Ret r s'" "has_flag s a SF_SINGLE_SCHED"
    and c: "unat (st_count (steppers s a)) < 2 ^ 16" "st_count (steppers s a) \<noteq> 0"
  shows "stepper_get_position a s' = wabs (position_word a s + 1)"
proof (cases "st_count (steppers s a) = 1")
  case True
  then obtain s1 where "stepper_load_next a (gpio_out_toggle_noirq (st_step_pin (steppers s a)) s) = Ret r s1"
    "s' = gpio_out_toggle_noirq (st_step_pin (steppers s1 a)) s1"
    using assms(1) by (auto simp: stepper_event_avr_def Let_def outcome_simps)
  from load_next_position [OF this(1)] this(2) show ?thesis
    using assms(2) True by (simp add: position_word_def steps_left_def get_position_wabs has_flag_def split: if_splits)
next
  case False
  have "st_position (steppers s' a) = st_position (steppers s a)" "st_flags (steppers s' a) = st_flags (steppers s a)"
    "st_count (steppers s' a) = st_count (steppers s a) - 1"
    using assms(1) False low_half_pred [OF c] by (auto simp: stepper_event_avr_def Let_def)
  then have "position_word a s' = position_word a s + 1"
    using assms(2) by (simp add: position_word_def steps_left_def has_flag_def)
  then show ?thesis by (simp only: get_position_wabs)
qed

lemma even_pred_half:
  assumes "(c :: u32) \<noteq> 0"
  shows "(c - 1) div 2 = (if (c - 1) AND 1 \<noteq> 0 then c div 2 - 1 else c div 2)"
proof -
  have c: "unat (c - 1) = unat c - 1" "unat c \<noteq> 0" using assms by (simp_all add: unat_minus_one unsigned_eq_0_iff)
  have o: "(c - 1) AND 1 \<noteq> 0 \<longleftrightarrow> even (unat c)"
  proof -
    have "(c - 1) AND 1 \<noteq> 0 \<longleftrightarrow> unat ((c - 1) mod 2) \<noteq> 0" by (simp only: and_one_eq unsigned_eq_0_iff)
    also have "\<dots> \<longleftrightarrow> odd (unat (c - 1))" by (simp only: unat_mod_distrib) (simp add: odd_iff_mod_2_eq_one)
    finally show ?thesis using c by simp
  qed
  have d: "unat (c div 2) = unat c div 2" by (simp add: unat_div_distrib)
  show ?thesis
  proof (cases "even (unat c)")
    case True
    then have "unat (c div 2) \<noteq> 0" using c(2) d by auto
    then have "c div 2 \<noteq> 0" by auto
    then have "unat (c div 2 - 1) = unat c div 2 - 1" using d by (simp add: unat_minus_one)
    then have "unat ((c - 1) div 2) = unat (c div 2 - 1)" using True c by (simp add: unat_div_distrib, presburger)
    then show ?thesis using True o by (simp add: word_unat_eq_iff)
  next
    case False
    then have "unat ((c - 1) div 2) = unat (c div 2)" using c d by (simp add: unat_div_distrib, presburger)
    then show ?thesis using False o by (simp add: word_unat_eq_iff)
  qed
qed

text \<open>A step (not the return of the step pin) is every event of a single scheduled stepper, every other event else.\<close>

definition is_step :: "nat \<Rightarrow> 'z stepper_state_scheme \<Rightarrow> bool" where
  "is_step a s \<longleftrightarrow> has_flag s a SF_SINGLE_SCHED \<or> (st_count (steppers s a) - 1) AND 1 \<noteq> 0"

lemma pred_position:
  fixes s s' :: "'z stepper_state_scheme"
  assumes "st_position (steppers s' a) = st_position (steppers s a)" "st_flags (steppers s' a) = st_flags (steppers s a)"
    "st_count (steppers s' a) = st_count (steppers s a) - 1" "st_count (steppers s a) \<noteq> 0"
  shows "position_word a s' = (if is_step a s then position_word a s + 1 else position_word a s)"
  using assms(1-3) even_pred_half [OF assms(4)]
  by (simp add: position_word_def steps_left_def is_step_def has_flag_def)

lemma full_position:
  fixes s :: "'z stepper_state_scheme"
  assumes "stepper_event_full a s = Ret r s'" "st_count (steppers s a) \<noteq> 0"
    and opt: "has_flag s a SF_OPTIMIZED_PATH \<longrightarrow> has_flag s a SF_SINGLE_SCHED"
  shows "stepper_get_position a s' = (if is_step a s then wabs (position_word a s + 1) else stepper_get_position a s)"
proof (cases "st_count (steppers s a) = 1")
  case True
  define s1 where "s1 = set_waketime (step_time a) (clk s (clk_pos s) + st_step_pulse_ticks (steppers s a))
      ((gpio_out_toggle_noirq (st_step_pin (steppers s a)) s)\<lparr>clk_pos := Suc (clk_pos s)\<rparr>)"
  have "stepper_load_next a s1 = Ret r s'"
    using assms(1) True by (simp add: stepper_event_full_def Let_def timer_read_time_def s1_def)
  from load_next_position [OF this] have "stepper_get_position a s' = wabs (st_position (steppers s a))"
    using opt by (simp add: s1_def)
  then show ?thesis using True by (simp add: is_step_def position_word_def steps_left_def get_position_wabs)
next
  case False
  have "st_position (steppers s' a) = st_position (steppers s a) \<and> st_flags (steppers s' a) = st_flags (steppers s a)
     \<and> st_count (steppers s' a) = st_count (steppers s a) - 1"
    using assms(1) False by (auto simp: stepper_event_full_def Let_def timer_read_time_def split: if_splits)
  from pred_position [of s' a s] this assms(2) show ?thesis by (auto simp: get_position_wabs)
qed

section \<open>Minimum time between events\<close>

lemma timer_is_before_refl [simp]: "\<not> timer_is_before t t"
  by (simp add: timer_is_before_def)

lemma wait_clock_pos: "wait_clock c pos w = Some p \<Longrightarrow> pos < p"
proof (rule wait_clock.raw_induct [where P = "\<lambda>c pos w p. pos < p"])
  fix f c pos w p
  assume "\<And>c pos w p. f c pos w = Some p \<Longrightarrow> pos < p"
    and "(if timer_is_before (c pos) w then f c (Suc pos) w else Some (Suc pos)) = Some p"
  then show "pos < p" by (metis Suc_lessD lessI option.inject)
qed

lemma turn_min_time:
  fixes s :: "'z stepper_state_scheme"
  assumes "stepper_turn a w s = Ret r s'"
  shows "r = SF_RESCHEDULE \<and> clk s' = clk s \<and> steppers s' = steppers s \<and> clk_pos s < clk_pos s'
     \<and> \<not> timer_is_before (waketime s' (step_time a)) (clk s (clk_pos s' - 1) + st_step_pulse_ticks (steppers s a))"
  using assms unfolding stepper_turn_def
  by (auto simp: Let_def timer_read_time_def less_Suc_eq dest: wait_clock_pos split: if_splits option.splits)

lemma load_full_min_time:
  fixes s :: "'z stepper_state_scheme"
  assumes "stepper_load_full a ival mc turn s = Ret r s'" "st_count (steppers s a) \<noteq> 0"
  shows "r = SF_RESCHEDULE \<and> clk s' = clk s \<and> st_step_pulse_ticks (steppers s' a) = st_step_pulse_ticks (steppers s a)
     \<and> (if turn then clk_pos s < clk_pos s' \<and> \<not> timer_is_before (waketime s' (step_time a))
             (clk s (clk_pos s' - 1) + st_step_pulse_ticks (steppers s a))
        else clk_pos s' = clk_pos s \<and> \<not> timer_is_before (waketime s' (step_time a)) (waketime s (step_time a)))"
  using assms unfolding stepper_load_full_def
  by (auto simp: Let_def outcome_simps sched_shutdown_def dest!: turn_min_time split: if_splits)

lemma full_min_time:
  fixes s :: "'z stepper_state_scheme"
  assumes "stepper_event_full a s = Ret SF_RESCHEDULE s'" "st_count (steppers s a) \<noteq> 0"
    and "\<not> ((HAVE_EDGE_OPTIMIZATION s \<or> HAVE_AVR_OPTIMIZATION s) \<and> has_flag s a SF_OPTIMIZED_PATH)"
  shows "\<not> timer_is_before (waketime s' (step_time a)) (clk s (clk_pos s' - 1) + st_step_pulse_ticks (steppers s a))"
proof (cases "st_count (steppers s a) = 1")
  case True
  define w where "w = clk s (clk_pos s) + st_step_pulse_ticks (steppers s a)"
  define s1 where "s1 = set_waketime (step_time a) w ((gpio_out_toggle_noirq (st_step_pin (steppers s a)) s)\<lparr>clk_pos := Suc (clk_pos s)\<rparr>)"
  have s1: "clk s1 = clk s" "clk_pos s1 = Suc (clk_pos s)" "steppers s1 = steppers s" "waketime s1 (step_time a) = w"
    "HAVE_EDGE_OPTIMIZATION s1 = HAVE_EDGE_OPTIMIZATION s" "HAVE_AVR_OPTIMIZATION s1 = HAVE_AVR_OPTIMIZATION s"
    "has_flag s1 a f = has_flag s a f" for f
    by (simp_all add: s1_def HAVE_EDGE_OPTIMIZATION_def HAVE_AVR_OPTIMIZATION_def gpio_out_toggle_noirq_def set_waketime_def upd_timer_def has_flag_def)
  have e: "stepper_load_next a s1 = Ret SF_RESCHEDULE s'"
    using assms(1) True by (simp add: stepper_event_full_def Let_def timer_read_time_def s1_def w_def)
  then obtain m where m: "mq_first (st_mq (steppers s1 a)) = Some m"
    by (cases "mq_first (st_mq (steppers s1 a))") (auto simp: stepper_load_next_def move_queue_empty_def)
  have l: "st_count (steppers (load_state a m s1) a) = 1" "clk (load_state a m s1) = clk s"
    "clk_pos (load_state a m s1) = Suc (clk_pos s)" "waketime (load_state a m s1) (step_time a) = w"
    "st_step_pulse_ticks (steppers (load_state a m s1) a) = st_step_pulse_ticks (steppers s a)"
    using True s1 by (simp_all add: load_state_def)
  have "stepper_load_full a (m_interval (stepper_moves s1 m)) (m_count (stepper_moves s1 m))
     (m_flags (stepper_moves s1 m) AND MF_DIR \<noteq> 0) (load_state a m s1) = Ret SF_RESCHEDULE s'"
    using e assms(3) unfolding load_next_eq [OF m] s1 by (simp only: if_False)
  from load_full_min_time [OF this] show ?thesis unfolding l by (auto simp: w_def split: if_splits)
next
  case False
  then show ?thesis
    using assms(1) by (auto simp: stepper_event_full_def Let_def timer_read_time_def split: if_splits)
qed

section \<open>Stopping\<close>

lemma free_moves_frame:
  assumes "free_moves h s = Some (Ret h' s')"
  shows "s' = s\<lparr>move_next := move_next s', move_free_list := move_free_list s'\<rparr>"
proof -
  have "case out of Ret h' s' \<Rightarrow> (s' = s\<lparr>move_next := move_next s', move_free_list := move_free_list s'\<rparr>) | _ \<Rightarrow> True"
    if "free_moves h s = Some out" for out
    using that
  proof (rule free_moves.raw_induct [where P = "\<lambda>h s out. case out of Ret h' s' \<Rightarrow> (s' = s\<lparr>move_next := move_next s', move_free_list := move_free_list s'\<rparr>) | _ \<Rightarrow> True", rotated])
    fix g and mq and s :: "'a base_state_scheme" and out
    assume ih: "\<And>mq s out. g mq s = Some out \<Longrightarrow> (case out of Ret h' s' \<Rightarrow> (s' = s\<lparr>move_next := move_next s', move_free_list := move_free_list s'\<rparr>) | _ \<Rightarrow> True)"
      and e: "(if move_queue_empty mq then Some (Ret mq s)
        else case move_queue_pop mq s of Ret r s \<Rightarrow> g (snd r) (move_free (fst r) s)
          | Longjmp r s \<Rightarrow> Some (Longjmp r s) | Fault \<Rightarrow> Some Fault) = Some out"
    show "case out of Ret h' s' \<Rightarrow> (s' = s\<lparr>move_next := move_next s', move_free_list := move_free_list s'\<rparr>) | _ \<Rightarrow> True"
    proof (cases "mq_first mq")
      case None
      then have "out = Ret mq s" using e by (simp add: move_queue_empty_def)
      then show ?thesis by simp
    next
      case (Some m)
      then have "g (mq\<lparr>mq_first := move_next s m\<rparr>) (move_free m s) = Some out"
        using e by (simp add: move_queue_empty_def move_queue_pop_def)
      from ih [OF this] show ?thesis by (cases out) (auto simp: move_free_def set_move_next_def)
    qed
  qed
  with assms show ?thesis by fastforce
qed

lemma free_moves_conf:
  "mp.conf s fs ((h, ys) # qs) \<Longrightarrow>
     \<exists>h' s'. free_moves h s = Some (Ret h' s') \<and> mq_first h' = None \<and> mp.conf s' (rev ys @ fs) ((h', []) # qs)"
proof (induction ys arbitrary: h s fs)
  case Nil
  then have "qlist s h []" unfolding mp.conf_def by simp
  then have "mq_first h = None" by (simp add: qlist_def)
  then show ?case using Nil by (subst free_moves.simps) (simp add: move_queue_empty_def)
next
  case (Cons y ys)
  obtain h1 s1 where 1: "obind (move_queue_pop h s) (\<lambda>(m, h) s. Ret (m, h) (move_free m s)) = Ret (y, h1) s1"
    "mp.conf s1 (y # fs) ((h1, ys) # qs)" using mp.conf_dequeue [OF Cons.prems] by blast
  have "qlist s h (y # ys)" using Cons.prems unfolding mp.conf_def by simp
  then have "mq_first h = Some y" by (simp add: qlist_def)
  then have "free_moves h s = free_moves h1 s1"
    using 1(1) by (subst free_moves.simps) (auto simp: move_queue_empty_def move_queue_pop_def)
  with Cons.IH [OF 1(2)] show ?case by simp
qed

lemma del_timer_frame:
  assumes "sched_del_timer t s = Ret u s'"
  shows "s' = s\<lparr>timers := timers s', timer_list := timer_list s', last_insert := last_insert s'\<rparr>"
proof (cases "timer_list s = t")
  case True
  then show ?thesis
    using assms by (auto simp: sched_del_timer_def Let_def set_waketime_def set_next_def upd_timer_def split: if_splits)
next
  case False
  then obtain p where p: "del_pos (timers s) t (timer_list s) = Some p"
    using assms by (cases "del_pos (timers s) t (timer_list s)") (auto simp: sched_del_timer_def)
  show ?thesis
    using assms False p
    by (cases p) (auto simp: sched_del_timer_def Let_def set_waketime_def set_next_def upd_timer_def split: if_splits)
qed

text \<open>What \<open>stepper_stop\<close> leaves of the stepper.\<close>

definition stopped :: "stepper \<Rightarrow> bool" where
  "stopped x \<longleftrightarrow> st_count x = 0 \<and> mq_first (st_mq x) = None \<and> st_flags x AND SF_NEED_RESET \<noteq> 0"

definition stop_flags :: "u8 \<Rightarrow> u8" where
  "stop_flags f = (f AND (SF_INVERT_STEP OR SF_SINGLE_SCHED OR SF_OPTIMIZED_PATH)) OR SF_NEED_RESET"

lemma stop_flags_bits [simp]:
  "stop_flags f AND 16 = f AND 16" "stop_flags f AND 32 = f AND 32" "stop_flags f AND 4 = f AND 4" "stop_flags f AND 8 = 8"
  by (simp_all add: stop_flags_def bit.conj_disj_distrib2 and.assoc)

lemma sched_inv_cong:
  "timers s' = timers s \<Longrightarrow> timer_list s' = timer_list s \<Longrightarrow> last_insert s' = last_insert s \<Longrightarrow> sched_inv s' xs = sched_inv s xs"
proof -
  assume a: "timers s' = timers s" "timer_list s' = timer_list s" "last_insert s' = last_insert s"
  then have "off s' = off s" by (simp add: off_def fun_eq_iff)
  with a show ?thesis by (simp add: sched_inv_def sched_list_def ordered_from_def)
qed

lemma conf_cong:
  "move_next s' = move_next s \<Longrightarrow> move_free_list s' = move_free_list s \<Longrightarrow> mp.conf s' xs qs = mp.conf s xs qs"
proof -
  assume a: "move_next s' = move_next s" "move_free_list s' = move_free_list s"
  then have "qlist s' = qlist s" "free_list s' = free_list s" by (intro ext, simp add: qlist_def free_list_def)+
  then show ?thesis unfolding mp.conf_def by simp
qed

text \<open>What a stop may write.\<close>

definition stop_frame :: "'z stepper_state_scheme \<Rightarrow> 'z stepper_state_scheme \<Rightarrow> bool" where
  "stop_frame s s' \<longleftrightarrow> s' = s\<lparr>timers := timers s', timer_list := timer_list s', last_insert := last_insert s',
     move_next := move_next s', move_free_list := move_free_list s', gpio_level := gpio_level s', steppers := steppers s'\<rparr>"

lemma stop_frameI:
  "s' = s\<lparr>timers := tm, timer_list := th, last_insert := li, move_next := mn, move_free_list := mf, gpio_level := gl, steppers := st\<rparr> \<Longrightarrow>
   stop_frame s s'"
  by (simp add: stop_frame_def)

lemma stop_frame_refl [simp]: "stop_frame s s"
  by (simp add: stop_frame_def)

lemma stop_frame_fields:
  assumes "stop_frame s s'"
  shows "trsyncs s' = trsyncs s" "tss_next s' = tss_next s" "tss_func s' = tss_func s" "oids s' = oids s" "oid_count s' = oid_count s"
    "stepper_state.more s' = stepper_state.more s" "stepper_moves s' = stepper_moves s" "shutdown_status s' = shutdown_status s"
    "clk s' = clk s" "clk_pos s' = clk_pos s" "HAVE_AVR_OPTIMIZATION s' = HAVE_AVR_OPTIMIZATION s"
  using assms [unfolded stop_frame_def, THEN arg_cong, of trsyncs] assms [unfolded stop_frame_def, THEN arg_cong, of tss_next]
    assms [unfolded stop_frame_def, THEN arg_cong, of tss_func] assms [unfolded stop_frame_def, THEN arg_cong, of oids]
    assms [unfolded stop_frame_def, THEN arg_cong, of oid_count] assms [unfolded stop_frame_def, THEN arg_cong, of stepper_state.more]
    assms [unfolded stop_frame_def, THEN arg_cong, of stepper_moves] assms [unfolded stop_frame_def, THEN arg_cong, of shutdown_status]
    assms [unfolded stop_frame_def, THEN arg_cong, of clk] assms [unfolded stop_frame_def, THEN arg_cong, of clk_pos]
    assms [unfolded stop_frame_def, THEN arg_cong, of HAVE_AVR_OPTIMIZATION]
  by (simp_all add: HAVE_AVR_OPTIMIZATION_def)

lemma stop_frame_trans:
  assumes "stop_frame s s1" "stop_frame s1 s2" shows "stop_frame s s2"
proof -
  obtain tm th li mn mf gl st where 1: "s1 = s\<lparr>timers := tm, timer_list := th, last_insert := li, move_next := mn, move_free_list := mf, gpio_level := gl, steppers := st\<rparr>"
    using assms(1) unfolding stop_frame_def by blast
  obtain tm th li mn mf gl st where 2: "s2 = s1\<lparr>timers := tm, timer_list := th, last_insert := li, move_next := mn, move_free_list := mf, gpio_level := gl, steppers := st\<rparr>"
    using assms(2) unfolding stop_frame_def by blast
  show ?thesis by (rule stop_frameI) (use 1 2 in simp)
qed

lemma stepper_stop_effect:
  fixes s :: "'z stepper_state_scheme"
  assumes inv: "sched_inv s xs" and c: "mp.conf s fs ((st_mq (steppers s a), ys) # qs)"
  obtains s' zs mq where "stepper_stop a reason s = Ret () s'" "stop_frame s s'"
    "sched_inv s' zs" "set zs - {Deleted_timer} = set xs - {step_time a, Deleted_timer}"
    "mp.conf s' (rev ys @ fs) ((mq, []) # qs)" "mq_first mq = None"
    "steppers s' = (steppers s)(a := (steppers s a)\<lparr>st_next_step_time := 0, st_position := - stepper_get_position a s,
        st_count := 0, st_flags := stop_flags (st_flags (steppers s a)), st_mq := mq\<rparr>)"
    "\<And>p. gpio_level s' p =
       (if p = st_step_pin (steppers s a) \<and> (\<not> has_flag s a SF_SINGLE_SCHED \<or> HAVE_AVR_OPTIMIZATION s \<and> has_flag s a SF_OPTIMIZED_PATH)
        then has_flag s a SF_INVERT_STEP else if p = st_dir_pin (steppers s a) then False else gpio_level s p)"
proof -
  let ?x = "steppers s a"
  have nf: "step_time a \<notin> {Sentinel_timer, Periodic_timer, Deleted_timer}" by simp
  obtain s1 zs where s1: "sched_del_timer (step_time a) s = Ret () s1" "sched_inv s1 zs"
    "set zs - {Deleted_timer} = set xs - {step_time a, Deleted_timer}"
    using tq.del [OF inv nf] by auto
  obtain tm th li where e1: "s1 = s\<lparr>timers := tm, timer_list := th, last_insert := li\<rparr>"
    using del_timer_frame [OF s1(1)] by blast
  have f1: "stop_frame s s1" and st1: "steppers s1 = steppers s" "gpio_level s1 = gpio_level s" "move_next s1 = move_next s"
    "move_free_list s1 = move_free_list s" by (simp_all add: e1 stop_frame_def)
  have "step_time a \<notin> set zs" using s1(3) by auto
  then have inv2: "sched_inv (set_waketime (step_time a) 0 s1) zs" using tq.set_wake [OF s1(2) _ nf] by simp
  define hw where "hw \<longleftrightarrow> \<not> has_flag s a SF_SINGLE_SCHED \<or> HAVE_AVR_OPTIMIZATION s \<and> has_flag s a SF_OPTIMIZED_PATH"
  define gl where "gl p = (if p = st_step_pin ?x \<and> hw then has_flag s a SF_INVERT_STEP else if p = st_dir_pin ?x then False else gpio_level s p)" for p
  define s3 where "s3 = (set_waketime (step_time a) 0 s1)\<lparr>gpio_level := gl, steppers := (steppers s)(a := ?x\<lparr>st_next_step_time := 0,
        st_position := - stepper_get_position a s, st_count := 0, st_flags := stop_flags (st_flags ?x)\<rparr>)\<rparr>"
  have stop: "stepper_stop a reason s = (case free_moves (st_mq ?x) s3 of None \<Rightarrow> Fault
          | Some r \<Rightarrow> obind r (\<lambda>mq s. Ret () (upd_stepper a (\<lambda>x. x\<lparr>st_mq := mq\<rparr>) s)))"
  proof -
    define s2 where "s2 = upd_stepper a (\<lambda>x. x\<lparr>st_next_step_time := 0\<rparr>) (set_waketime (step_time a) 0 s1)"
    have g: "stepper_get_position a s2 = stepper_get_position a s"
      by (simp add: stepper_get_position_def has_flag_def st1 s2_def Let_def)
    define s2' where "s2' = upd_stepper a (\<lambda>x. x\<lparr>st_flags :=
                 (st_flags x AND (SF_INVERT_STEP OR SF_SINGLE_SCHED OR SF_OPTIMIZED_PATH)) OR SF_NEED_RESET\<rparr>)
        (upd_stepper a (\<lambda>x. x\<lparr>st_count := 0\<rparr>) (upd_stepper a (\<lambda>x. x\<lparr>st_position := - stepper_get_position a s\<rparr>) s2))"
    have h: "has_flag s2' a SF_SINGLE_SCHED = has_flag s a SF_SINGLE_SCHED" "has_flag s2' a SF_OPTIMIZED_PATH = has_flag s a SF_OPTIMIZED_PATH"
      "has_flag s2' a SF_INVERT_STEP = has_flag s a SF_INVERT_STEP" "st_dir_pin (steppers s2' a) = st_dir_pin ?x"
      "st_step_pin (steppers s2' a) = st_step_pin ?x" "st_mq (steppers s2' a) = st_mq ?x" "gpio_level s2' = gpio_level s"
      "HAVE_AVR_OPTIMIZATION s2' = HAVE_AVR_OPTIMIZATION s"
      using stop_flags_bits [of "st_flags ?x"] stop_frame_fields(11) [OF f1]
      by (simp_all add: s2'_def s2_def has_flag_def st1 stop_flags_def)
    define s4 where "s4 = gpio_out_write (st_dir_pin ?x) False s2'"
    have h4: "has_flag s4 a f = has_flag s2' a f" "HAVE_AVR_OPTIMIZATION s4 = HAVE_AVR_OPTIMIZATION s2'" "steppers s4 = steppers s2'" for f
      by (simp_all add: s4_def gpio_out_write_def has_flag_def HAVE_AVR_OPTIMIZATION_def)
    have s3: "(if hw then gpio_out_write (st_step_pin ?x) (has_flag s a SF_INVERT_STEP) s4 else s4) = s3"
      by (auto simp: s4_def s3_def gpio_out_write_def s2'_def s2_def upd_stepper_def st1 stop_flags_def gl_def fun_eq_iff)
    have "stepper_stop a reason s = (case free_moves (st_mq (steppers s3 a)) s3 of None \<Rightarrow> Fault
          | Some r \<Rightarrow> obind r (\<lambda>mq s. Ret () (upd_stepper a (\<lambda>x. x\<lparr>st_mq := mq\<rparr>) s)))"
      unfolding stepper_stop_def s1(1) obind.simps Let_def s2_def [symmetric] g s2'_def [symmetric] h s4_def [symmetric] h4
      using s3 by (simp add: hw_def)
    then show ?thesis by (simp add: s3_def)
  qed
  have f3: "stop_frame s1 s3" by (simp add: s3_def stop_frame_def set_waketime_def upd_timer_def)
  have "mp.conf s3 fs ((st_mq ?x, ys) # qs)" using c by (subst conf_cong [of _ s]) (simp_all add: s3_def st1)
  from free_moves_conf [OF this] obtain mq s4 where s4: "free_moves (st_mq ?x) s3 = Some (Ret mq s4)" "mq_first mq = None"
    "mp.conf s4 (rev ys @ fs) ((mq, []) # qs)" by blast
  obtain mn mf where e4: "s4 = s3\<lparr>move_next := mn, move_free_list := mf\<rparr>" using free_moves_frame [OF s4(1)] by blast
  have st4: "steppers s4 = steppers s3" "gpio_level s4 = gpio_level s3" "timers s4 = timers s3" "timer_list s4 = timer_list s3"
    "last_insert s4 = last_insert s3" by (simp_all add: e4)
  define s' where "s' = upd_stepper a (\<lambda>x. x\<lparr>st_mq := mq\<rparr>) s4"
  have f4: "stop_frame s3 s'" by (simp add: s'_def e4 stop_frame_def upd_stepper_def)
  have "sched_inv s' zs" using inv2 by (subst sched_inv_cong [of _ "set_waketime (step_time a) 0 s1"]) (simp_all add: s'_def st4 s3_def upd_stepper_def)
  moreover have "mp.conf s' (rev ys @ fs) ((mq, []) # qs)" using s4(3) by (subst conf_cong [of _ s4]) (simp_all add: s'_def)
  moreover have "stepper_stop a reason s = Ret () s'" using stop s4(1) by (simp add: s'_def)
  moreover have "stop_frame s s'" using f1 f3 f4 stop_frame_trans by blast
  ultimately show ?thesis
    using s1(3) s4(2) by (rule_tac that [of s' zs mq]) (simp_all add: s'_def st4 s3_def gl_def hw_def)
qed

end
