(* ===== verification/Stepper_Props.thy ===== *)
theory Stepper_Props
  imports Stepper_Lib
begin

text \<open>
The properties of \<open>src/stepper.c\<close> and of its use by \<open>src/trsync.c\<close>.
\<close>

lemma conf_drop: "mp.conf s fs ((h, []) # qs) \<Longrightarrow> mp.conf s fs qs"
  unfolding mp.conf_def by simp

lemma wabs_idem [simp]: "wabs (wabs p) = wabs p"
proof -
  have "wabs p = p \<or> wabs p = - p" by (simp add: wabs_def)
  then show ?thesis by (metis wabs_minus)
qed

lemma position_cong:
  fixes s s' :: "'z stepper_state_scheme"
  shows "steppers s' b = steppers s b \<Longrightarrow> stepper_get_position b s' = stepper_get_position b s"
  by (simp add: stepper_get_position_def has_flag_def Let_def)

lemma stopped_position:
  fixes s' :: "'z stepper_state_scheme"
  assumes "st_position (steppers s' a) = - p" "st_count (steppers s' a) = 0"
  shows "stepper_get_position a s' = wabs p"
  using assms by (simp add: get_position_wabs position_word_def steps_left_def)

text \<open>
  The steppers \<open>as\<close> are registered to stop with \<open>ts\<close>, in the order of its signal list; \<open>q\<close> are the moves queued
  for each, \<open>fs\<close> the free moves, \<open>qs\<close> the other queues.
\<close>

definition signals :: "'z stepper_state_scheme \<Rightarrow> nat \<Rightarrow> nat list \<Rightarrow> bool" where
  "signals s ts as \<longleftrightarrow> path (tss_next s) (ts_signals (trsyncs s ts)) as \<and> distinct as
     \<and> (\<forall>a \<in> set as. tss_func s a = Some Stepper_stop)"

definition queued_moves ::
  "'z stepper_state_scheme \<Rightarrow> nat list \<Rightarrow> nat list \<Rightarrow> (nat \<Rightarrow> nat list) \<Rightarrow> (move_queue_head \<times> nat list) list \<Rightarrow> bool" where
  "queued_moves s fs as q qs \<longleftrightarrow> pool_conf s fs (map (\<lambda>a. (st_mq (steppers s a), q a)) as @ qs)"

lemma dispatch_signals_stop:
  fixes s :: "'z stepper_state_scheme"
  assumes "sched_inv s xs" "signals s ts as" "queued_moves s fs as q qs"
  shows "\<exists>s' zs gs. dispatch_signals call_signal ts reason s = Some (Ret () s')
      \<and> sched_inv s' zs \<and> set zs - {Deleted_timer} = set xs - step_time ` set as - {Deleted_timer}
      \<and> mp.conf s' gs qs
      \<and> (\<forall>a \<in> set as. stopped (steppers s' a) \<and> stepper_get_position a s' = stepper_get_position a s \<and> tss_func s' a = None)
      \<and> (\<forall>b. b \<notin> set as \<longrightarrow> steppers s' b = steppers s b \<and> tss_func s' b = tss_func s b)
      \<and> trsyncs s' = (trsyncs s)(ts := (trsyncs s ts)\<lparr>ts_signals := None\<rparr>)"
  using assms
proof (induction as arbitrary: s xs fs)
  case Nil
  then have n: "ts_signals (trsyncs s ts) = None" by (simp add: signals_def)
  have "(trsyncs s ts)\<lparr>ts_signals := None\<rparr> = trsyncs s ts" using n by simp
  then show ?case
    using Nil n by (subst dispatch_signals.simps) (auto simp: queued_moves_def pool_conf_eq fun_upd_idem)
next
  case (Cons a as)
  let ?x = "steppers s a"
  have sg: "ts_signals (trsyncs s ts) = Some a" "path (tss_next s) (tss_next s a) as" "a \<notin> set as" "distinct as"
    "tss_func s a = Some Stepper_stop" "\<forall>b \<in> set as. tss_func s b = Some Stepper_stop"
    using Cons.prems(2) by (auto simp: signals_def)
  define s0 where "s0 = (upd_trsync ts (\<lambda>t. t\<lparr>ts_signals := tss_next s a\<rparr>) s)
      \<lparr>tss_next := (tss_next s)(a := None), tss_func := (tss_func s)(a := None)\<rparr>"
  have e: "dispatch_signals call_signal ts reason s =
      (case stepper_stop a reason s0 of Ret _ s \<Rightarrow> dispatch_signals call_signal ts reason s
         | Longjmp r s \<Rightarrow> Some (Longjmp r s) | Fault \<Rightarrow> Some Fault)"
    using sg by (subst dispatch_signals.simps) (simp add: s0_def upd_trsync_def Let_def call_signal_def)
  have z: "steppers s0 = steppers s" "move_next s0 = move_next s" "move_free_list s0 = move_free_list s"
    "trsyncs s0 = (trsyncs s)(ts := (trsyncs s ts)\<lparr>ts_signals := tss_next s a\<rparr>)"
    "tss_next s0 = (tss_next s)(a := None)" "tss_func s0 = (tss_func s)(a := None)"
    "timers s0 = timers s" "timer_list s0 = timer_list s" "last_insert s0 = last_insert s"
    by (simp_all add: s0_def upd_trsync_def)
  have p0: "stepper_get_position b s0 = stepper_get_position b s" for b
    by (rule position_cong) (simp add: z)
  have "sched_inv s0 xs" using Cons.prems(1) by (subst sched_inv_cong [OF z(7-9)])
  moreover have "mp.conf s0 fs ((st_mq (steppers s0 a), q a) # map (\<lambda>a. (st_mq (steppers s a), q a)) as @ qs)"
    using Cons.prems(3) by (subst conf_cong [OF z(2,3)]) (simp add: queued_moves_def pool_conf_eq z)
  ultimately obtain s1 ws mq where s1: "stepper_stop a reason s0 = Ret () s1" "stop_frame s0 s1" "sched_inv s1 ws"
    "set ws - {Deleted_timer} = set xs - {step_time a, Deleted_timer}"
    "mp.conf s1 (rev (q a) @ fs) ((mq, []) # map (\<lambda>a. (st_mq (steppers s a), q a)) as @ qs)" "mq_first mq = None"
    "steppers s1 = (steppers s0)(a := (steppers s0 a)\<lparr>st_next_step_time := 0, st_position := - stepper_get_position a s0,
        st_count := 0, st_flags := stop_flags (st_flags (steppers s0 a)), st_mq := mq\<rparr>)"
    by (rule stepper_stop_effect)
  note f1 = stop_frame_fields [OF s1(2)]
  have st1: "steppers s1 b = steppers s b" if "b \<noteq> a" for b using s1(7) that by (simp add: z)
  have sig: "signals s1 ts as" using sg unfolding signals_def f1 z by auto
  have "steppers s1 b = steppers s b" if "b \<in> set as" for b
    by (rule st1) (use that sg(3) in auto)
  then have me: "map (\<lambda>a. (st_mq (steppers s1 a), q a)) as = map (\<lambda>a. (st_mq (steppers s a), q a)) as" by simp
  have qm: "queued_moves s1 (rev (q a) @ fs) as q qs" unfolding queued_moves_def pool_conf_eq me by (rule conf_drop [OF s1(5)])
  obtain s' zs gs where s': "dispatch_signals call_signal ts reason s1 = Some (Ret () s')" "sched_inv s' zs"
    "set zs - {Deleted_timer} = set ws - step_time ` set as - {Deleted_timer}" "mp.conf s' gs qs"
    "\<forall>a \<in> set as. stopped (steppers s' a) \<and> stepper_get_position a s' = stepper_get_position a s1 \<and> tss_func s' a = None"
    "\<forall>b. b \<notin> set as \<longrightarrow> steppers s' b = steppers s1 b \<and> tss_func s' b = tss_func s1 b" "trsyncs s' = (trsyncs s1)(ts := (trsyncs s1 ts)\<lparr>ts_signals := None\<rparr>)"
    using Cons.IH [OF s1(3) sig qm] by blast
  have pb: "stepper_get_position b s1 = stepper_get_position b s" if "b \<noteq> a" for b
    by (rule position_cong) (rule st1 [OF that])
  have sa: "steppers s' a = steppers s1 a" using s'(6) sg(3) by simp
  have st: "stopped (steppers s' a)" unfolding sa stopped_def s1(7) using s1(6) by simp
  have "stepper_get_position a s' = wabs (stepper_get_position a s)"
    by (rule stopped_position) (simp_all add: sa s1(7) p0)
  then have pa: "stepper_get_position a s' = stepper_get_position a s" by (simp add: get_position_wabs)
  have fa: "tss_func s' a = None" using s'(6) sg(3) by (simp add: f1 z)
  have "set zs - {Deleted_timer} = set xs - step_time ` set (a # as) - {Deleted_timer}" using s'(3) s1(4) by auto
  moreover have "trsyncs s' = (trsyncs s)(ts := (trsyncs s ts)\<lparr>ts_signals := None\<rparr>)" using s'(7) by (simp add: f1 z)
  moreover have "\<forall>b. b \<notin> set (a # as) \<longrightarrow> steppers s' b = steppers s b \<and> tss_func s' b = tss_func s b"
    using s'(6) st1 by (simp add: f1 z)
  moreover have "\<forall>b \<in> set (a # as). stopped (steppers s' b) \<and> stepper_get_position b s' = stepper_get_position b s \<and> tss_func s' b = None"
    using s'(5) st pa fa pb sg(3) by (metis set_ConsD)
  moreover have "dispatch_signals call_signal ts reason s = Some (Ret () s')" using e s1(1) s'(1) by simp
  ultimately show ?case using s'(2,4) by blast
qed

definition demo_stepper :: stepper_state where
  "demo_stepper = (base_state.extend demo_base
     \<lparr>gpio_level = (\<lambda>_. False), gpio_in_tape = (\<lambda>_ _. False), gpio_in_pos = (\<lambda>_. 0), cfg_gpio_port = (\<lambda>_. True),
      trsyncs = (\<lambda>_. zero_trsync\<lparr>ts_signals := Some 100, ts_flags := 1\<rparr>), tss_next = (\<lambda>_. None), tss_func = (\<lambda>_. Some Stepper_stop), cfg_sizeof_trsync = 40,
      steppers = (\<lambda>_. zero_stepper\<lparr>st_step_pin := 1, st_dir_pin := 2, st_position := 7, st_flags := 48,
        st_mq := \<lparr>mq_first = Some 200, mq_last = Some 200\<rparr>\<rparr>),
      stepper_moves = (\<lambda>_. \<lparr>m_interval = 1000, m_add = 10, m_count = 3, m_flags = 0\<rparr>),
      cfg_both_edge = True, cfg_mach_avr = False, cfg_fast8_bits = 32, cfg_sizeof_stepper = 80,
      cfg_sizeof_stepper_move = 16\<rparr>)\<lparr>cfg_inline_stepper_hack := True\<rparr>"

lemmas demo_stepper_simps = demo_stepper_def base_state.extend_def demo_base_simps base_state.defs sched_state.defs

lemma demo_stepper_fields [simp]:
  "steppers demo_stepper a = zero_stepper\<lparr>st_step_pin := 1, st_dir_pin := 2, st_position := 7, st_flags := 48,
        st_mq := \<lparr>mq_first = Some 200, mq_last = Some 200\<rparr>\<rparr>"
  "stepper_moves demo_stepper m = \<lparr>m_interval = 1000, m_add = 10, m_count = 3, m_flags = 0\<rparr>"
  "HAVE_EDGE_OPTIMIZATION demo_stepper" "move_next demo_stepper = (\<lambda>_. None)" "move_free_list demo_stepper = None"
  "timers demo_stepper = timers demo_sched" "timer_list demo_stepper = timer_list demo_sched"
  "last_insert demo_stepper = last_insert demo_sched" "gpio_level demo_stepper p = False"
  by (simp_all add: demo_stepper_simps HAVE_EDGE_OPTIMIZATION_def)

section \<open>Properties\<close>



definition step_event :: "nat \<Rightarrow> 'z stepper_state_scheme \<Rightarrow> (sf, 'z stepper_state_scheme) outcome" where
  "step_event a s =
     (if t_func (timers s (step_time a)) = Some Stepper_event_full then stepper_event_full a s else stepper_event a s)"

definition step_inv :: "nat \<Rightarrow> 'z stepper_state_scheme \<Rightarrow> bool" where
  "step_inv a s \<longleftrightarrow> st_count (steppers s a) \<noteq> 0 \<and> (has_flag s a SF_OPTIMIZED_PATH \<longrightarrow> has_flag s a SF_SINGLE_SCHED)
     \<and> (t_func (timers s (step_time a)) \<noteq> Some Stepper_event_full \<and> (HAVE_EDGE_OPTIMIZATION s \<or> HAVE_AVR_OPTIMIZATION s) \<longrightarrow>
          has_flag s a SF_SINGLE_SCHED \<and> (HAVE_AVR_OPTIMIZATION s \<longrightarrow> unat (st_count (steppers s a)) < 2 ^ 16))"


definition demo_stepping :: stepper_state where
  "demo_stepping = upd_stepper 100 (\<lambda>x. x\<lparr>st_count := 2, st_interval := 1000\<rparr>) demo_stepper"


text \<open>
  C36. On the fully scheduled path no event comes sooner than \<open>step_pulse_ticks\<close> after the clock was last read,
  which is after the last change of the step pin (and, for a move that reverses, of the direction pin): the pulse
  width and the direction setup time are kept for every schedule the host sends.
\<close>

theorem step_pulse_width:
  fixes s :: "'z stepper_state_scheme"
  assumes "stepper_event_full a s = Ret SF_RESCHEDULE s'" "st_count (steppers s a) \<noteq> 0"
    and "\<not> ((HAVE_EDGE_OPTIMIZATION s \<or> HAVE_AVR_OPTIMIZATION s) \<and> has_flag s a SF_OPTIMIZED_PATH)"
  shows "\<not> timer_is_before (waketime s' (step_time a)) (clk s (clk_pos s' - 1) + st_step_pulse_ticks (steppers s a))"
  by (rule full_min_time [OF assms])

definition demo_full :: stepper_state where
  "demo_full = upd_stepper 100 (\<lambda>x. x\<lparr>st_count := 2, st_interval := 1000, st_flags := 0, st_step_pulse_ticks := 32\<rparr>) demo_stepper"

theorem step_pulse_width_witness:
  "\<exists>s'. stepper_event_full 100 demo_full = Ret SF_RESCHEDULE s'
     \<and> \<not> timer_is_before (waketime s' (step_time 100)) (clk demo_full (clk_pos s' - 1) + 32)"
proof -
  have c: "st_count (steppers demo_full 100) = 2" "\<not> has_flag demo_full 100 f" "st_step_pulse_ticks (steppers demo_full 100) = 32" for f
    by (simp_all add: demo_full_def has_flag_def)
  have "\<exists>s'. stepper_event_full 100 demo_full = Ret SF_RESCHEDULE s'"
    unfolding stepper_event_full_def timer_read_time_def Let_def by (simp add: c)
  then obtain s' where s': "stepper_event_full 100 demo_full = Ret SF_RESCHEDULE s'" by blast
  from step_pulse_width [OF this] s' show ?thesis by (simp add: c)
qed

lemma trigger_effect:
  fixes s :: "'z stepper_state_scheme"
  assumes "sched_inv s xs" "signals s ts as" "queued_moves s fs as q qs"
    and "ts_flags (trsyncs s ts) AND TSF_CAN_TRIGGER \<noteq> 0"
  shows "\<exists>s' zs. trsync_do_trigger call_signal ts reason s = Ret () s'
      \<and> (\<forall>a \<in> set as. stopped (steppers s' a) \<and> stepper_get_position a s' = stepper_get_position a s)
      \<and> sched_inv s' zs \<and> (\<forall>a \<in> set as. step_time a \<notin> set zs)
      \<and> ts_trigger_reason (trsyncs s' ts) = reason \<and> ts_signals (trsyncs s' ts) = None
      \<and> ts_flags (trsyncs s' ts) AND TSF_REPORT \<noteq> 0 \<and> task_wakes s' trsync_wake = 1
      \<and> trsync_do_trigger call_signal ts reason' s' = Ret () s'"
proof -
  let ?f = "(ts_flags (trsyncs s ts) AND NOT TSF_CAN_TRIGGER) OR TSF_REPORT"
  define s0 where "s0 = upd_trsync ts (\<lambda>t. t\<lparr>ts_trigger_reason := reason, ts_flags := ?f\<rparr>) s"
  have z: "steppers s0 = steppers s" "move_next s0 = move_next s" "move_free_list s0 = move_free_list s"
    "trsyncs s0 = (trsyncs s)(ts := (trsyncs s ts)\<lparr>ts_trigger_reason := reason, ts_flags := ?f\<rparr>)"
    "tss_next s0 = tss_next s" "tss_func s0 = tss_func s"
    "timers s0 = timers s" "timer_list s0 = timer_list s" "last_insert s0 = last_insert s"
    by (simp_all add: s0_def upd_trsync_def)
  have "sched_inv s0 xs" using assms(1) by (subst sched_inv_cong [OF z(7-9)])
  moreover have "signals s0 ts as" using assms(2) by (simp add: signals_def z)
  moreover have "queued_moves s0 fs as q qs" using assms(3) unfolding queued_moves_def pool_conf_eq z by (subst conf_cong [OF z(2,3)])
  ultimately have "\<exists>s' zs gs. dispatch_signals call_signal ts reason s0 = Some (Ret () s')
      \<and> sched_inv s' zs \<and> set zs - {Deleted_timer} = set xs - step_time ` set as - {Deleted_timer}
      \<and> mp.conf s' gs qs
      \<and> (\<forall>a \<in> set as. stopped (steppers s' a) \<and> stepper_get_position a s' = stepper_get_position a s0 \<and> tss_func s' a = None)
      \<and> (\<forall>b. b \<notin> set as \<longrightarrow> steppers s' b = steppers s0 b \<and> tss_func s' b = tss_func s0 b)
      \<and> trsyncs s' = (trsyncs s0)(ts := (trsyncs s0 ts)\<lparr>ts_signals := None\<rparr>)" by (rule dispatch_signals_stop)
  then obtain s1 zs gs where s1: "dispatch_signals call_signal ts reason s0 = Some (Ret () s1)" "sched_inv s1 zs"
    "set zs - {Deleted_timer} = set xs - step_time ` set as - {Deleted_timer}"
    "\<forall>a \<in> set as. stopped (steppers s1 a) \<and> stepper_get_position a s1 = stepper_get_position a s0"
    "trsyncs s1 = (trsyncs s0)(ts := (trsyncs s0 ts)\<lparr>ts_signals := None\<rparr>)"
    by blast
  define s' where "s' = sched_wake_task trsync_wake s1"
  have w: "steppers s' = steppers s1" "trsyncs s' = trsyncs s1" "timers s' = timers s1" "timer_list s' = timer_list s1"
    "last_insert s' = last_insert s1" "task_wakes s' trsync_wake = 1"
    by (simp_all add: s'_def sched_wake_task_def sched_wake_tasks_def Let_def)
  have r: "trsync_do_trigger call_signal ts reason s = Ret () s'"
    unfolding trsync_do_trigger_def Let_def s0_def [symmetric] s1(1) s'_def using assms(4) by simp
  have fl: "ts_flags (trsyncs s' ts) = ?f" "ts_trigger_reason (trsyncs s' ts) = reason" "ts_signals (trsyncs s' ts) = None"
    by (simp_all add: w s1(5) z)
  have b: "?f AND TSF_REPORT \<noteq> 0" "?f AND TSF_CAN_TRIGGER = 0"
    by (simp_all add: bit.conj_disj_distrib2 and.assoc)
  have "trsync_do_trigger call_signal ts reason' s' = Ret () s'"
    unfolding trsync_do_trigger_def fl using b(2) by (simp only: Let_def simp_thms if_True)
  moreover have "sched_inv s' zs" using s1(2) by (subst sched_inv_cong [OF w(3-5)])
  moreover have "\<forall>a \<in> set as. step_time a \<notin> set zs" using s1(3) by auto
  moreover have "\<forall>a \<in> set as. stopped (steppers s' a) \<and> stepper_get_position a s' = stepper_get_position a s"
    using s1(4) position_cong [of s'] position_cong [of s0] by (simp add: w z)
  ultimately show ?thesis using r fl b w(6) by (intro exI [of _ s'] exI [of _ zs]) simp
qed


lemma demo_stepper_inv: "sched_inv demo_stepper [Periodic_timer]"
proof -
  have "sched_inv (sched_state.truncate demo_stepper) [Periodic_timer] = sched_inv demo_sched [Periodic_timer]"
    by (rule sched_inv_cong) (simp_all add: sched_state.defs)
  then have "sched_inv (sched_state.truncate demo_stepper) [Periodic_timer]" using demo_sched_inv by simp
  then show ?thesis by (simp add: sched_inv_def sched_list_def ordered_from_def off_def sched_state.defs)
qed


text \<open>
  A stopped stepper drops its moves: until \<open>reset_step_clock\<close> a \<open>queue_step\<close> command (with a valid count)
  leaves the stepper, the timers and the pool of moves as they are; a count of zero shuts down.
\<close>

theorem queue_step_after_stop:
  fixes s :: "'z stepper_state_scheme"
  assumes "stepper_oid_lookup (ucast (args ! 0)) s = Ret a s" "stopped (steppers s a)" "pool_conf s (m # ms) qs"
  shows "if (ucast (args ! 2) :: 16 word) = 0 then \<exists>s'. command_queue_step args s = Longjmp ''Invalid count parameter'' s'
         else \<exists>s'. command_queue_step args s = Ret () s' \<and> steppers s' = steppers s \<and> timers s' = timers s
                \<and> timer_list s' = timer_list s \<and> pool_conf s' (m # ms) qs"
proof -
  have st: "st_count (steppers s a) = 0" "st_flags (steppers s a) AND 8 \<noteq> 0" using assms(2) by (simp_all add: stopped_def)
  have x: "(st_flags (steppers s a) XOR 1) AND 8 \<noteq> 0" using st(2) by (simp add: bit.conj_xor_distrib2)
  have al: "move_free_list s = Some m" using assms(3) by (simp add: pool_conf_def free_list_def)
  show ?thesis
  proof (cases "(ucast (args ! 2) :: 16 word) = 0")
    case True
    then show ?thesis
      using assms(1) al by (simp add: command_queue_step_def move_alloc_def upd_move_def Let_def sched_shutdown_def)
  next
    case False
    have "\<exists>f. command_queue_step args s = Ret () (move_free m (s\<lparr>move_free_list := move_next s m, stepper_moves := f\<rparr>))"
      using False assms(1) al st x
      by (auto simp: command_queue_step_def move_alloc_def upd_move_def Let_def)
    then obtain f where f: "command_queue_step args s = Ret () (move_free m (s\<lparr>move_free_list := move_next s m, stepper_moves := f\<rparr>))" ..
    let ?s = "move_free m (s\<lparr>move_free_list := move_next s m, stepper_moves := f\<rparr>)"
    have "move_next ?s = move_next s" "move_free_list ?s = move_free_list s"
      by (auto simp: move_free_def set_move_next_def al Let_def)
    then have "pool_conf ?s (m # ms) qs" using assms(3) unfolding pool_conf_eq by (subst conf_cong)
    moreover have "steppers ?s = steppers s" "timers ?s = timers s" "timer_list ?s = timer_list s"
      by (simp_all add: move_free_def set_move_next_def Let_def)
    ultimately show ?thesis using f False by auto
  qed
qed

definition demo_stopped :: stepper_state where
  "demo_stopped = demo_stepper\<lparr>steppers := (\<lambda>_. zero_stepper\<lparr>st_flags := 8\<rparr>), move_free_list := Some 200,
     oids := Some [\<lparr>o_type = Some Command_config_stepper, o_data = Some 100\<rparr>], oid_count := 1\<rparr>"

theorem queue_step_after_stop_witness:
  "\<exists>s'. command_queue_step [0, 1000, 3, 0] demo_stopped = Ret () s' \<and> timers s' = timers demo_stopped \<and> pool_conf s' [200] []"
proof -
  have "stepper_oid_lookup (ucast ([0, 1000, 3, 0 :: u32] ! 0)) demo_stopped = Ret 100 demo_stopped"
    by (simp add: stepper_oid_lookup_def deref_def oid_lookup_def rd_def demo_stopped_def)
  moreover have "stopped (steppers demo_stopped 100)" by (simp add: stopped_def demo_stopped_def zero_stepper_def)
  moreover have "pool_conf demo_stopped [200] []" by (simp add: pool_conf_def free_list_def demo_stopped_def)
  ultimately show ?thesis using queue_step_after_stop [of "[0, 1000, 3, 0]" demo_stopped 100 200 "[]" "[]"] by auto
qed

end
