(* ===== verification/Endstop_Props.thy ===== *)
theory Endstop_Props
  imports Endstop Stepper_Props
begin

text \<open>
The homing run of an end stop (\<open>src/endstop.c\<close>): its invariant, and its properties together with the trigger (\<open>src/trsync.c\<close>) and the steppers (\<open>src/stepper.c\<close>).
\<close>

section \<open>Samples\<close>

text \<open>Sample number \<open>n\<close> of the pin has the level the end stop waits for.\<close>

definition wanted :: "'z endstop_state_scheme \<Rightarrow> nat \<Rightarrow> nat \<Rightarrow> bool" where
  "wanted s a n \<longleftrightarrow> gpio_in_tape s (es_pin (endstops s a)) n = (es_flags (endstops s a) AND ESF_PIN_HIGH \<noteq> 0)"

definition samples_read :: "'z endstop_state_scheme \<Rightarrow> nat \<Rightarrow> nat" where
  "samples_read s a = gpio_in_pos s (es_pin (endstops s a))"

lemma no_match_iff: "no_match val flags \<longleftrightarrow> val \<noteq> (flags AND ESF_PIN_HIGH \<noteq> 0)"
proof -
  have "NOT flags AND 1 = 1 XOR (flags AND 1)" by (rule bit_word_eqI) (auto simp: bit_simps)
  moreover have "flags AND 1 = 0 \<or> flags AND 1 = 1" by (metis and_one_eq odd_iff_mod_2_eq_one parity_cases)
  ultimately show ?thesis by (auto simp: no_match_def)
qed

text \<open>The timer callback of an end stop, as the timer's \<open>func\<close> selects it.\<close>

definition endstop_fire :: "nat \<Rightarrow> 'z endstop_state_scheme \<Rightarrow> (sf, 'z endstop_state_scheme) outcome" where
  "endstop_fire a s =
     (if t_func (timers s (endstop_time a)) = Some Endstop_oversample_event then endstop_oversample_event a s
      else endstop_event a s)"

text \<open>A step of other code: it leaves the end stop, the callback of its timer and its pin alone.\<close>

definition others_step :: "nat \<Rightarrow> 'z endstop_state_scheme \<Rightarrow> 'z endstop_state_scheme \<Rightarrow> bool" where
  "others_step a s s' \<longleftrightarrow> endstops s' a = endstops s a \<and> gpio_in_tape s' = gpio_in_tape s
     \<and> samples_read s' a = samples_read s a
     \<and> t_func (timers s' (endstop_time a)) = t_func (timers s (endstop_time a))"

inductive homing_run :: "nat \<Rightarrow> 'z endstop_state_scheme \<Rightarrow> 'z endstop_state_scheme \<Rightarrow> bool" for a s0 where
  start: "homing_run a s0 s0"
| event: "homing_run a s0 s \<Longrightarrow> endstop_fire a s = Ret SF_RESCHEDULE s' \<Longrightarrow> homing_run a s0 s'"
| others: "homing_run a s0 s \<Longrightarrow> others_step a s s' \<Longrightarrow> homing_run a s0 s'"

text \<open>
  The invariant of a homing run: while oversampling, the last \<open>1 + sample_count - trigger_count\<close> samples had
  the wanted level.
\<close>

definition homing_inv :: "'z endstop_state_scheme \<Rightarrow> nat \<Rightarrow> bool" where
  "homing_inv s a \<longleftrightarrow>
     (let e = endstops s a; n = samples_read s a in
      es_sample_count e \<noteq> 0
      \<and> (if t_func (timers s (endstop_time a)) = Some Endstop_oversample_event
         then es_trigger_count e \<noteq> 0 \<and> es_trigger_count e \<le> es_sample_count e
           \<and> 1 + unat (es_sample_count e) - unat (es_trigger_count e) \<le> n
           \<and> (\<forall>i < 1 + unat (es_sample_count e) - unat (es_trigger_count e). wanted s a (n - 1 - i))
         else es_trigger_count e = es_sample_count e))"

lemma upd_endstop_simps [simp]:
  "endstops (upd_endstop a f s) = (endstops s)(a := f (endstops s a))" "timers (upd_endstop a f s) = timers s"
  "gpio_in_tape (upd_endstop a f s) = gpio_in_tape s" "gpio_in_pos (upd_endstop a f s) = gpio_in_pos s"
  by (simp_all add: upd_endstop_def)

lemma set_waketime_endstop [simp]:
  fixes s :: "'z endstop_state_scheme"
  shows "endstops (set_waketime t w s) = endstops s" "gpio_in_tape (set_waketime t w s) = gpio_in_tape s"
    "gpio_in_pos (set_waketime t w s) = gpio_in_pos s"
    "endstops (set_func t f s) = endstops s" "gpio_in_tape (set_func t f s) = gpio_in_tape s"
    "gpio_in_pos (set_func t f s) = gpio_in_pos s"
    "t_func (timers (set_func t f s) x) = (if x = t then Some f else t_func (timers s x))"
    "waketime (set_func t f s) x = waketime s x"
  by (simp_all add: set_waketime_def set_func_def upd_timer_def)

lemma gpio_in_read_endstop [simp]:
  fixes s :: "'z endstop_state_scheme"
  shows "endstops (snd (gpio_in_read p s)) = endstops s" "timers (snd (gpio_in_read p s)) = timers s"
    "gpio_in_tape (snd (gpio_in_read p s)) = gpio_in_tape s"
    "gpio_in_pos (snd (gpio_in_read p s)) = (gpio_in_pos s)(p := Suc (gpio_in_pos s p))"
    "fst (gpio_in_read p s) = gpio_in_tape s p (gpio_in_pos s p)"
  by (simp_all add: gpio_in_read_def)

lemma oversample_cases:
  fixes s :: "'z endstop_state_scheme"
  assumes "endstop_oversample_event a s = Ret r s'"
  obtains (miss) "r = SF_RESCHEDULE" "\<not> wanted s a (samples_read s a)" "t_func (timers s' (endstop_time a)) = Some Endstop_event"
      "endstops s' a = (endstops s a)\<lparr>es_trigger_count := es_sample_count (endstops s a)\<rparr>"
  | (more) "r = SF_RESCHEDULE" "wanted s a (samples_read s a)" "es_trigger_count (endstops s a) \<noteq> 1"
      "t_func (timers s' (endstop_time a)) = t_func (timers s (endstop_time a))"
      "endstops s' a = (endstops s a)\<lparr>es_trigger_count := es_trigger_count (endstops s a) - 1\<rparr>"
      "gpio_in_tape s' = gpio_in_tape s" "samples_read s' a = Suc (samples_read s a)"
  | (hit) ts s1 where "r = SF_DONE" "wanted s a (samples_read s a)" "es_trigger_count (endstops s a) = 1"
      "es_ts (endstops s a) = Some ts" "s1 = snd (gpio_in_read (es_pin (endstops s a)) s)"
      "trsync_do_trigger call_signal ts (es_trigger_reason (endstops s a)) s1 = Ret () s'"
proof -
  let ?p = "es_pin (endstops s a)"
  have e: "endstop_oversample_event a s = (let val = fst (gpio_in_read ?p s); s = snd (gpio_in_read ?p s) in
      if no_match val (es_flags (endstops s a)) then
        let s = set_func (endstop_time a) Endstop_event s;
            s = set_waketime (endstop_time a) (es_nextwake (endstops s a)) s;
            s = upd_endstop a (\<lambda>e. e\<lparr>es_trigger_count := es_sample_count e\<rparr>) s
        in Ret SF_RESCHEDULE s
      else
        let count = es_trigger_count (endstops s a) - 1 in
        if count = 0 then
          (case es_ts (endstops s a) of
             None \<Rightarrow> Fault
           | Some ts \<Rightarrow> obind (trsync_do_trigger call_signal ts (es_trigger_reason (endstops s a)) s) (\<lambda>_ s. Ret SF_DONE s))
        else
          let s = upd_endstop a (\<lambda>e. e\<lparr>es_trigger_count := count\<rparr>) s
          in Ret SF_RESCHEDULE (set_waketime (endstop_time a) (waketime s (endstop_time a) + es_sample_time (endstops s a)) s))"
    by (simp add: endstop_oversample_event_def Let_def split_beta)
  show ?thesis
  proof (cases "wanted s a (samples_read s a)")
    case False
    then show ?thesis
      using assms miss by (auto simp: e Let_def no_match_iff wanted_def samples_read_def)
  next
    case True
    then have nm: "\<not> no_match (gpio_in_tape s ?p (gpio_in_pos s ?p)) (es_flags (endstops s a))"
      by (simp add: no_match_iff wanted_def samples_read_def)
    show ?thesis
    proof (cases "es_trigger_count (endstops s a) = 1")
      case False
      then show ?thesis using assms nm True more by (auto simp: e Let_def samples_read_def)
    next
      case c: True
      then show ?thesis using assms nm True hit by (auto simp: e Let_def outcome_simps split: option.splits)
    qed
  qed
qed

lemma oversample_inv:
  fixes s :: "'z endstop_state_scheme"
  assumes inv: "homing_inv s a" and f: "t_func (timers s (endstop_time a)) = Some Endstop_oversample_event"
    and e: "endstop_oversample_event a s = Ret SF_RESCHEDULE s'"
  shows "homing_inv s' a"
  using e
proof (cases rule: oversample_cases)
  case miss
  then show ?thesis using inv by (simp add: homing_inv_def Let_def)
next
  case more
  let ?e = "endstops s a"
  let ?k = "1 + unat (es_sample_count ?e) - unat (es_trigger_count ?e)"
  have i: "es_sample_count ?e \<noteq> 0" "es_trigger_count ?e \<noteq> 0" "es_trigger_count ?e \<le> es_sample_count ?e" "?k \<le> samples_read s a"
    "\<forall>i < ?k. wanted s a (samples_read s a - 1 - i)"
    using inv f by (simp_all add: homing_inv_def Let_def)
  have u: "unat (es_trigger_count ?e - 1) = unat (es_trigger_count ?e) - 1" "unat (es_trigger_count ?e) \<noteq> 0"
    using i(2) by (simp_all add: unat_minus_one unsigned_eq_0_iff)
  have le: "unat (es_trigger_count ?e) \<le> unat (es_sample_count ?e)" using i(3) by (simp add: word_le_nat_alt)
  then have k: "1 + unat (es_sample_count ?e) - unat (es_trigger_count ?e - 1) = Suc ?k" using u by simp
  have w: "wanted s' a n = wanted s a n" for n using more(5,6) by (simp add: wanted_def)
  have "wanted s' a (samples_read s' a - 1 - j)" if "j < Suc ?k" for j
    using that i(5) more(2,7) w by (cases j) auto
  moreover have "es_trigger_count ?e - 1 \<noteq> 0" using more(3) by auto
  moreover have "es_trigger_count ?e - 1 \<le> es_sample_count ?e" using u le by (simp add: word_le_nat_alt)
  ultimately show ?thesis
    using i(1,4) more(4,5,7) f k by (simp add: homing_inv_def Let_def)
qed simp

lemma event_cases:
  fixes s :: "'z endstop_state_scheme"
  assumes inv: "homing_inv s a" and f: "t_func (timers s (endstop_time a)) \<noteq> Some Endstop_oversample_event"
    and e: "endstop_event a s = Ret r s'"
  obtains (miss) "r = SF_RESCHEDULE" "homing_inv s' a"
  | (oversample) s1 where "endstop_oversample_event a s1 = Ret r s'" "homing_inv s1 a"
      "t_func (timers s1 (endstop_time a)) = Some Endstop_oversample_event"
      "endstops s1 a = (endstops s a)\<lparr>es_nextwake := es_nextwake (endstops s1 a)\<rparr>" "gpio_in_tape s1 = gpio_in_tape s"
      "samples_read s1 a = Suc (samples_read s a)"
proof (cases "wanted s a (samples_read s a)")
  case False
  then have "r = SF_RESCHEDULE" "endstops s' = endstops s" "t_func (timers s' (endstop_time a)) = t_func (timers s (endstop_time a))"
    using e by (auto simp: endstop_event_def split_beta Let_def no_match_iff wanted_def samples_read_def)
  then show ?thesis using miss inv f by (simp add: homing_inv_def Let_def)
next
  case True
  define s1 where "s1 = set_func (endstop_time a) Endstop_oversample_event
     (upd_endstop a (\<lambda>e. e\<lparr>es_nextwake := waketime s (endstop_time a) + es_rest_time (endstops s a)\<rparr>)
       (snd (gpio_in_read (es_pin (endstops s a)) s)))"
  have "endstop_oversample_event a s1 = Ret r s'"
    using e True by (simp add: endstop_event_def split_beta Let_def no_match_iff wanted_def samples_read_def s1_def)
  moreover have s1: "t_func (timers s1 (endstop_time a)) = Some Endstop_oversample_event" "gpio_in_tape s1 = gpio_in_tape s"
    "endstops s1 a = (endstops s a)\<lparr>es_nextwake := es_nextwake (endstops s1 a)\<rparr>" "samples_read s1 a = Suc (samples_read s a)"
    by (simp_all add: s1_def samples_read_def)
  moreover have "wanted s1 a n = wanted s a n" for n by (simp add: s1_def wanted_def)
  then have "homing_inv s1 a"
    using inv f True s1 by (auto simp: homing_inv_def Let_def s1_def samples_read_def)
  ultimately show ?thesis using oversample by blast
qed

lemma fire_inv:
  fixes s :: "'z endstop_state_scheme"
  assumes "homing_inv s a" "endstop_fire a s = Ret SF_RESCHEDULE s'"
  shows "homing_inv s' a"
proof (cases "t_func (timers s (endstop_time a)) = Some Endstop_oversample_event")
  case True
  then show ?thesis using assms oversample_inv by (simp add: endstop_fire_def)
next
  case False
  then have "endstop_event a s = Ret SF_RESCHEDULE s'" using assms(2) by (simp add: endstop_fire_def)
  with assms(1) False show ?thesis by (cases rule: event_cases) (auto intro: oversample_inv)
qed

lemma others_inv: "homing_inv s a \<Longrightarrow> others_step a s s' \<Longrightarrow> homing_inv s' a"
proof -
  assume inv: "homing_inv s a" and o: "others_step a s s'"
  then have "wanted s' a = wanted s a" by (simp add: others_step_def wanted_def fun_eq_iff)
  with inv o show ?thesis by (simp add: homing_inv_def others_step_def Let_def split: if_splits)
qed

lemma run_inv: "homing_run a s0 s \<Longrightarrow> homing_inv s0 a \<Longrightarrow> homing_inv s a"
  by (induction rule: homing_run.induct) (auto intro: fire_inv others_inv)

lemma oversample_done:
  fixes s :: "'z endstop_state_scheme"
  assumes inv: "homing_inv s a" and f: "t_func (timers s (endstop_time a)) = Some Endstop_oversample_event"
    and e: "endstop_oversample_event a s = Ret SF_DONE s'"
  shows "unat (es_sample_count (endstops s a)) \<le> samples_read s a
    \<and> (\<forall>i \<le> unat (es_sample_count (endstops s a)). wanted s a (samples_read s a - i))
    \<and> (\<exists>ts. es_ts (endstops s a) = Some ts
        \<and> trsync_do_trigger call_signal ts (es_trigger_reason (endstops s a)) (snd (gpio_in_read (es_pin (endstops s a)) s)) = Ret () s')"
  using e
proof (cases rule: oversample_cases)
  case (hit ts s1)
  then have i: "unat (es_sample_count (endstops s a)) \<le> samples_read s a"
    "\<forall>i < unat (es_sample_count (endstops s a)). wanted s a (samples_read s a - 1 - i)"
    using inv f by (simp_all add: homing_inv_def Let_def)
  have "wanted s a (samples_read s a - j)" if "j \<le> unat (es_sample_count (endstops s a))" for j
    using that i(2) hit(2) by (cases j) auto
  with i(1) hit show ?thesis by auto
qed simp_all

section \<open>Starting a homing run\<close>

lemma set_next_func [simp]: "t_func (timers (set_next t n s) x) = t_func (timers s x)"
  by (simp add: set_next_def upd_timer_def)

lemma add_timer_frame:
  assumes "sched_add_timer t s = Ret u s'"
  shows "s' = s\<lparr>timers := timers s', timer_list := timer_list s', timer_kicked := timer_kicked s', clk_pos := clk_pos s'\<rparr>
     \<and> (\<forall>x. t_func (timers s' x) = t_func (timers s x))"
proof (cases "timer_is_before (waketime s t) (waketime s (timer_list s))")
  case True
  then show ?thesis
    using assms
    by (auto simp: sched_add_timer_def timer_read_time_def sched_try_shutdown_def sched_shutdown_def Let_def outcome_simps
        set_waketime_def set_next_def upd_timer_def split: if_splits)
next
  case False
  then obtain p q where "insert_pos (timers s) (waketime s t) (timer_list s) = Some (p, q)"
    using assms by (auto simp: sched_add_timer_def insert_timer_def split: option.splits)
  then show ?thesis
    using assms False by (auto simp: sched_add_timer_def insert_timer_def set_next_def upd_timer_def)
qed

definition same_config :: "nat \<Rightarrow> 'z endstop_state_scheme \<Rightarrow> 'z endstop_state_scheme \<Rightarrow> bool" where
  "same_config a s s' \<longleftrightarrow> es_flags (endstops s' a) = es_flags (endstops s a) \<and> es_pin (endstops s' a) = es_pin (endstops s a)
     \<and> es_sample_count (endstops s' a) = es_sample_count (endstops s a) \<and> es_ts (endstops s' a) = es_ts (endstops s a)
     \<and> es_trigger_reason (endstops s' a) = es_trigger_reason (endstops s a) \<and> gpio_in_tape s' = gpio_in_tape s"

lemma oversample_config: "endstop_oversample_event a s = Ret SF_RESCHEDULE s' \<Longrightarrow> same_config a s s'"
  by (auto simp: endstop_oversample_event_def same_config_def split_beta Let_def outcome_simps split: if_splits option.splits)

lemma fire_config:
  assumes "endstop_fire a s = Ret SF_RESCHEDULE s'"
  shows "same_config a s s'"
proof (cases "t_func (timers s (endstop_time a)) = Some Endstop_oversample_event")
  case False
  show ?thesis
  proof (cases "no_match (gpio_in_tape s (es_pin (endstops s a)) (gpio_in_pos s (es_pin (endstops s a)))) (es_flags (endstops s a))")
    case True
    then show ?thesis using assms False by (auto simp: endstop_fire_def endstop_event_def same_config_def split_beta Let_def)
  next
    case n: False
    let ?s = "set_func (endstop_time a) Endstop_oversample_event
     (upd_endstop a (\<lambda>e. e\<lparr>es_nextwake := waketime s (endstop_time a) + es_rest_time (endstops s a)\<rparr>)
       (snd (gpio_in_read (es_pin (endstops s a)) s)))"
    have "endstop_oversample_event a ?s = Ret SF_RESCHEDULE s'"
      using assms False n by (simp add: endstop_fire_def endstop_event_def split_beta Let_def)
    from oversample_config [OF this] show ?thesis by (simp add: same_config_def)
  qed
qed (use assms oversample_config in \<open>simp add: endstop_fire_def\<close>)

lemma run_config: "homing_run a s0 s \<Longrightarrow> same_config a s0 s"
proof (induction rule: homing_run.induct)
  case (event s s')
  from event.IH fire_config [OF event.hyps(2)] show ?case by (simp add: same_config_def)
qed (auto simp: same_config_def others_step_def)

lemma home_start:
  assumes "command_endstop_home args s = Ret () s'" "oid_lookup (ucast (args ! 0)) Command_config_endstop s = Ret (Some a) s"
    and "(ucast (args ! 3) :: u8) \<noteq> 0"
  shows "homing_inv s' a \<and> es_sample_count (endstops s' a) = ucast (args ! 3)
     \<and> (es_flags (endstops s' a) AND ESF_PIN_HIGH \<noteq> 0) = (args ! 5 \<noteq> 0)"
proof -
  obtain s1 where s1: "sched_del_timer (endstop_time a) s = Ret () s1"
    using assms(1,2) by (auto simp: command_endstop_home_def deref_def outcome_simps)
  define s2 where "s2 = upd_endstop a (\<lambda>e. e\<lparr>es_sample_time := args ! 2, es_sample_count := ucast (args ! 3)\<rparr>) (set_waketime (endstop_time a) (args ! 1) s1)"
  define s3 where "s3 = upd_endstop a (\<lambda>e. e\<lparr>es_trigger_count := es_sample_count e,
                      es_flags := ESF_HOMING OR (if args ! 5 \<noteq> 0 then ESF_PIN_HIGH else 0)\<rparr>)
      (set_func (endstop_time a) Endstop_event (upd_endstop a (\<lambda>e. e\<lparr>es_rest_time := args ! 4\<rparr>) s2))"
  have c2: "es_sample_count (endstops s2 a) = ucast (args ! 3)" by (simp add: s2_def)
  have "obind (trsync_oid_lookup (ucast (args ! 6)) s3) (\<lambda>ts s.
     sched_add_timer (endstop_time a) (upd_endstop a (\<lambda>e. e\<lparr>es_ts := Some ts, es_trigger_reason := ucast (args ! 7)\<rparr>) s)) = Ret () s'"
    using assms unfolding command_endstop_home_def deref_def assms(2)
    by (simp add: s1 Let_def s2_def s3_def)
  then obtain ts where s': "sched_add_timer (endstop_time a) (upd_endstop a (\<lambda>e. e\<lparr>es_ts := Some ts, es_trigger_reason := ucast (args ! 7)\<rparr>) s3) = Ret () s'"
    by (auto simp: outcome_simps trsync_oid_lookup_def deref_def oid_lookup_def sched_shutdown_def split: if_splits option.splits)
  note f = add_timer_frame [OF s']
  have "endstops s' a = (endstops s3 a)\<lparr>es_ts := Some ts, es_trigger_reason := ucast (args ! 7)\<rparr>"
    by (subst f [THEN conjunct1]) simp
  moreover have "t_func (timers s' (endstop_time a)) = Some Endstop_event" using f by (simp add: s3_def)
  ultimately show ?thesis using assms(3) c2 by (simp add: homing_inv_def Let_def s3_def)
qed

section \<open>Properties\<close>

text \<open>
  C9. No false triggers: from an \<open>endstop_home\<close> command on, whatever other code runs in between, the end stop
  reports a trigger only when the last \<open>sample_count + 1\<close> samples of its pin all had the requested level.
\<close>

theorem endstop_debounce:
  fixes s :: "'z endstop_state_scheme"
  assumes "command_endstop_home args s00 = Ret () s0" "oid_lookup (ucast (args ! 0)) Command_config_endstop s00 = Ret (Some a) s00"
    and "(ucast (args ! 3) :: u8) \<noteq> 0" "homing_run a s0 s" "endstop_fire a s = Ret SF_DONE s'"
  shows "\<exists>n \<ge> samples_read s a. unat (ucast (args ! 3) :: u8) \<le> n
     \<and> (\<forall>i \<le> unat (ucast (args ! 3) :: u8). gpio_in_tape s (es_pin (endstops s a)) (n - i) = (args ! 5 \<noteq> 0))"
proof -
  have h: "homing_inv s0 a" "es_sample_count (endstops s0 a) = ucast (args ! 3)"
    "(es_flags (endstops s0 a) AND ESF_PIN_HIGH \<noteq> 0) = (args ! 5 \<noteq> 0)"
    using home_start [OF assms(1-3)] by simp_all
  have c: "es_sample_count (endstops s a) = ucast (args ! 3)" "(es_flags (endstops s a) AND ESF_PIN_HIGH \<noteq> 0) = (args ! 5 \<noteq> 0)"
    using run_config [OF assms(4)] h(2,3) by (simp_all add: same_config_def)
  have inv: "homing_inv s a" using run_inv [OF assms(4) h(1)] .
  show ?thesis
  proof (cases "t_func (timers s (endstop_time a)) = Some Endstop_oversample_event")
    case True
    then have "endstop_oversample_event a s = Ret SF_DONE s'" using assms(5) by (simp add: endstop_fire_def)
    from oversample_done [OF inv True this] show ?thesis
      using c by (intro exI [of _ "samples_read s a"]) (simp add: wanted_def)
  next
    case False
    then have "endstop_event a s = Ret SF_DONE s'" using assms(5) by (simp add: endstop_fire_def)
    with inv False show ?thesis
    proof (cases rule: event_cases)
      case (oversample s1)
      have "es_sample_count (endstops s1 a) = es_sample_count (endstops s a)" "es_flags (endstops s1 a) = es_flags (endstops s a)"
        "es_pin (endstops s1 a) = es_pin (endstops s a)" by (subst oversample(4), simp)+
      with oversample_done [OF oversample(2,3,1)] show ?thesis
        using c oversample(5,6) by (intro exI [of _ "samples_read s1 a"]) (simp add: wanted_def)
    qed simp
  qed
qed

text \<open>
  C22. An end stop hit stops the axis: when the last sample of the oversampling matches, in the same timer event every
  stepper registered with the trigger of this homing move is stopped, its step timer is off the timer list and its
  position is the one at the hit; the end stop's own timer ends.
\<close>

theorem endstop_hit_stops:
  fixes s :: "'z endstop_state_scheme"
  assumes "sched_inv s xs" "signals s ts as" "queued_moves s fs as q qs"
    and "ts_flags (trsyncs s ts) AND TSF_CAN_TRIGGER \<noteq> 0" "es_ts (endstops s a) = Some ts"
    and "es_trigger_count (endstops s a) = 1" "wanted s a (samples_read s a)"
  shows "\<exists>s' zs. endstop_oversample_event a s = Ret SF_DONE s'
      \<and> (\<forall>b \<in> set as. stopped (steppers s' b) \<and> stepper_get_position b s' = stepper_get_position b s)
      \<and> sched_inv s' zs \<and> (\<forall>b \<in> set as. step_time b \<notin> set zs)
      \<and> ts_trigger_reason (trsyncs s' ts) = es_trigger_reason (endstops s a)"
proof -
  define s1 where "s1 = snd (gpio_in_read (es_pin (endstops s a)) s)"
  have z: "timers s1 = timers s" "timer_list s1 = timer_list s" "last_insert s1 = last_insert s" "steppers s1 = steppers s"
    "trsyncs s1 = trsyncs s" "tss_next s1 = tss_next s" "tss_func s1 = tss_func s" "move_next s1 = move_next s"
    "move_free_list s1 = move_free_list s"
    by (simp_all add: s1_def gpio_in_read_def)
  have "sched_inv s1 xs" using assms(1) by (subst sched_inv_cong [OF z(1-3)])
  moreover have "signals s1 ts as" using assms(2) by (simp add: signals_def z)
  moreover have "queued_moves s1 fs as q qs" using assms(3) unfolding queued_moves_def pool_conf_eq z by (subst conf_cong [OF z(8,9)])
  moreover have "ts_flags (trsyncs s1 ts) AND TSF_CAN_TRIGGER \<noteq> 0" using assms(4) by (simp add: z)
  ultimately obtain s' zs where s': "trsync_do_trigger call_signal ts (es_trigger_reason (endstops s a)) s1 = Ret () s'"
    "\<forall>b \<in> set as. stopped (steppers s' b) \<and> stepper_get_position b s' = stepper_get_position b s1"
    "sched_inv s' zs" "\<forall>b \<in> set as. step_time b \<notin> set zs" "ts_trigger_reason (trsyncs s' ts) = es_trigger_reason (endstops s a)"
    using trigger_effect by blast
  have "endstop_oversample_event a s = Ret SF_DONE s'"
    using s'(1) assms(5-7)
    by (simp add: endstop_oversample_event_def split_beta Let_def s1_def no_match_iff wanted_def samples_read_def)
  moreover have "stepper_get_position b s1 = stepper_get_position b s" for b by (rule position_cong) (simp add: z)
  ultimately show ?thesis using s'(2-5) by auto
qed

definition demo_endstop :: endstop_state where
  "demo_endstop = (stepper_state.extend demo_stepper
     \<lparr>endstops = (\<lambda>_. zero_endstop\<lparr>es_pin := 9, es_ts := Some 50, es_trigger_count := 1, es_trigger_reason := 2\<rparr>), cfg_sizeof_endstop = 60\<rparr>)
     \<lparr>gpio_in_tape := (\<lambda>_ n. n \<noteq> 3),
      trsyncs := (\<lambda>_. zero_trsync\<lparr>ts_flags := 1\<rparr>)(50 := zero_trsync\<lparr>ts_signals := Some 100, ts_flags := 1\<rparr>),
      oids := Some [\<lparr>o_type = Some Command_config_endstop, o_data = Some 300\<rparr>, \<lparr>o_type = Some Command_config_trsync, o_data = Some 51\<rparr>],
      oid_count := 2\<rparr>"

lemmas demo_endstop_simps = demo_endstop_def stepper_state.extend_def stepper_state.defs demo_stepper_simps

definition demo_home :: "u32 list" where "demo_home = [0, 5000, 10, 1, 1000, 1, 1, 2]"

lemma demo_home_start:
  obtains s0 where "command_endstop_home demo_home demo_endstop = Ret () s0" "t_func (timers s0 (endstop_time 300)) = Some Endstop_event"
    "es_ts (endstops s0 300) = Some 51" "es_trigger_count (endstops s0 300) = 1" "es_flags (endstops s0 300) = 3"
    "es_pin (endstops s0 300) = 9" "gpio_in_pos s0 9 = 0" "gpio_in_tape s0 = (\<lambda>_ n. n \<noteq> 3)"
    "trsyncs s0 51 = zero_trsync\<lparr>ts_flags := 1\<rparr>"
proof -
  have "\<exists>s0. command_endstop_home demo_home demo_endstop = Ret () s0 \<and> t_func (timers s0 (endstop_time 300)) = Some Endstop_event
    \<and> es_ts (endstops s0 300) = Some 51 \<and> es_trigger_count (endstops s0 300) = 1 \<and> es_flags (endstops s0 300) = 3
    \<and> es_pin (endstops s0 300) = 9 \<and> gpio_in_pos s0 9 = 0 \<and> gpio_in_tape s0 = (\<lambda>_ n. n \<noteq> 3)
    \<and> trsyncs s0 51 = zero_trsync\<lparr>ts_flags := 1\<rparr>"
  by (simp add: command_endstop_home_def demo_home_def deref_def oid_lookup_def rd_def demo_endstop_simps sched_del_timer_def
     del_pos.simps init_timers_def zero_timer_def Let_def set_waketime_def upd_timer_def upd_endstop_def trsync_oid_lookup_def set_func_def
     sched_add_timer_def timer_is_before_iff insert_timer_def insert_pos.simps set_next_def zero_endstop_def word_le_nat_alt)
  then show ?thesis using that by blast
qed

theorem endstop_debounce_witness:
  "\<exists>s0 s'. command_endstop_home demo_home demo_endstop = Ret () s0 \<and> endstop_fire 300 s0 = Ret SF_DONE s'
     \<and> (\<exists>n \<ge> 1. gpio_in_tape s0 9 n \<and> gpio_in_tape s0 9 (n - 1))"
proof -
  obtain s0 where s0: "command_endstop_home demo_home demo_endstop = Ret () s0" "t_func (timers s0 (endstop_time 300)) = Some Endstop_event"
    "es_ts (endstops s0 300) = Some 51" "es_trigger_count (endstops s0 300) = 1" "es_flags (endstops s0 300) = 3"
    "es_pin (endstops s0 300) = 9" "gpio_in_pos s0 9 = 0" "gpio_in_tape s0 = (\<lambda>_ n. n \<noteq> 3)"
    "trsyncs s0 51 = zero_trsync\<lparr>ts_flags := 1\<rparr>"
    by (rule demo_home_start)
  have "\<exists>s'. endstop_fire 300 s0 = Ret SF_DONE s'"
  proof -
    have t: "\<exists>s'. obind (trsync_do_trigger call_signal 51 r s1) (\<lambda>_. Ret SF_DONE) = Ret SF_DONE s'" if "trsyncs s1 51 = zero_trsync\<lparr>ts_flags := 1\<rparr>" for r and s1 :: endstop_state
      using that by (simp add: trsync_do_trigger_def Let_def dispatch_signals.simps upd_trsync_def zero_trsync_def)
    show ?thesis
      by (simp add: endstop_fire_def s0 endstop_event_def endstop_oversample_event_def no_match_def split_beta Let_def)
        (rule t, simp add: gpio_in_read_def set_func_def upd_timer_def upd_endstop_def s0)
  qed
  then obtain s' where s': "endstop_fire 300 s0 = Ret SF_DONE s'" ..
  have l: "oid_lookup (ucast (demo_home ! 0)) Command_config_endstop demo_endstop = Ret (Some 300) demo_endstop"
    by (simp add: oid_lookup_def demo_home_def demo_endstop_simps rd_def)
  have a: "(ucast (demo_home ! 3) :: u8) = 1" "demo_home ! 5 = 1" by (simp_all add: demo_home_def)
  from endstop_debounce [OF s0(1) l _ homing_run.start s'] obtain n where n: "1 \<le> n" "\<forall>i \<le> 1. gpio_in_tape s0 9 (n - i)"
    by (auto simp: a s0(6) simp del: s0(8))
  then have "gpio_in_tape s0 9 (n - 0)" "gpio_in_tape s0 9 (n - 1)" by blast+
  with n(1) s' s0(1) show ?thesis by auto
qed

lemma demo_endstop_inv: "sched_inv demo_endstop [Periodic_timer]"
proof -
  have "sched_inv (sched_state.truncate demo_endstop) [Periodic_timer] = sched_inv demo_sched [Periodic_timer]"
    by (rule sched_inv_cong) (simp_all add: sched_state.defs demo_endstop_simps)
  then have "sched_inv (sched_state.truncate demo_endstop) [Periodic_timer]" using demo_sched_inv by simp
  then show ?thesis by (simp add: sched_inv_def sched_list_def ordered_from_def off_def sched_state.defs)
qed

theorem endstop_hit_stops_witness:
  "\<exists>s' zs. endstop_oversample_event 300 (upd_endstop 300 (\<lambda>e. e\<lparr>es_flags := 3\<rparr>) demo_endstop) = Ret SF_DONE s'
     \<and> stopped (steppers s' 100) \<and> step_time 100 \<notin> set zs \<and> sched_inv s' zs"
proof -
  let ?s = "upd_endstop 300 (\<lambda>e. e\<lparr>es_flags := 3\<rparr>) demo_endstop"
  have i: "sched_inv ?s [Periodic_timer]"
    using demo_endstop_inv by (subst sched_inv_cong [of _ demo_endstop]) (simp_all add: upd_endstop_def)
  have "signals ?s 50 [100]" by (simp add: signals_def upd_endstop_def demo_endstop_simps)
  moreover have "queued_moves ?s [] [100] (\<lambda>_. [200]) []"
    by (simp add: queued_moves_def pool_conf_def free_list_def qlist_def upd_endstop_def demo_endstop_simps)
  moreover have "ts_flags (trsyncs ?s 50) AND TSF_CAN_TRIGGER \<noteq> 0" "es_ts (endstops ?s 300) = Some 50"
    "es_trigger_count (endstops ?s 300) = 1" "wanted ?s 300 (samples_read ?s 300)"
    by (simp_all add: upd_endstop_def demo_endstop_simps wanted_def samples_read_def)
  ultimately show ?thesis
    using endstop_hit_stops [OF i, of 50 "[100]" "[]" "\<lambda>_. [200]" "[]" 300] by auto
qed

end
