(* ===== verification/Digital_Props.thy ===== *)
theory Digital_Props
  imports Digital_Out Endstop_Props
begin

text \<open>
The deadlines of the digital outputs (\<open>src/gpiocmds.c\<close>).
\<close>

section \<open>Deadlines\<close>

text \<open>The pin is pulsing, or constant at a level other than its default.\<close>

definition driven :: "nat \<Rightarrow> 'z digital_out_state_scheme \<Rightarrow> bool" where
  "driven a s \<longleftrightarrow> (let d = digital_outs s a in
     do_flags d AND DF_TOGGLING \<noteq> 0 \<or> gpio_level s (do_pin d) \<noteq> (do_flags d AND DF_DEFAULT_ON \<noteq> 0))"

text \<open>
  A deadline that is not after \<open>limit\<close> is set and will be noticed: the timer of the pin loads the next update at
  the deadline, or toggles before it.
\<close>

definition deadline_ok :: "u32 \<Rightarrow> nat \<Rightarrow> 'z digital_out_state_scheme \<Rightarrow> bool" where
  "deadline_ok limit a s \<longleftrightarrow> (let d = digital_outs s a in
     do_flags d AND DF_CHECK_END \<noteq> 0 \<and> \<not> timer_is_before limit (do_end_time d)
     \<and> (t_func (timers s (digital_timer a)) = Some Digital_load_event \<and> waketime s (digital_timer a) = do_end_time d
        \<or> t_func (timers s (digital_timer a)) = Some Digital_toggle_event
          \<and> timer_is_before (waketime s (digital_timer a)) (do_end_time d)))"

lemma upd_digital_simps [simp]:
  "digital_outs (upd_digital a f s) = (digital_outs s)(a := f (digital_outs s a))" "timers (upd_digital a f s) = timers s"
  "gpio_level (upd_digital a f s) = gpio_level s" "digital_moves (upd_digital a f s) = digital_moves s"
  by (simp_all add: upd_digital_def)

lemma timer_upd_digital [simp]:
  fixes s :: "'z digital_out_state_scheme"
  shows "digital_outs (set_waketime t w s) = digital_outs s" "gpio_level (set_waketime t w s) = gpio_level s"
    "digital_outs (set_func t f s) = digital_outs s" "gpio_level (set_func t f s) = gpio_level s"
    "t_func (timers (set_func t f s) x) = (if x = t then Some f else t_func (timers s x))"
    "waketime (set_func t f s) x = waketime s x"
    "digital_outs (gpio_out_toggle_noirq p s) = digital_outs s" "timers (gpio_out_toggle_noirq p s) = timers s"
    "digital_outs (gpio_out_write p b s) = digital_outs s" "timers (gpio_out_write p b s) = timers s"
    "gpio_level (gpio_out_write p b s) = (gpio_level s)(p := b)" "digital_moves (gpio_out_write p b s) = digital_moves s"
    "digital_outs (move_free m s) = digital_outs s" "timers (move_free m s) = timers s" "gpio_level (move_free m s) = gpio_level s"
    "digital_moves (move_free m s) = digital_moves s"
  by (simp_all add: set_waketime_def set_func_def upd_timer_def gpio_out_toggle_noirq_def gpio_out_write_def move_free_def
      set_move_next_def Let_def)

lemma toggle_deadline:
  assumes "digital_toggle_event a s = Ret r s'" "deadline_ok limit a s" "t_func (timers s (digital_timer a)) = Some Digital_toggle_event"
  shows "r = SF_RESCHEDULE \<and> deadline_ok limit a s' \<and> do_mq (digital_outs s' a) = do_mq (digital_outs s a)"
proof -
  have f: "(do_flags (digital_outs s a) XOR 1) AND 4 = do_flags (digital_outs s a) AND 4" by (simp add: bit.conj_xor_distrib2)
  show ?thesis
    using assms by (auto simp: digital_toggle_event_def deadline_ok_def Let_def f split: if_splits)
qed

lemma flag_or_default [simp]:
  fixes f g :: u8
  shows "(g OR (f AND 16)) AND 4 = g AND 4" "(g OR (f AND 16)) AND 2 = g AND 2" "(g OR (f AND 16)) AND 16 = (g AND 16) OR (f AND 16)"
  by (simp_all add: bit.conj_disj_distrib2 and.assoc)

lemma next_cases:
  assumes "digital_next mq et fs s = Ret (end_time, flags) s'"
  shows "s' = s \<and> flags AND 2 = fs AND 2 \<and> flags AND 16 = fs AND 16
     \<and> (fs AND 4 \<noteq> 0 \<longrightarrow> flags AND 4 \<noteq> 0 \<and> \<not> timer_is_before et end_time)"
  using assms
  by (auto simp: digital_next_def move_queue_first_def sched_shutdown_def Let_def bit.conj_disj_distrib2 split: option.splits if_splits)

lemma schedule_effect:
  fixes s :: "'z digital_out_state_scheme"
  assumes "digital_schedule a on end_time flags s = Ret r s'"
  shows "do_flags (digital_outs s' a) = flags OR (do_flags (digital_outs s a) AND 16) \<and> do_end_time (digital_outs s' a) = end_time
     \<and> do_pin (digital_outs s' a) = do_pin (digital_outs s a) \<and> gpio_level s' = gpio_level s
     \<and> (flags AND 4 \<noteq> 0 \<and> t_func (timers s (digital_timer a)) = Some Digital_load_event \<longrightarrow> r = SF_RESCHEDULE
         \<and> (t_func (timers s' (digital_timer a)) = Some Digital_load_event \<and> waketime s' (digital_timer a) = end_time
            \<or> t_func (timers s' (digital_timer a)) = Some Digital_toggle_event \<and> timer_is_before (waketime s' (digital_timer a)) end_time))"
  using assms by (auto simp: digital_schedule_def Let_def split: if_splits)

lemma limit_driven:
  assumes "digital_limit now d on fl = (et, fs)" "fl = (if on \<noteq> 0 then 1 else 0)" "do_max_duration d \<noteq> 0"
    and "fs AND 2 \<noteq> 0 \<or> (fl \<noteq> 0) \<noteq> (do_flags d AND 16 \<noteq> 0)"
  shows "fs AND 4 \<noteq> 0 \<and> et = now + do_max_duration d"
  using assms by (auto simp: digital_limit_def bit.conj_disj_distrib2 split: if_splits)

lemma limit_default: "digital_limit now d on fl = (et, fs) \<Longrightarrow> fl = (if on \<noteq> 0 then 1 else 0) \<Longrightarrow> fs AND 16 = 0"
  by (auto simp: digital_limit_def bit.conj_disj_distrib2 split: if_splits)

lemma load_deadline:
  fixes s :: "'z digital_out_state_scheme"
  assumes e: "digital_load_event a s = Ret r s'" and f: "t_func (timers s (digital_timer a)) = Some Digital_load_event"
    and m: "do_max_duration (digital_outs s a) \<noteq> 0" and d: "driven a s'"
  shows "r = SF_RESCHEDULE \<and> deadline_ok (waketime s (digital_timer a) + do_max_duration (digital_outs s a)) a s'"
proof -
  let ?d = "digital_outs s a" and ?now = "waketime s (digital_timer a)"
  obtain n where n: "mq_first (do_mq ?d) = Some n"
    using e by (cases "mq_first (do_mq ?d)") (auto simp: digital_load_event_def move_queue_empty_def sched_shutdown_def)
  define on where "on = dm_on_duration (digital_moves s n)"
  define fl where "fl = (if on \<noteq> 0 then 1 else 0 :: u8)"
  define mq where "mq = (do_mq ?d)\<lparr>mq_first := move_next s n\<rparr>"
  define s1 where "s1 = move_free n (gpio_out_write (do_pin ?d) (fl \<noteq> 0) (upd_digital a (\<lambda>d. d\<lparr>do_mq := mq\<rparr>) s))"
  have s1: "digital_outs s1 a = ?d\<lparr>do_mq := mq\<rparr>" "timers s1 = timers s" "gpio_level s1 (do_pin ?d) = (fl \<noteq> 0)"
    by (simp_all add: s1_def)
  obtain et fs where lim: "digital_limit ?now (?d\<lparr>do_mq := mq\<rparr>) on fl = (et, fs)" by fastforce
  have "obind (digital_next mq et fs s1) (\<lambda>(end_time, flags) s. digital_schedule a on end_time flags s) = Ret r s'"
    using e n lim
    by (cases "dm_on_duration (digital_moves s n) = 0")
      (simp_all add: digital_load_event_def move_queue_empty_def move_queue_pop_def Let_def on_def fl_def mq_def s1_def)
  then obtain end_time flags where nx: "digital_next mq et fs s1 = Ret (end_time, flags) s1"
    and sc: "digital_schedule a on end_time flags s1 = Ret r s'"
    using next_cases by (fastforce simp: outcome_simps)
  note N = next_cases [OF nx] and S = schedule_effect [OF sc]
  have "fs AND 2 \<noteq> 0 \<or> (fl \<noteq> 0) \<noteq> (do_flags ?d AND 16 \<noteq> 0)"
    using d N S limit_default [OF lim fl_def] by (auto simp: driven_def Let_def s1)
  then have "fs AND 4 \<noteq> 0" "et = ?now + do_max_duration ?d" using limit_driven [OF lim fl_def] m by simp_all
  with N S f show ?thesis by (auto simp: deadline_ok_def Let_def s1)
qed

text \<open>Runs of a pin after an update: toggles of the software PWM, and other code that leaves the pin alone.\<close>

definition others_keep :: "nat \<Rightarrow> 'z digital_out_state_scheme \<Rightarrow> 'z digital_out_state_scheme \<Rightarrow> bool" where
  "others_keep a s s' \<longleftrightarrow> digital_outs s' a = digital_outs s a
     \<and> t_func (timers s' (digital_timer a)) = t_func (timers s (digital_timer a))
     \<and> waketime s' (digital_timer a) = waketime s (digital_timer a)"

inductive output_run :: "nat \<Rightarrow> 'z digital_out_state_scheme \<Rightarrow> 'z digital_out_state_scheme \<Rightarrow> bool" for a s0 where
  start: "output_run a s0 s0"
| toggle: "output_run a s0 s \<Longrightarrow> t_func (timers s (digital_timer a)) = Some Digital_toggle_event \<Longrightarrow>
    digital_toggle_event a s = Ret r s' \<Longrightarrow> output_run a s0 s'"
| others: "output_run a s0 s \<Longrightarrow> others_keep a s s' \<Longrightarrow> output_run a s0 s'"

lemma run_deadline: "output_run a s0 s \<Longrightarrow> deadline_ok limit a s0 \<Longrightarrow> deadline_ok limit a s"
proof (induction rule: output_run.induct)
  case (toggle s r s')
  then show ?case using toggle_deadline [of a s r s' limit] by blast
next
  case (others s s')
  then show ?case by (simp add: deadline_ok_def others_keep_def)
qed simp

section \<open>Properties\<close>

text \<open>
  C12. The maximum duration of an output: when an update leaves a pin with a \<open>max_duration\<close> pulsing or away from
  its default, a deadline at most \<open>max_duration\<close> later is set, and it stays set and watched through every pulse of
  the software PWM and whatever else runs; when it comes with no further update queued, the machine shuts down.
\<close>

theorem digital_max_duration:
  fixes s :: "'z digital_out_state_scheme"
  assumes "digital_load_event a s = Ret r s0" "t_func (timers s (digital_timer a)) = Some Digital_load_event"
    and "do_max_duration (digital_outs s a) \<noteq> 0" "driven a s0" "output_run a s0 s'"
  shows "r = SF_RESCHEDULE \<and> deadline_ok (waketime s (digital_timer a) + do_max_duration (digital_outs s a)) a s'
    \<and> (move_queue_empty (do_mq (digital_outs s' a)) \<longrightarrow>
        digital_load_event a s' = Longjmp ''Missed scheduling of next digital out event'' s')"
  using load_deadline [OF assms(1-4)] run_deadline [OF assms(5)] by (simp add: digital_load_event_def sched_shutdown_def)

definition demo_digital :: digital_out_state where
  "demo_digital = set_waketime (digital_timer 400) 1000 (set_func (digital_timer 400) Digital_load_event
     (endstop_state.extend demo_endstop
       \<lparr>digital_outs = (\<lambda>_. zero_digital_out\<lparr>do_pin := 5, do_max_duration := 2000, do_cycle_time := 100,
          do_mq := \<lparr>mq_first = Some 200, mq_last = Some 200\<rparr>\<rparr>),
        digital_moves = (\<lambda>_. \<lparr>dm_waketime = 1000, dm_on_duration = 40\<rparr>),
        cfg_sizeof_digital_out = 60, cfg_sizeof_digital_move = 12\<rparr>))"

lemma demo_digital_fields [simp]:
  "digital_outs demo_digital a = zero_digital_out\<lparr>do_pin := 5, do_max_duration := 2000, do_cycle_time := 100,
          do_mq := \<lparr>mq_first = Some 200, mq_last = Some 200\<rparr>\<rparr>"
  "digital_moves demo_digital m = \<lparr>dm_waketime = 1000, dm_on_duration = 40\<rparr>" "move_next demo_digital = (\<lambda>_. None)"
  "waketime demo_digital (digital_timer 400) = 1000" "t_func (timers demo_digital (digital_timer 400)) = Some Digital_load_event"
  by (simp_all add: demo_digital_def endstop_state.extend_def endstop_state.defs)
    (simp_all add: set_waketime_def set_func_def upd_timer_def demo_endstop_simps)

theorem digital_max_duration_witness:
  "\<exists>s0. digital_load_event 400 demo_digital = Ret SF_RESCHEDULE s0 \<and> deadline_ok 3000 400 s0"
proof -
  have "\<exists>s0. digital_load_event 400 demo_digital = Ret SF_RESCHEDULE s0 \<and> driven 400 s0"
    by (simp add: digital_load_event_def move_queue_empty_def move_queue_pop_def digital_limit_def digital_next_def move_queue_first_def
      digital_schedule_def driven_def Let_def zero_digital_out_def timer_is_before_iff word_le_nat_alt)
  then obtain s0 where s0: "digital_load_event 400 demo_digital = Ret SF_RESCHEDULE s0" "driven 400 s0" by blast
  from digital_max_duration [OF s0(1) _ _ s0(2) output_run.start] s0(1) show ?thesis by auto
qed

end
