(* ===== verification/Pwm_Props.thy ===== *)
theory Pwm_Props
  imports Pwm_Out Digital_Props
begin

text \<open>
  Lemmas and properties of the hardware PWM driver (\<open>src/stm32/hard_pwm.c\<close>) and of the PWM outputs
  (\<open>src/pwmcmds.c\<close>).
\<close>

section \<open>The cycle time\<close>

definition rounded :: "u32 \<Rightarrow> nat \<Rightarrow> u32" where
  "rounded p k = (if k = 0 then p else drop_bit k (p + push_bit (k - 1) 1))"

lemma unat_rounded:
  assumes "unat p < 0xffff8000" "k \<le> 16"
  shows "unat (rounded p k) = (if k = 0 then unat p else (unat p + 2 ^ (k - 1)) div 2 ^ k)"
proof (cases k)
  case (Suc j)
  have "(2 :: nat) ^ j \<le> 2 ^ 15" using assms(2) Suc by (intro power_increasing) auto
  then have j: "(2 :: nat) ^ j \<le> 32768" by simp
  have u1: "unat (push_bit j 1 :: u32) = 2 ^ j"
  proof -
    have "push_bit j 1 = (of_nat (2 ^ j) :: u32)" by (simp add: push_bit_of_1)
    then have "unat (push_bit j 1 :: u32) = 2 ^ j mod 2 ^ 32" by (simp only: unat_of_nat) simp
    with j show ?thesis by simp
  qed
  have "unat (p + push_bit j 1) = unat p + 2 ^ j"
    using assms(1) j by (subst unat_word_ariths) (simp only: u1, simp)
  moreover have "unat (drop_bit k w) = unat w div 2 ^ k" for w :: u32 by (simp only: unat_drop_bit_eq) (simp add: drop_bit_eq_div)
  ultimately show ?thesis unfolding rounded_def using Suc by (simp only: diff_Suc_1 if_False nat.simps)
qed (simp add: rounded_def)

lemma prescale_result:
  assumes "unat p < 0xffff8000" "shift \<le> 16" "shift = 0 \<or> 2 ^ (shift + 14) \<le> unat p"
  shows "\<exists>k \<le> 16. pwm_prescale p (rounded p shift) shift (push_bit shift 1) = (rounded p k, push_bit k 1)
     \<and> unat (rounded p k) \<le> 65535 \<and> (k = 0 \<or> 2 ^ (k + 14) \<le> unat p)"
  using assms
proof (induction "16 - shift" arbitrary: shift rule: less_induct)
  case less
  show ?case
  proof (cases "unat (rounded p shift) \<le> 65535")
    case True
    then have "\<not> rounded p shift > 65535" by (simp add: word_less_nat_alt)
    then have "pwm_prescale p (rounded p shift) shift (push_bit shift 1) = (rounded p shift, push_bit shift 1)"
      by (subst pwm_prescale.simps) simp
    with True less.prems show ?thesis by blast
  next
    case False
    note r = unat_rounded [OF less.prems(1,2)]
    have "shift \<noteq> 16"
    proof
      assume "shift = 16"
      then have "unat (rounded p shift) < 65536" using r less.prems(1) by simp
      with False show False by simp
    qed
    then have sh: "Suc shift \<le> 16" using less.prems(2) by simp
    have "pwm_prescale p (rounded p shift) shift (push_bit shift 1) = pwm_prescale p (rounded p (Suc shift)) (Suc shift) (push_bit (Suc shift) 1)"
      using False sh by (subst pwm_prescale.simps) (simp add: rounded_def [of p "Suc shift"] word_less_nat_alt Let_def)
    moreover have "2 ^ (Suc shift + 14) \<le> unat p"
    proof (cases shift)
      case 0
      then show ?thesis using False r by simp
    next
      case (Suc j)
      have "65536 \<le> (unat p + 2 ^ j) div 2 ^ shift" using False r Suc by simp
      then have "65536 * 2 ^ shift \<le> (unat p + 2 ^ j) div 2 ^ shift * 2 ^ shift" by (rule mult_le_mono1)
      also have "\<dots> \<le> unat p + 2 ^ j" by simp
      finally have "65536 * 2 ^ Suc j \<le> unat p + 2 ^ j" using Suc by simp
      moreover have "(2 :: nat) ^ (Suc shift + 14) = 65536 * 2 ^ j" using Suc by (simp add: power_add)
      ultimately show ?thesis by simp
    qed
    ultimately show ?thesis using less.hyps [of "Suc shift"] less.prems(1) sh by auto
  qed
qed

lemma round_error: "\<bar>int ((x + 2 ^ j) div 2 ^ Suc j) * 2 ^ Suc j - int x\<bar> \<le> 2 ^ j"
proof -
  have "(x + 2 ^ j) div 2 ^ Suc j * 2 ^ Suc j + (x + 2 ^ j) mod 2 ^ Suc j = x + 2 ^ j" by (rule div_mult_mod_eq)
  moreover have "(x + 2 ^ j) mod 2 ^ Suc j < 2 ^ Suc j" by simp
  ultimately have "(x + 2 ^ j) div 2 ^ Suc j * 2 ^ Suc j \<le> x + 2 ^ j" "x + 2 ^ j < (x + 2 ^ j) div 2 ^ Suc j * 2 ^ Suc j + 2 ^ Suc j"
    by linarith+
  then have "int ((x + 2 ^ j) div 2 ^ Suc j * 2 ^ Suc j) \<le> int (x + 2 ^ j)"
    "int (x + 2 ^ j) < int ((x + 2 ^ j) div 2 ^ Suc j * 2 ^ Suc j + 2 ^ Suc j)" by linarith+
  then show ?thesis by (simp add: abs_le_iff)
qed

text \<open>
  C37. The PWM cycle time: for every cycle of 2 ticks and more (and below \<open>0xffff8000\<close>, where the rounding
  overflows), the driver's timer period and prescaler fit the 16 bit registers and their product is the requested
  cycle up to half a prescaler tick.
\<close>

theorem pwm_cycle_rounded:
  assumes "2 \<le> unat p" "unat p < 0xffff8000" "pwm_ticks p = (t, q)"
  shows "\<exists>k \<le> 16. q = push_bit k 1 \<and> 2 \<le> unat t \<and> unat t \<le> 65535
     \<and> 2 * \<bar>int (unat t) * 2 ^ k - int (unat p)\<bar> \<le> (if k = 0 then 0 else 2 ^ k)"
proof -
  obtain k where k: "k \<le> 16" "pwm_prescale p (rounded p 0) 0 (push_bit 0 1) = (rounded p k, push_bit k 1)"
    "unat (rounded p k) \<le> 65535" "k = 0 \<or> 2 ^ (k + 14) \<le> unat p"
    using prescale_result [OF assms(2), of 0] by auto
  note r = unat_rounded [OF assms(2) k(1)]
  have two: "2 \<le> unat (rounded p k)"
  proof (cases k)
    case (Suc j)
    have "(2 :: nat) * 2 ^ k \<le> 2 ^ (k + 14)" by (simp add: power_add)
    then have "2 * 2 ^ k \<le> unat p + 2 ^ j" using k(4) Suc by simp
    then show ?thesis using r Suc by (simp add: less_eq_div_iff_mult_less_eq)
  qed (use assms(1) r in simp)
  have "\<not> push_bit k 1 > (65536 :: u32)"
  proof -
    have "push_bit k 1 = (of_nat (2 ^ k) :: u32)" by (simp add: push_bit_of_1)
    moreover have "(2 :: nat) ^ k \<le> 2 ^ 16" using k(1) by (intro power_increasing) auto
    ultimately show ?thesis by (simp add: word_less_nat_alt unat_of_nat del: of_nat_power)
  qed
  moreover have "\<not> rounded p k < 2" using two by (simp add: word_less_nat_alt)
  ultimately have tq: "t = rounded p k" "q = push_bit k 1"
    using assms(3) k(2) by (auto simp: pwm_ticks_def rounded_def [of p 0] Let_def)
  have "2 * \<bar>int (unat t) * 2 ^ k - int (unat p)\<bar> \<le> (if k = 0 then 0 else 2 ^ k)"
  proof (cases k)
    case (Suc j)
    then show ?thesis using r round_error [of "unat p" j] by (simp add: tq)
  qed (use r tq in simp)
  then show ?thesis using k(1,3) two tq by blast
qed

theorem pwm_cycle_rounded_witness: "\<exists>k \<le> 16. pwm_ticks 1000000 = (62500, push_bit k 1) \<and> 2 * \<bar>62500 * 2 ^ k - 1000000\<bar> \<le> (2 ^ k :: int)"
proof -
  have e: "pwm_ticks 1000000 = (62500, 16)" by (simp add: pwm_ticks_def pwm_prescale.simps word_less_nat_alt Let_def)
  from pwm_cycle_rounded [OF _ _ this] obtain k where k: "k \<le> 16" "(16 :: u32) = push_bit k 1"
    "2 * \<bar>62500 * 2 ^ k - 1000000\<bar> \<le> (if k = 0 then 0 else 2 ^ k :: int)" by auto
  then show ?thesis using e by (intro exI [of _ k]) (auto split: if_splits)
qed

text \<open>
  The boundary of the cycle time: a cycle of \<open>2^32 - 1\<close> ticks overflows the rounding and is set up as a cycle of
  four ticks.
\<close>

theorem pwm_cycle_overflow: "pwm_ticks 0xffffffff = (2, 2)"
  by (simp add: pwm_ticks_def pwm_prescale.simps word_less_nat_alt Let_def)

section \<open>The maximum duration\<close>

lemma pwm_simps [simp]:
  fixes s :: "'z pwm_out_state_scheme"
  shows "pwm_outs (upd_pwm a f s) = (pwm_outs s)(a := f (pwm_outs s a))" "timers (upd_pwm a f s) = timers s"
    "pwm_moves (upd_pwm a f s) = pwm_moves s" "tims (upd_pwm a f s) = tims s"
    "pwm_outs (gpio_pwm_write g v s) = pwm_outs s" "timers (gpio_pwm_write g v s) = timers s" "pwm_moves (gpio_pwm_write g v s) = pwm_moves s"
    "pwm_outs (move_free m s) = pwm_outs s" "pwm_moves (move_free m s) = pwm_moves s" "tims (move_free m s) = tims s"
    "timers (move_free m s) = timers s"
    "tims (set_waketime t w s) = tims s" "tims (set_func t h s) = tims s"
    "t_func (timers (set_func t h s) x) = (if x = t then Some h else t_func (timers s x))" "waketime (set_func t h s) x = waketime s x"
  by (simp_all add: upd_pwm_def gpio_pwm_write_def move_free_def set_move_next_def set_waketime_def set_func_def upd_timer_def Let_def)

definition pwm_compare :: "'z pwm_out_state_scheme \<Rightarrow> nat \<Rightarrow> u32" where
  "pwm_compare s a = (let g = po_pin (pwm_outs s a) in tim_ccr (tims s (gp_timer g)) (gp_channel g))"



definition demo_pwm :: pwm_out_state where
  "demo_pwm = set_waketime (pwm_timer 500) 1000 (set_func (pwm_timer 500) Pwm_event
     (digital_out_state.extend demo_digital
       \<lparr>tims = (\<lambda>_. \<lparr>tim_cen = True, tim_psc = 0, tim_arr = 999, tim_ccr = (\<lambda>_. 0)\<rparr>),
        pwm_outs = (\<lambda>_. \<lparr>po_pin = \<lparr>gp_timer = 3, gp_channel = 1, gp_hwpwm_ticks = 1000\<rparr>, po_max_duration = 2000,
          po_default_value = 0, po_mq = \<lparr>mq_first = Some 200, mq_last = Some 200\<rparr>\<rparr>),
        pwm_moves = (\<lambda>_. \<lparr>pm_waketime = 1000, pm_value = 0x4000\<rparr>), cfg_pwm_regs = [], cfg_pclk = (\<lambda>_. 84000000),
        cfg_sizeof_pwm_out = 60, cfg_sizeof_pwm_move = 12\<rparr>))"

lemma demo_pwm_fields [simp]:
  "pwm_outs demo_pwm a = \<lparr>po_pin = \<lparr>gp_timer = 3, gp_channel = 1, gp_hwpwm_ticks = 1000\<rparr>, po_max_duration = 2000,
          po_default_value = 0, po_mq = \<lparr>mq_first = Some 200, mq_last = Some 200\<rparr>\<rparr>"
  "pwm_moves demo_pwm m = \<lparr>pm_waketime = 1000, pm_value = 0x4000\<rparr>" "move_next demo_pwm = (\<lambda>_. None)"
  "waketime demo_pwm (pwm_timer 500) = 1000" "t_func (timers demo_pwm (pwm_timer 500)) = Some Pwm_event"
  by (simp_all add: demo_pwm_def digital_out_state.extend_def digital_out_state.defs)
    (simp_all add: set_waketime_def set_func_def upd_timer_def demo_digital_def endstop_state.extend_def endstop_state.defs demo_endstop_simps)


end
