(* ===== verification/Analog_Props.thy ===== *)
theory Analog_Props
  imports Analog_In Pwm_Props
begin

text \<open>
  Lemmas and properties of the analog inputs (\<open>src/adccmds.c\<close> over \<open>src/stm32/adc.c\<close>).
\<close>

section \<open>Analog inputs\<close>

definition adc_ready :: "nat \<Rightarrow> 'z analog_in_state_scheme \<Rightarrow> bool" where
  "adc_ready a s \<longleftrightarrow> fst (gpio_adc_sample (ai_pin (analog_ins s a)) s) = 0"

text \<open>The value a read event gets.\<close>

definition adc_next :: "'z analog_in_state_scheme \<Rightarrow> 16 word" where
  "adc_next s = adc_dr s (adc_dr_pos s)"

lemma upd_analog_simps [simp]:
  fixes s :: "'z analog_in_state_scheme"
  shows "analog_ins (upd_analog a f s) = (analog_ins s)(a := f (analog_ins s a))" "timers (upd_analog a f s) = timers s"
    "shutdown_status (upd_analog a f s) = shutdown_status s"
    "analog_ins (set_waketime t w s) = analog_ins s" "analog_ins (sched_wake_task x s) = analog_ins s"
    "analog_ins (snd (gpio_adc_sample g s)) = analog_ins s" "analog_ins (snd (gpio_adc_read g s)) = analog_ins s"
    "shutdown_status (snd (gpio_adc_sample g s)) = shutdown_status s" "shutdown_status (snd (gpio_adc_read g s)) = shutdown_status s"
    "fst (gpio_adc_read g (snd (gpio_adc_sample g' s))) = adc_next s"
  by (simp_all add: upd_analog_def set_waketime_def upd_timer_def sched_wake_task_def sched_wake_tasks_def gpio_adc_sample_def
      gpio_adc_read_def adc_next_def Let_def)

lemma analog_wait:
  assumes "analog_in_event a s = Ret r s'" "\<not> adc_ready a s"
  shows "r = SF_RESCHEDULE \<and> analog_ins s' = analog_ins s"
  using assms by (auto simp: analog_in_event_def adc_ready_def split_beta Let_def)

text \<open>The sample a read adds to: none when the count of samples is over.\<close>

definition sample_sum :: "analog_in \<Rightarrow> 16 word \<Rightarrow> 16 word" where
  "sample_sum x v = (if ai_state x \<ge> ai_sample_count x then v else v + ai_value x)"

definition sample_state :: "analog_in \<Rightarrow> u8" where
  "sample_state x = (if ai_state x \<ge> ai_sample_count x then 1 else ai_state x + 1)"

definition in_range :: "analog_in \<Rightarrow> 16 word \<Rightarrow> bool" where
  "in_range x v \<longleftrightarrow> ai_min_value x \<le> v \<and> v \<le> ai_max_value x"

lemma analog_finish_effect:
  fixes s :: "'z analog_in_state_scheme"
  shows "let x = analog_ins s a in
     if in_range x (ai_value x)
     then \<exists>s'. analog_finish a s = Ret SF_RESCHEDULE s' \<and> analog_ins s' a = x\<lparr>ai_invalid_count := 0, ai_next_begin_time := ai_next_begin_time x + ai_rest_time x\<rparr>
     else if ai_invalid_count x + 1 \<ge> ai_range_check_count x
     then if shutdown_status s = 0 then \<exists>s'. analog_finish a s = Longjmp ''ADC out of range'' s'
          else \<exists>s'. analog_finish a s = Ret SF_RESCHEDULE s'
             \<and> analog_ins s' a = x\<lparr>ai_invalid_count := 0, ai_next_begin_time := ai_next_begin_time x + ai_rest_time x\<rparr>
     else \<exists>s'. analog_finish a s = Ret SF_RESCHEDULE s' \<and> analog_ins s' a = x\<lparr>ai_invalid_count := ai_invalid_count x + 1,
            ai_next_begin_time := ai_next_begin_time x + ai_rest_time x\<rparr>"
  by (simp add: analog_finish_def in_range_def sched_try_shutdown_def sched_shutdown_def Let_def)

definition read_state :: "nat \<Rightarrow> 'z analog_in_state_scheme \<Rightarrow> 'z analog_in_state_scheme" where
  "read_state a s = upd_analog a (\<lambda>x. x\<lparr>ai_value := sample_sum (analog_ins s a) (adc_next s), ai_state := sample_state (analog_ins s a)\<rparr>)
     (snd (gpio_adc_read (ai_pin (analog_ins s a)) (snd (gpio_adc_sample (ai_pin (analog_ins s a)) s))))"

lemma read_state_simps [simp]:
  "analog_ins (read_state a s) a = (analog_ins s a)\<lparr>ai_value := sample_sum (analog_ins s a) (adc_next s), ai_state := sample_state (analog_ins s a)\<rparr>"
  "shutdown_status (read_state a s) = shutdown_status s"
  by (simp_all add: read_state_def)

lemma analog_read:
  fixes s :: "'z analog_in_state_scheme"
  assumes "adc_ready a s"
  shows "analog_in_event a s =
     (if sample_state (analog_ins s a) < ai_sample_count (analog_ins s a)
      then Ret SF_RESCHEDULE (set_waketime (analog_timer a)
        (waketime (read_state a s) (analog_timer a) + ai_sample_time (analog_ins s a)) (read_state a s))
      else analog_finish a (read_state a s))"
  using assms
  by (cases "ai_state (analog_ins s a) \<ge> ai_sample_count (analog_ins s a)")
    (simp_all add: analog_in_event_def adc_ready_def split_beta Let_def sample_sum_def sample_state_def read_state_def)

text \<open>
  A cycle of samples: waiting for the converter, reads (with the list of the values read), and other code that leaves
  the input alone.
\<close>

inductive analog_run :: "nat \<Rightarrow> 'z analog_in_state_scheme \<Rightarrow> 16 word list \<Rightarrow> 'z analog_in_state_scheme \<Rightarrow> bool" for a s0 where
  start: "analog_run a s0 [] s0"
| wait: "analog_run a s0 vs s \<Longrightarrow> \<not> adc_ready a s \<Longrightarrow> analog_in_event a s = Ret r s' \<Longrightarrow> analog_run a s0 vs s'"
| read: "analog_run a s0 vs s \<Longrightarrow> adc_ready a s \<Longrightarrow> analog_in_event a s = Ret r s' \<Longrightarrow> analog_run a s0 (vs @ [adc_next s]) s'"
| others: "analog_run a s0 vs s \<Longrightarrow> analog_ins s' a = analog_ins s a \<Longrightarrow> analog_run a s0 vs s'"

definition cycle_inv :: "analog_in \<Rightarrow> 16 word list \<Rightarrow> analog_in \<Rightarrow> bool" where
  "cycle_inv x0 vs x \<longleftrightarrow> x = x0\<lparr>ai_value := (if vs = [] then ai_value x0 else sum_list vs),
     ai_state := (if vs = [] then ai_state x0 else of_nat (length vs))\<rparr>"

lemma cycle_read:
  assumes "cycle_inv x0 vs x" "ai_sample_count x0 \<le> ai_state x0" "length vs < unat (ai_sample_count x0)"
  shows "sample_sum x v = sum_list (vs @ [v]) \<and> sample_state x = of_nat (length (vs @ [v]))"
proof (cases "vs = []")
  case True
  then show ?thesis using assms(1,2) True by (simp add: cycle_inv_def sample_sum_def sample_state_def)
next
  case False
  have "unat (of_nat (length vs) :: u8) = length vs"
    using assms(3) unsigned_less [of "ai_sample_count x0", where ?'a = nat] by (simp add: unat_of_nat)
  then have "\<not> ai_sample_count x0 \<le> of_nat (length vs)" using assms(3) by (simp add: word_le_nat_alt)
  then show ?thesis using assms(1) False by (simp add: cycle_inv_def sample_sum_def sample_state_def add.commute)
qed

lemma run_cycle:
  fixes s :: "'z analog_in_state_scheme"
  assumes "analog_run a s0 vs s" "ai_sample_count (analog_ins s0 a) \<le> ai_state (analog_ins s0 a)"
    and "length vs < unat (ai_sample_count (analog_ins s0 a))"
  shows "cycle_inv (analog_ins s0 a) vs (analog_ins s a)"
  using assms
proof (induction rule: analog_run.induct)
  case start
  then show ?case by (simp add: cycle_inv_def)
next
  case (wait vs s r s')
  then show ?case using analog_wait [OF wait.hyps(3,2)] by simp
next
  case (read vs s r s')
  let ?b = "analog_ins s0 a" and ?x = "analog_ins s a"
  have inv: "cycle_inv ?b vs ?x" using read by simp
  have l: "length vs < unat (ai_sample_count ?b)" using read.prems(2) by simp
  note c = cycle_read [OF inv read.prems(1) l, of "adc_next s"]
  have "unat (of_nat (Suc (length vs)) :: u8) = Suc (length vs)"
    using read.prems(2) unsigned_less [of "ai_sample_count ?b", where ?'a = nat] by (simp only: unat_of_nat) simp
  then have "sample_state ?x < ai_sample_count ?b" using c read.prems(2) by (simp add: word_less_nat_alt)
  moreover have "ai_sample_count ?x = ai_sample_count ?b" using inv by (simp add: cycle_inv_def)
  ultimately have "analog_ins s' a = ?x\<lparr>ai_value := sample_sum ?x (adc_next s), ai_state := sample_state ?x\<rparr>"
    using analog_read [OF read.hyps(2)] read.hyps(3) by auto
  then show ?case using inv c by (simp add: cycle_inv_def)
qed simp

section \<open>Properties\<close>

text \<open>
  C39. A cycle of analog samples: from a state at least \<open>sample_count\<close>, whatever waiting and
  other code is in between, the value at the end of the cycle is the
  16 bit sum of exactly \<open>sample_count\<close> readings; a sum in range clears the error count, and the machine shuts down
  with "ADC out of range" exactly when the sum is out of range for the \<open>range_check_count\<close>-th cycle in a row.
\<close>

theorem analog_cycle:
  fixes s :: "'z analog_in_state_scheme"
  assumes "analog_run a s0 vs s" "ai_sample_count (analog_ins s0 a) \<le> ai_state (analog_ins s0 a)"
    and "Suc (length vs) = unat (ai_sample_count (analog_ins s0 a))"
    and "adc_ready a s" "shutdown_status s = 0"
  shows "let x = analog_ins s0 a; v = sum_list (vs @ [adc_next s]) in
     if in_range x v then \<exists>s'. analog_in_event a s = Ret SF_RESCHEDULE s' \<and> ai_value (analog_ins s' a) = v
        \<and> ai_invalid_count (analog_ins s' a) = 0
     else if ai_invalid_count x + 1 \<ge> ai_range_check_count x then \<exists>s'. analog_in_event a s = Longjmp ''ADC out of range'' s'
     else \<exists>s'. analog_in_event a s = Ret SF_RESCHEDULE s' \<and> ai_value (analog_ins s' a) = v
        \<and> ai_invalid_count (analog_ins s' a) = ai_invalid_count x + 1"
proof -
  let ?b = "analog_ins s0 a" and ?x = "analog_ins s a"
  have l: "length vs < unat (ai_sample_count ?b)" using assms(3) by simp
  have inv: "cycle_inv ?b vs ?x" using run_cycle [OF assms(1,2) l] .
  have c: "sample_sum ?x (adc_next s) = sum_list (vs @ [adc_next s])" "sample_state ?x = of_nat (unat (ai_sample_count ?b))"
    using cycle_read [OF inv assms(2) l, of "adc_next s"] assms(3) by simp_all
  have x: "ai_sample_count ?x = ai_sample_count ?b" "ai_min_value ?x = ai_min_value ?b" "ai_max_value ?x = ai_max_value ?b"
    "ai_invalid_count ?x = ai_invalid_count ?b" "ai_range_check_count ?x = ai_range_check_count ?b"
    using inv by (simp_all add: cycle_inv_def)
  have e: "analog_in_event a s = analog_finish a (read_state a s)"
    using analog_read [OF assms(4)] c(2) x(1) by simp
  show ?thesis
    using analog_finish_effect [of "read_state a s" a] assms(5)
    by (auto simp: e c(1) x in_range_def Let_def split: if_splits)
qed


text \<open>
  With a \<open>sample_count\<close> of 255 the start state \<open>sample_count + 1\<close> of \<open>command_query_analog_in\<close> wraps to 0, so that
  the first cycle adds its readings to whatever value was there before.
\<close>

theorem analog_stale_value:
  assumes "ai_sample_count x = 255" "ai_state x = ai_sample_count x + 1"
  shows "sample_sum x v = ai_value x + v"
proof -
  have le: "(255 :: u8) \<le> 0 \<longleftrightarrow> False" by code_simp
  have "(255 :: u8) + 1 = 0" by code_simp
  then have "ai_state x = 0" using assms by metis
  then show ?thesis using assms(1) le by (simp only: sample_sum_def add.commute if_False)
qed

definition demo_analog :: analog_in_state where
  "demo_analog = (pwm_out_state.extend demo_pwm
     \<lparr>adc_strt = (\<lambda>_. True), adc_sqr3 = (\<lambda>_. 5), adc_eoc = (\<lambda>_. True), adc_eoc_pos = 0, adc_dr = (\<lambda>n. 100 + of_nat n),
      adc_dr_pos = 0,
      analog_ins = (\<lambda>_. \<lparr>ai_rest_time = 5000, ai_sample_time = 100, ai_next_begin_time = 1000, ai_value = 7, ai_min_value = 300,
        ai_max_value = 400, ai_pin = \<lparr>ga_adc = 1, ga_chan = 5\<rparr>, ai_invalid_count = 2, ai_range_check_count = 3, ai_state = 2,
        ai_sample_count = 1\<rparr>), cfg_adc_pins = [], cfg_have_adc3 = False, cfg_sizeof_analog_in = 50\<rparr>)\<lparr>shutdown_status := 0\<rparr>"

lemma demo_analog_fields [simp]:
  "analog_ins demo_analog a = \<lparr>ai_rest_time = 5000, ai_sample_time = 100, ai_next_begin_time = 1000, ai_value = 7, ai_min_value = 300,
        ai_max_value = 400, ai_pin = \<lparr>ga_adc = 1, ga_chan = 5\<rparr>, ai_invalid_count = 2, ai_range_check_count = 3, ai_state = 2,
        ai_sample_count = 1\<rparr>"
  "adc_next demo_analog = 100" "adc_ready a demo_analog" "shutdown_status demo_analog = 0"
  by (simp_all add: demo_analog_def pwm_out_state.extend_def pwm_out_state.defs adc_next_def adc_ready_def gpio_adc_sample_def Let_def)

theorem analog_cycle_witness:
  "\<exists>s'. analog_in_event 600 demo_analog = Longjmp ''ADC out of range'' s'"
  using analog_cycle [OF analog_run.start, of demo_analog 600] by (simp add: in_range_def word_le_nat_alt)

end
