(* ===== verification/Buttons_Props.thy ===== *)
theory Buttons_Props
  imports Buttons Analog_Props
begin

text \<open>
  Properties of the user interface buttons and of the edge counter.
\<close>

text \<open>
  Lemmas on the buttons (\<open>src/buttons.c\<close>) and the edge counter (\<open>src/pulse_counter.c\<close>).
\<close>

section \<open>Debouncing\<close>

definition buttons_inv :: "buttons \<Rightarrow> bool" where
  "buttons_inv b \<longleftrightarrow> length (bt_reports b) = 8 \<and> bt_report_count b \<le> 8"

definition pending_reports :: "buttons \<Rightarrow> u8 list" where
  "pending_reports b = take (unat (bt_report_count b)) (bt_reports b)"

definition debounced_value :: "u8 \<Rightarrow> buttons \<Rightarrow> u8" where
  "debounced_value status b = (bt_pressed b AND (status XOR bt_last_pressed b)) OR (status AND NOT (status XOR bt_last_pressed b))"

lemma debounced_bit:
  "bit (debounced_value status b) i =
     (if bit status i = bit (bt_last_pressed b) i then bit status i else bit (bt_pressed b) i)" if "i < 8"
  using that by (auto simp: debounced_value_def bit_simps)

lemma debounced_changed:
  "debounced_value status b \<noteq> bt_pressed b \<longleftrightarrow> (status XOR bt_pressed b) AND NOT (status XOR bt_last_pressed b) \<noteq> 0"
  unfolding debounced_value_def by (auto simp: bit_eq_iff bit_simps)

lemma debounce_effect:
  assumes "buttons_inv b"
  shows "\<exists>r b'. buttons_debounce status b = Some (r, b') \<and> buttons_inv b' \<and> bt_pressed b' = debounced_value status b
     \<and> bt_ack_count b' = bt_ack_count b \<and> bt_last_pressed b' = status
     \<and> pending_reports b' = pending_reports b @
         (if debounced_value status b \<noteq> bt_pressed b \<and> bt_report_count b < 8 then [debounced_value status b] else [])"
proof (cases "debounced_value status b \<noteq> bt_pressed b")
  case True
  note ch = this [unfolded debounced_changed]
  have d: "status XOR bt_pressed b \<noteq> 0" using ch by auto
  show ?thesis
  proof (cases "bt_report_count b < 8")
    case room: True
    then have n: "unat (bt_report_count b) < 8" "unat (bt_report_count b + 1) = unat (bt_report_count b) + 1"
      by (simp_all add: word_less_nat_alt unat_word_ariths)
    have t: "take (Suc k) (xs[k := v]) = take k xs @ [v]" if "k < length xs" for k and xs :: "u8 list" and v
      using that by (simp add: take_Suc_conv_app_nth)
    show ?thesis
      using True ch d room n assms
      by (simp add: buttons_debounce_def Let_def rd_def buttons_inv_def pending_reports_def t word_le_nat_alt debounced_value_def)
        blast
  next
    case False
    then show ?thesis using True ch d assms
      by (simp add: buttons_debounce_def Let_def buttons_inv_def pending_reports_def debounced_value_def) blast
  qed
next
  case False
  then have "(status XOR bt_pressed b) AND NOT (status XOR bt_last_pressed b) = 0"
    using debounced_changed [of status b] by simp
  then have "buttons_debounce status b = Some (False, b\<lparr>bt_last_pressed := status\<rparr>)"
    by (simp add: buttons_debounce_def Let_def)
  then show ?thesis using False assms by (simp add: buttons_inv_def pending_reports_def) blast
qed

section \<open>Acknowledgement\<close>

lemma shift_reports_ok:
  "i + n + count \<le> length rs \<Longrightarrow>
     \<exists>rs'. shift_reports i n count rs = Some rs' \<and> length rs' = length rs \<and> take i rs' = take i rs
       \<and> take n (drop i rs') = take n (drop (i + count) rs)"
proof (induction n arbitrary: i rs)
  case (Suc n)
  then have "i + 1 + n + count \<le> length (rs[i := rs ! (i + count)])" by simp
  from Suc.IH [OF this] obtain rs' where rs': "shift_reports (i + 1) n count (rs[i := rs ! (i + count)]) = Some rs'"
    "length rs' = length rs" "take (i + 1) rs' = take (i + 1) (rs[i := rs ! (i + count)])"
    "take n (drop (i + 1) rs') = take n (drop (i + 1 + count) (rs[i := rs ! (i + count)]))" by auto
  have l: "i < length rs" "i < length rs'" "i + count < length rs" using Suc.prems rs'(2) by simp_all
  have "rs' ! i = rs ! (i + count)" using arg_cong [OF rs'(3), of "\<lambda>xs. xs ! i"] l by simp
  then have e: "take (Suc n) (drop i rs') = rs ! (i + count) # take n (drop (i + 1) rs')"
    using l by (simp add: Cons_nth_drop_Suc [symmetric])
  have "take (Suc n) (drop i rs') = take (Suc n) (drop (i + count) rs)"
    using l by (simp only: e rs'(4)) (simp add: Cons_nth_drop_Suc [symmetric, of "i + count" rs])
  moreover have "take i rs' = take i rs" using arg_cong [OF rs'(3), of "take i"] by simp
  ultimately show ?case using rs'(1,2) l by (simp add: rd_def)
qed simp

lemma ack_effect:
  assumes "buttons_inv b"
  shows "\<exists>b'. buttons_ack count b = Some b' \<and> buttons_inv b' \<and> bt_pressed b' = bt_pressed b
     \<and> bt_ack_count b' = bt_ack_count b + count \<and> pending_reports b' = drop (unat count) (pending_reports b)"
proof (cases "count \<ge> bt_report_count b")
  case True
  then show ?thesis using assms
    by (simp add: buttons_ack_def buttons_inv_def pending_reports_def word_le_nat_alt)
next
  case False
  have u: "unat (bt_report_count b - count) = unat (bt_report_count b) - unat count"
    using False by (simp add: unat_sub_if' word_le_nat_alt)
  have len: "0 + unat (bt_report_count b - count) + unat count \<le> length (bt_reports b)"
    using False assms by (simp add: u buttons_inv_def word_le_nat_alt)
  from shift_reports_ok [OF len] show ?thesis
    using False assms u by (auto simp: buttons_ack_def Let_def buttons_inv_def pending_reports_def word_le_nat_alt drop_take)
qed


section \<open>A run of the buttons\<close>

text \<open>
  The timer handler, acknowledgements from the host and other code that leaves the queue of reports alone (the task that
  sends it among them), with the history of the debounced values, one per change for which there was room, and the
  number of reports acknowledged.
\<close>

inductive buttons_run :: "nat \<Rightarrow> 'z input_state_scheme \<Rightarrow> u8 list \<Rightarrow> nat \<Rightarrow> 'z input_state_scheme \<Rightarrow> bool" for a s0 where
  start: "buttons_run a s0 [] 0 s0"
| sample: "buttons_run a s0 hist n s \<Longrightarrow> buttons_event a s = Ret r s' \<Longrightarrow>
    buttons_run a s0 (hist @ (if bt_pressed (buttons_objs s' a) \<noteq> bt_pressed (buttons_objs s a) \<and> bt_report_count (buttons_objs s a) < 8
      then [bt_pressed (buttons_objs s' a)] else [])) n s'"
| ack: "buttons_run a s0 hist n s \<Longrightarrow> command_buttons_ack args s = Ret () s' \<Longrightarrow>
    oid_lookup (ucast (args ! 0)) Command_config_buttons s = Ret (Some a) s \<Longrightarrow>
    (ucast (args ! 1) :: u8) \<le> bt_report_count (buttons_objs s a) \<Longrightarrow> buttons_run a s0 hist (n + unat (ucast (args ! 1) :: u8)) s'"
| others: "buttons_run a s0 hist n s \<Longrightarrow>
    (buttons_objs s' a)\<lparr>bt_retransmit_state := 0\<rparr> = (buttons_objs s a)\<lparr>bt_retransmit_state := 0\<rparr> \<Longrightarrow> buttons_run a s0 hist n s'"

lemma read_pins_frame: "read_pins ps bt st (s :: 'z input_state_scheme) = Ret v s' \<Longrightarrow> buttons_objs s' = buttons_objs s"
proof (induction ps bt st s arbitrary: v s' rule: read_pins.induct)
  case (3 p ps bt st s)
  then show ?case by (cases "gpio_in_read p s") (auto simp: gpio_in_read_def Let_def)
qed auto

lemma retransmit_frame:
  "(buttons_objs (buttons_retransmit a s) a)\<lparr>bt_retransmit_state := 0\<rparr> = (buttons_objs s a)\<lparr>bt_retransmit_state := 0\<rparr>"
  by (simp add: buttons_retransmit_def Let_def upd_buttons_def sched_wake_task_def sched_wake_tasks_def set_waketime_def upd_timer_def)

lemma event_debounces:
  fixes s :: "'z input_state_scheme"
  assumes "buttons_event a s = Ret r s'"
  shows "\<exists>status rep b. buttons_debounce status (buttons_objs s a) = Some (rep, b)
     \<and> (buttons_objs s' a)\<lparr>bt_retransmit_state := 0\<rparr> = b\<lparr>bt_retransmit_state := 0\<rparr>"
proof -
  obtain st s1 where r: "read_pins (take (unat (bt_button_count (buttons_objs s a))) (bt_pins (buttons_objs s a))) 1 0 s = Ret st s1"
    using assms by (cases "read_pins (take (unat (bt_button_count (buttons_objs s a))) (bt_pins (buttons_objs s a))) 1 0 s")
      (auto simp: buttons_event_def)
  have f: "buttons_objs s1 = buttons_objs s" using read_pins_frame [OF r] .
  obtain rep b where d: "buttons_debounce st (buttons_objs s a) = Some (rep, b)"
    using assms r f by (cases "buttons_debounce st (buttons_objs s a)") (auto simp: buttons_event_def)
  define s2 where "s2 = (if rep then sched_wake_task buttons_wake (upd_buttons a (\<lambda>_. b) s1) else upd_buttons a (\<lambda>_. b) s1)"
  have "s' = buttons_retransmit a s2"
    using assms r f d by (simp add: buttons_event_def s2_def Let_def)
  moreover have "buttons_objs s2 a = b" by (simp add: s2_def upd_buttons_def sched_wake_task_def sched_wake_tasks_def)
  ultimately have "(buttons_objs s' a)\<lparr>bt_retransmit_state := 0\<rparr> = b\<lparr>bt_retransmit_state := 0\<rparr>"
    using retransmit_frame [of a s2] by simp
  then show ?thesis using d by blast
qed

lemma same_queue:
  assumes "b'\<lparr>bt_retransmit_state := 0\<rparr> = b\<lparr>bt_retransmit_state := 0\<rparr>"
  shows "buttons_inv b' = buttons_inv b" "pending_reports b' = pending_reports b" "bt_pressed b' = bt_pressed b" "bt_ack_count b' = bt_ack_count b"
  using arg_cong [OF assms, of bt_reports] arg_cong [OF assms, of bt_report_count] arg_cong [OF assms, of bt_pressed]
    arg_cong [OF assms, of bt_ack_count]
  by (simp_all add: buttons_inv_def pending_reports_def)

lemma run_reports:
  fixes s :: "'z input_state_scheme"
  assumes "buttons_run a s0 hist n s" "bt_report_count (buttons_objs s0 a) = 0" "bt_ack_count (buttons_objs s0 a) = 0"
    and "length (bt_reports (buttons_objs s0 a)) = 8"
  shows "buttons_inv (buttons_objs s a) \<and> pending_reports (buttons_objs s a) = drop n hist \<and> n \<le> length hist
     \<and> bt_ack_count (buttons_objs s a) = of_nat n"
  using assms
proof (induction rule: buttons_run.induct)
  case start
  then show ?case by (simp add: buttons_inv_def pending_reports_def)
next
  case (sample hist n s r s')
  then have ih: "buttons_inv (buttons_objs s a)" "pending_reports (buttons_objs s a) = drop n hist" "n \<le> length hist"
    "bt_ack_count (buttons_objs s a) = of_nat n" by auto
  from event_debounces [OF sample.hyps(2)] obtain st rep b where
    b: "buttons_debounce st (buttons_objs s a) = Some (rep, b)"
      "(buttons_objs s' a)\<lparr>bt_retransmit_state := 0\<rparr> = b\<lparr>bt_retransmit_state := 0\<rparr>" by blast
  from debounce_effect [OF ih(1), of st] b(1) show ?case
    using ih same_queue [OF b(2)] by auto
next
  case (ack hist n s args s')
  let ?c = "ucast (args ! 1) :: u8"
  from ack have ih: "buttons_inv (buttons_objs s a)" "pending_reports (buttons_objs s a) = drop n hist" "n \<le> length hist"
    "bt_ack_count (buttons_objs s a) = of_nat n" by auto
  from ack_effect [OF ih(1), of ?c] obtain b where b: "buttons_ack ?c (buttons_objs s a) = Some b" "buttons_inv b"
    "bt_ack_count b = bt_ack_count (buttons_objs s a) + ?c" "pending_reports b = drop (unat ?c) (pending_reports (buttons_objs s a))" by blast
  have "unat ?c \<le> length (pending_reports (buttons_objs s a))"
    using ack.hyps(4) ih(1) by (simp add: pending_reports_def buttons_inv_def word_le_nat_alt)
  then have n: "n + unat ?c \<le> length hist" using ih(2,3) by simp
  have "buttons_objs s' a = b"
    using ack.hyps(2,3) b(1) by (auto simp: command_buttons_ack_def deref_def upd_buttons_def)
  then show ?case using b(2-4) ih n by (simp add: add.commute)
next
  case (others hist n s s')
  then show ?case using same_queue [OF others.hyps(2)] by simp
qed


section \<open>The edge counter\<close>

fun edges :: "bool \<Rightarrow> bool list \<Rightarrow> nat" where
  "edges v [] = 0"
| "edges v (w # ws) = (if v = w then 0 else 1) + edges w ws"

inductive counter_run :: "nat \<Rightarrow> 'z input_state_scheme \<Rightarrow> bool list \<Rightarrow> 'z input_state_scheme \<Rightarrow> bool" for a s0 where
  start: "counter_run a s0 [] s0"
| poll: "counter_run a s0 vs s \<Longrightarrow> counter_event a s = Ret r s' \<Longrightarrow>
    counter_run a s0 (vs @ [fst (gpio_in_read (ct_pin (counters s a)) s)]) s'"
| others: "counter_run a s0 vs s \<Longrightarrow> ct_count (counters s' a) = ct_count (counters s a) \<Longrightarrow> counter_run a s0 vs s'"

lemma edges_append: "edges v (ws @ [x]) = edges v ws + (if last (v # ws) = x then 0 else 1)"
  by (induction ws arbitrary: v) auto

lemma counter_event_effect:
  fixes s :: "'z input_state_scheme"
  assumes "counter_event a s = Ret r s'"
  shows "counters s' a = snd (counter_due (waketime s (counter_timer a))
     (counter_edge (waketime s (counter_timer a)) (fst (gpio_in_read (ct_pin (counters s a)) s)) (counters s a)))"
proof -
  let ?c = "counter_due (waketime s (counter_timer a))
     (counter_edge (waketime s (counter_timer a)) (fst (gpio_in_read (ct_pin (counters s a)) s)) (counters s a))"
  define s1 where "s1 = upd_counter a (\<lambda>_. snd ?c) (snd (gpio_in_read (ct_pin (counters s a)) s))"
  have "counters (snd (gpio_in_read (ct_pin (counters s a)) s)) = counters s" by (simp add: gpio_in_read_def Let_def)
  then have "\<exists>s2 w. s' = set_waketime (counter_timer a) w s2 \<and> counters s2 = counters s1"
    using assms by (auto simp: counter_event_def split_beta Let_def s1_def sched_wake_task_def sched_wake_tasks_def split: if_splits)
  then show ?thesis by (auto simp: s1_def upd_counter_def set_waketime_def upd_timer_def)
qed

lemma counter_edge_count:
  "ct_count (snd (counter_due t (counter_edge t v c))) = ct_count c + (if odd (ct_count c) = v then 0 else 1)"
  by (auto simp: counter_due_def counter_edge_def of_bool8_def and_one_eq odd_iff_mod_2_eq_one even_iff_mod_2_eq_zero)

lemma counter_edges:
  fixes s :: "'z input_state_scheme"
  assumes "counter_run a s0 vs s"
  shows "ct_count (counters s a) = ct_count (counters s0 a) + of_nat (edges (odd (ct_count (counters s0 a))) vs)
     \<and> odd (ct_count (counters s a)) = last (odd (ct_count (counters s0 a)) # vs)"
  using assms
proof (induction rule: counter_run.induct)
  case (poll vs s r s')
  then show ?case using counter_event_effect [OF poll.hyps(2)] by (auto simp: edges_append counter_edge_count)
qed auto

text \<open>
  \<open>command_query_counter\<close> sets the first report to the time of the first poll ("sample immediately"), but the comparison
  in the handler is strict, so that the first poll never reports.
\<close>

theorem counter_first_poll_silent:
  assumes "counter_event a s = Ret r s'" "ct_next_sample_time (counters s a) = waketime s (counter_timer a)"
  shows "ct_flags (counters s' a) = ct_flags (counters s a)"
  using counter_event_effect [OF assms(1)] assms(2)
  by (simp add: counter_due_def counter_edge_def timer_is_before_def)

text \<open>
  With eight reports pending a change of the buttons is recorded in \<open>pressed\<close> and never queued, so the host is
  not told of it until the next change.
\<close>

theorem buttons_change_dropped:
  assumes "buttons_inv b" "bt_report_count b = 8" "buttons_debounce status b = Some (r, b')"
  shows "pending_reports b' = pending_reports b \<and> bt_pressed b' = debounced_value status b"
  using debounce_effect [OF assms(1), of status] assms(2,3) by auto

section \<open>Properties\<close>

text \<open>
  C21. Delivery of the button reports: in any run of the timer handler, of acknowledgements of at most what is pending
  and of other code, the reports pending are the debounced changes so far, in order, without those acknowledged; the
  acknowledge counter is their number modulo 256, and neither a sample nor an acknowledgement leaves the eight bytes of
  the queue.
\<close>

theorem buttons_delivery:
  fixes s :: "'z input_state_scheme"
  assumes "buttons_run a s0 hist n s" "bt_report_count (buttons_objs s0 a) = 0" "bt_ack_count (buttons_objs s0 a) = 0"
    and "length (bt_reports (buttons_objs s0 a)) = 8"
  shows "pending_reports (buttons_objs s a) = drop n hist \<and> n \<le> length hist \<and> bt_ack_count (buttons_objs s a) = of_nat n
     \<and> (\<forall>status. buttons_debounce status (buttons_objs s a) \<noteq> None) \<and> (\<forall>count. buttons_ack count (buttons_objs s a) \<noteq> None)"
proof -
  note r = run_reports [OF assms]
  have "buttons_debounce status (buttons_objs s a) \<noteq> None" for status using debounce_effect [of _ status] r by fastforce
  moreover have "buttons_ack count (buttons_objs s a) \<noteq> None" for count using ack_effect [of _ count] r by fastforce
  ultimately show ?thesis using r by blast
qed

definition demo_input :: input_state where
  "demo_input = analog_in_state.extend demo_analog
     \<lparr>buttons_objs = (\<lambda>_. \<lparr>bt_rest_ticks = 500, bt_pressed = 0, bt_last_pressed = 1, bt_report_count = 0, bt_reports = replicate 8 0,
        bt_ack_count = 0, bt_retransmit_state = 0xfe, bt_retransmit_count = 50, bt_button_count = 1, bt_pins = [Some 7]\<rparr>),
      counters = (\<lambda>_. \<lparr>ct_poll_ticks = 10, ct_sample_ticks = 100, ct_next_sample_time = 0, ct_count = 0, ct_last_count_time = 0,
        ct_flags = 0, ct_pin = 7\<rparr>), cfg_sizeof_buttons = 60, cfg_sizeof_gpio_in = 8, cfg_sizeof_counter = 40\<rparr>"

lemma demo_input_fields [simp]:
  "buttons_objs demo_input a = \<lparr>bt_rest_ticks = 500, bt_pressed = 0, bt_last_pressed = 1, bt_report_count = 0, bt_reports = replicate 8 0,
        bt_ack_count = 0, bt_retransmit_state = 0xfe, bt_retransmit_count = 50, bt_button_count = 1, bt_pins = [Some 7]\<rparr>"
  "gpio_in_tape demo_input 7 (gpio_in_pos demo_input 7)"
  "buttons_objs (snd (gpio_in_read 7 demo_input)) = buttons_objs demo_input"
  by (simp_all add: demo_input_def analog_in_state.extend_def analog_in_state.defs gpio_in_read_def Let_def)
    (simp_all add: demo_analog_def pwm_out_state.extend_def pwm_out_state.defs demo_pwm_def digital_out_state.extend_def
      digital_out_state.defs set_waketime_def set_func_def upd_timer_def demo_digital_def endstop_state.extend_def endstop_state.defs
      demo_endstop_simps)

theorem buttons_delivery_witness:
  "\<exists>s. buttons_event 700 demo_input = Ret SF_RESCHEDULE s \<and> pending_reports (buttons_objs s 700) = [1]"
proof -
  have "\<exists>s. buttons_event 700 demo_input = Ret SF_RESCHEDULE s \<and> bt_pressed (buttons_objs s 700) = 1"
    by (simp add: buttons_event_def split_beta) (simp add: buttons_debounce_def Let_def rd_def upd_buttons_def sched_wake_task_def
        sched_wake_tasks_def buttons_retransmit_def set_waketime_def upd_timer_def)
  then obtain s where s: "buttons_event 700 demo_input = Ret SF_RESCHEDULE s" "bt_pressed (buttons_objs s 700) = 1" by blast
  from buttons_delivery [OF buttons_run.sample [OF buttons_run.start s(1)]] s show ?thesis by simp
qed

end
