(* ===== verification/Msgblock.thy ===== *)
theory Msgblock
  imports Command_Dispatch
begin

text \<open>
  The host's side of the message blocks, \<open>klippy/chelper/msgblock.c\<close>: the check of received bytes, the integer
  encoding, the messages of the command queues and the clock estimate. A \<open>double\<close> is a value of a type
  \<open>'d\<close> whose operations are an argument, so what is shown holds for every rounding of the arithmetic.
\<close>

section \<open>Floating point operations\<close>

text \<open>\<open>f_frac a b\<close> is the literal with the value a/b, \<open>f_trunc\<close> the conversion to an integer.\<close>

record 'd fops =
  f_add :: "'d \<Rightarrow> 'd \<Rightarrow> 'd"
  f_sub :: "'d \<Rightarrow> 'd \<Rightarrow> 'd"
  f_mul :: "'d \<Rightarrow> 'd \<Rightarrow> 'd"
  f_div :: "'d \<Rightarrow> 'd \<Rightarrow> 'd"
  f_less :: "'d \<Rightarrow> 'd \<Rightarrow> bool"
  f_le :: "'d \<Rightarrow> 'd \<Rightarrow> bool"
  f_eq :: "'d \<Rightarrow> 'd \<Rightarrow> bool"
  f_abs :: "'d \<Rightarrow> 'd"
  f_sqrt :: "'d \<Rightarrow> 'd"
  f_int :: "int \<Rightarrow> 'd"
  f_frac :: "int \<Rightarrow> int \<Rightarrow> 'd"
  f_trunc :: "'d \<Rightarrow> int"
  f_ceil :: "'d \<Rightarrow> 'd"

section \<open>Received bytes\<close>

text \<open>The label \<open>error\<close> of \<open>msgblock_check\<close>; the result is the return value and \<open>*need_sync\<close>.\<close>

definition msgblock_error :: "u8 list \<Rightarrow> nat \<Rightarrow> int \<times> u8" where
  "msgblock_error buf buf_len =
     (case memchr buf MESSAGE_SYNC buf_len of
        Some next_sync \<Rightarrow> (- (int next_sync + 1), 0)
      | None \<Rightarrow> (- int buf_len, 1))"

definition msgblock_check :: "u8 \<Rightarrow> u8 list \<Rightarrow> nat \<Rightarrow> (int \<times> u8) option" where
  "msgblock_check need_sync buf buf_len =
     (if buf_len < MESSAGE_MIN then Some (0, need_sync)
      else if need_sync \<noteq> 0 then Some (msgblock_error buf buf_len)
      else do {
        msglen \<leftarrow> rd buf MESSAGE_POS_LEN;
        if unat msglen < MESSAGE_MIN \<or> unat msglen > MESSAGE_MAX then Some (msgblock_error buf buf_len)
        else do {
          msgseq \<leftarrow> rd buf MESSAGE_POS_SEQ;
          if msgseq AND NOT MESSAGE_SEQ_MASK \<noteq> MESSAGE_DEST then Some (msgblock_error buf buf_len)
          else if buf_len < unat msglen then Some (0, need_sync)
          else do {
            sync \<leftarrow> rd buf (unat msglen - MESSAGE_TRAILER_SYNC);
            if sync \<noteq> MESSAGE_SYNC then Some (msgblock_error buf buf_len)
            else do {
              hi \<leftarrow> rd buf (unat msglen - MESSAGE_TRAILER_CRC);
              lo \<leftarrow> rd buf (unat msglen - MESSAGE_TRAILER_CRC + 1);
              crc \<leftarrow> msgblock_crc16_ccitt buf (msglen - of_nat MESSAGE_TRAILER_SIZE);
              if crc \<noteq> push_bit 8 (ucast hi) OR ucast lo then Some (msgblock_error buf buf_len)
              else Some (int (unat msglen), need_sync)
            }
          }
        }
      })"

section \<open>Integers\<close>

definition msgblock_encode_int :: "u32 \<Rightarrow> u8 list" where
  "msgblock_encode_int v =
     (let sv = sint v;
          f4 = [ucast (v AND 0x7f)];
          f3 = ucast ((drop_bit 7 v AND 0x7f) OR 0x80) # f4;
          f2 = ucast ((drop_bit 14 v AND 0x7f) OR 0x80) # f3;
          f1 = ucast ((drop_bit 21 v AND 0x7f) OR 0x80) # f2
      in if vlq_fits sv 5 then f4
         else if vlq_fits sv 12 then f3
         else if vlq_fits sv 19 then f2
         else if vlq_fits sv 26 then f1
         else ucast (drop_bit 28 v OR 0x80) # f1)"

function msgblock_parse_loop :: "u8 list \<Rightarrow> nat \<Rightarrow> u8 \<Rightarrow> u32 \<Rightarrow> (u32 \<times> nat) option" where
  "msgblock_parse_loop buf p c v =
     (if c AND 0x80 \<noteq> 0
      then (case rd buf p of
              None \<Rightarrow> None
            | Some c' \<Rightarrow> msgblock_parse_loop buf (Suc p) c' (push_bit 7 v OR ucast (c' AND 0x7f)))
      else Some (v, p))"
  by pat_completeness auto
termination
  by (relation "measure (\<lambda>(buf, p, c, v). length buf - p)") (auto simp: rd_def split: if_splits)

declare msgblock_parse_loop.simps [simp del]

definition msgblock_parse_int :: "u8 list \<Rightarrow> nat \<Rightarrow> (u32 \<times> nat) option" where
  "msgblock_parse_int buf p =
     (case rd buf p of
        None \<Rightarrow> None
      | Some c \<Rightarrow>
          let v = ucast (c AND 0x7f);
              v = (if c AND 0x60 = 0x60 then v OR - 0x20 else v)
          in msgblock_parse_loop buf (Suc p) c v)"

text \<open>The loop of \<open>msgblock_decode\<close> over \<open>data_len\<close>: the values stored, and \<open>p\<close>, or \<open>Inl\<close> of the values before the end.\<close>

fun decode_loop :: "nat \<Rightarrow> u8 list \<Rightarrow> nat \<Rightarrow> nat \<Rightarrow> u32 list \<Rightarrow> (u32 list + u32 list \<times> nat) option" where
  "decode_loop 0 msg p e data = Some (Inr (data, p))"
| "decode_loop (Suc n) msg p e data =
     (if p \<ge> e then Some (Inl data)
      else case msgblock_parse_int msg p of
             None \<Rightarrow> None
           | Some (v, p) \<Rightarrow> decode_loop n msg p e (data @ [v]))"

definition msgblock_decode :: "nat \<Rightarrow> u8 list \<Rightarrow> nat \<Rightarrow> (int \<times> u32 list) option" where
  "msgblock_decode data_len msg msg_len =
     (let e = msg_len - MESSAGE_TRAILER_SIZE in
      case decode_loop data_len msg MESSAGE_HEADER_SIZE e [] of
        None \<Rightarrow> None
      | Some (Inl data) \<Rightarrow> Some (-1, data)
      | Some (Inr (data, p)) \<Rightarrow> if p \<noteq> e then Some (-1, data) else Some (0, data))"

section \<open>Messages\<close>

record 'd queue_message =
  qm_len :: nat
  qm_msg :: "u8 list"
  qm_min_clock :: u64
  qm_req_clock :: u64
  qm_sent_time :: 'd
  qm_receive_time :: 'd
  qm_notify_id :: u64

definition message_alloc :: "'d fops \<Rightarrow> 'd queue_message" where
  "message_alloc F = \<lparr>qm_len = 0, qm_msg = replicate MESSAGE_MAX 0, qm_min_clock = 0, qm_req_clock = 0,
     qm_sent_time = f_int F 0, qm_receive_time = f_int F 0, qm_notify_id = 0\<rparr>"

definition message_fill :: "'d fops \<Rightarrow> u8 list \<Rightarrow> nat \<Rightarrow> 'd queue_message option" where
  "message_fill F data len =
     do {
       _ \<leftarrow> (if len \<le> length data then Some () else None);
       msg \<leftarrow> wr_bytes (qm_msg (message_alloc F)) 0 (take len data);
       Some ((message_alloc F)\<lparr>qm_msg := msg, qm_len := len\<rparr>)
     }"

text \<open>The loop of \<open>message_alloc_and_encode\<close>: \<open>Inl\<close> is \<open>goto fail\<close>.\<close>

fun encode_data :: "u32 list \<Rightarrow> u8 list \<Rightarrow> nat \<Rightarrow> (u8 list + u8 list \<times> nat) option" where
  "encode_data [] msg p = Some (Inr (msg, p))"
| "encode_data (v # vs) msg p =
     (let bs = msgblock_encode_int v in
      case wr_bytes msg p bs of
        None \<Rightarrow> None
      | Some msg \<Rightarrow>
          let p = p + length bs in
          if p > MESSAGE_PAYLOAD_MAX then Some (Inl msg) else encode_data vs msg p)"

definition message_alloc_and_encode :: "'d fops \<Rightarrow> u32 list \<Rightarrow> 'd queue_message option" where
  "message_alloc_and_encode F data =
     (let qm = message_alloc F in
      case encode_data data (qm_msg qm) 0 of
        None \<Rightarrow> None
      | Some (Inl msg) \<Rightarrow> Some (qm\<lparr>qm_msg := msg, qm_len := 0\<rparr>)
      | Some (Inr (msg, p)) \<Rightarrow> Some (qm\<lparr>qm_msg := msg, qm_len := p\<rparr>))"

section \<open>Clock estimation\<close>

record 'd clock_estimate =
  ce_last_clock :: u64
  ce_conv_clock :: u64
  ce_conv_time :: 'd
  ce_est_freq :: 'd

definition clock_from_clock32 :: "'d clock_estimate \<Rightarrow> u32 \<Rightarrow> u64" where
  "clock_from_clock32 ce clock32 = ce_last_clock ce + word_of_int (sint (clock32 - ucast (ce_last_clock ce)))"

definition clock_to_time :: "'d fops \<Rightarrow> 'd clock_estimate \<Rightarrow> u64 \<Rightarrow> 'd" where
  "clock_to_time F ce clock =
     f_add F (ce_conv_time ce) (f_div F (f_int F (sint (clock - ce_conv_clock ce))) (ce_est_freq ce))"

definition clock_from_time :: "'d fops \<Rightarrow> 'd clock_estimate \<Rightarrow> 'd \<Rightarrow> u64" where
  "clock_from_time F ce time =
     word_of_int (f_trunc F (f_add F (f_mul F (f_sub F time (ce_conv_time ce)) (ce_est_freq ce)) (f_frac F 1 2))) + ce_conv_clock ce"

definition clock_fill :: "'d \<Rightarrow> 'd \<Rightarrow> u64 \<Rightarrow> u64 \<Rightarrow> 'd clock_estimate" where
  "clock_fill est_freq conv_time conv_clock last_clock =
     \<lparr>ce_last_clock = last_clock, ce_conv_clock = conv_clock, ce_conv_time = conv_time, ce_est_freq = est_freq\<rparr>"

end
