(* ===== verification/Pollreactor.thy ===== *)
theory Pollreactor
  imports Msgblock
begin

text \<open>
  The event loop of the host's background threads, \<open>klippy/chelper/pollreactor.c\<close>: its timers, the exit request and one
  pass of \<open>pollreactor_run\<close>. The callbacks work on a state that contains the reactor (\<open>get\<close> and \<open>put\<close> select it); what
  \<open>poll\<close> and \<open>get_monotonic\<close> return are arguments.
\<close>

record 'd pollreactor =
  pr_must_exit :: bool
  pr_next_timer :: 'd
  pr_timers :: "'d list"

definition PR_NOW :: "'d fops \<Rightarrow> 'd" where "PR_NOW F = f_int F 0"

definition PR_NEVER :: "'d fops \<Rightarrow> 'd" where "PR_NEVER F = f_int F 9999999999999999"

definition pollreactor_alloc :: "'d fops \<Rightarrow> nat \<Rightarrow> 'd pollreactor" where
  "pollreactor_alloc F num_timers =
     \<lparr>pr_must_exit = False, pr_next_timer = PR_NEVER F, pr_timers = replicate num_timers (PR_NEVER F)\<rparr>"

definition pollreactor_add_timer :: "'d fops \<Rightarrow> nat \<Rightarrow> 'd pollreactor \<Rightarrow> 'd pollreactor" where
  "pollreactor_add_timer F pos pr = pr\<lparr>pr_timers := (pr_timers pr)[pos := PR_NEVER F]\<rparr>"

definition pollreactor_get_timer :: "nat \<Rightarrow> 'd pollreactor \<Rightarrow> 'd" where
  "pollreactor_get_timer pos pr = pr_timers pr ! pos"

definition pollreactor_update_timer :: "'d fops \<Rightarrow> nat \<Rightarrow> 'd \<Rightarrow> 'd pollreactor \<Rightarrow> 'd pollreactor" where
  "pollreactor_update_timer F pos wake pr =
     (let pr = pr\<lparr>pr_timers := (pr_timers pr)[pos := wake]\<rparr>
      in if f_less F wake (pr_next_timer pr) then pr\<lparr>pr_next_timer := wake\<rparr> else pr)"

definition pollreactor_do_exit :: "'d pollreactor \<Rightarrow> 'd pollreactor" where
  "pollreactor_do_exit pr = pr\<lparr>pr_must_exit := True\<rparr>"

definition pollreactor_is_exit :: "'d pollreactor \<Rightarrow> bool" where
  "pollreactor_is_exit pr = pr_must_exit pr"

text \<open>The loop over the timers from \<open>i\<close>; \<open>n\<close> are left.\<close>

fun check_timers_loop :: "'d fops \<Rightarrow> ('s \<Rightarrow> 'd pollreactor) \<Rightarrow> ('d pollreactor \<Rightarrow> 's \<Rightarrow> 's) \<Rightarrow> (nat \<Rightarrow> 'd \<Rightarrow> 's \<Rightarrow> ('d \<times> 's) option)
    \<Rightarrow> 'd \<Rightarrow> nat \<Rightarrow> nat \<Rightarrow> bool \<Rightarrow> 's \<Rightarrow> (bool \<times> 's) option" where
  "check_timers_loop F get put cb eventtime i 0 busy s = Some (busy, s)"
| "check_timers_loop F get put cb eventtime i (Suc n) busy s =
     (let t = pr_timers (get s) ! i in
      do {
        (t, busy, s) \<leftarrow>
          (if f_le F t eventtime then do {
             (t, s) \<leftarrow> cb i eventtime s;
             Some (t, True, put ((get s)\<lparr>pr_timers := (pr_timers (get s))[i := t]\<rparr>) s)
           } else Some (t, busy, s));
        let s = (if f_less F t (pr_next_timer (get s)) then put ((get s)\<lparr>pr_next_timer := t\<rparr>) s else s);
        check_timers_loop F get put cb eventtime (i + 1) n busy s
      })"

text \<open>The result is the timeout for \<open>poll\<close> in milliseconds.\<close>

definition pollreactor_check_timers :: "'d fops \<Rightarrow> ('s \<Rightarrow> 'd pollreactor) \<Rightarrow> ('d pollreactor \<Rightarrow> 's \<Rightarrow> 's) \<Rightarrow> (nat \<Rightarrow> 'd \<Rightarrow> 's \<Rightarrow> ('d \<times> 's) option)
    \<Rightarrow> 'd \<Rightarrow> bool \<Rightarrow> 's \<Rightarrow> (int \<times> 's) option" where
  "pollreactor_check_timers F get put cb eventtime busy s =
     do {
       (busy, s) \<leftarrow>
         (if f_le F (pr_next_timer (get s)) eventtime then
            check_timers_loop F get put cb eventtime 0 (length (pr_timers (get s))) busy (put ((get s)\<lparr>pr_next_timer := PR_NEVER F\<rparr>) s)
          else Some (busy, s));
       if busy then Some (0, s)
       else
         let timeout = f_ceil F (f_mul F (f_sub F (pr_next_timer (get s)) eventtime) (f_int F 1000)) in
         Some (if f_less F timeout (f_int F 1) then 1 else if f_less F (f_int F 1000) timeout then 1000 else f_trunc F timeout, s)
     }"

fun run_fds :: "(nat \<Rightarrow> 'd \<Rightarrow> 's \<Rightarrow> 's option) \<Rightarrow> 'd \<Rightarrow> nat list \<Rightarrow> 's \<Rightarrow> 's option" where
  "run_fds fd_cb eventtime [] s = Some s"
| "run_fds fd_cb eventtime (i # fds) s = do { s \<leftarrow> fd_cb i eventtime s; run_fds fd_cb eventtime fds s }"

text \<open>
  One pass of the loop of \<open>pollreactor_run\<close>: \<open>ret\<close> and \<open>ready\<close> (the descriptors with events) are the result of \<open>poll\<close>,
  \<open>eventtime'\<close> the time after it. The result has the \<open>busy\<close> flag of the next pass.
\<close>

definition pollreactor_pass :: "'d fops \<Rightarrow> ('s \<Rightarrow> 'd pollreactor) \<Rightarrow> ('d pollreactor \<Rightarrow> 's \<Rightarrow> 's) \<Rightarrow> (nat \<Rightarrow> 'd \<Rightarrow> 's \<Rightarrow> ('d \<times> 's) option)
    \<Rightarrow> (nat \<Rightarrow> 'd \<Rightarrow> 's \<Rightarrow> 's option) \<Rightarrow> int \<Rightarrow> nat list \<Rightarrow> 'd \<Rightarrow> 'd \<Rightarrow> bool \<Rightarrow> 's \<Rightarrow> (bool \<times> 's) option" where
  "pollreactor_pass F get put cb fd_cb ret ready eventtime eventtime' busy s =
     (if pr_must_exit (get s) then Some (busy, s)
      else do {
        (timeout, s) \<leftarrow> pollreactor_check_timers F get put cb eventtime busy s;
        if ret > 0 then do { s \<leftarrow> run_fds fd_cb eventtime' ready s; Some (True, s) }
        else if ret < 0 then Some (False, put (pollreactor_do_exit (get s)) s)
        else Some (False, s)
      })"

end
