(* ===== verification/Stepcompress.thy ===== *)
theory Stepcompress
  imports Msgblock "HOL-Library.Signed_Division"
begin

text \<open>
  The step compressor of the host, \<open>klippy/chelper/stepcompress.c\<close>: the queue of step times of a stepper is
  turned into \<open>queue_step\<close> commands. Signed arithmetic on \<open>int32_t\<close> that would overflow (undefined in C) and a read outside
  the queue are \<^const>\<open>None\<close>; unsigned arithmetic wraps. Of the pointers \<open>queue\<close>, \<open>queue_pos\<close>, \<open>queue_next\<close> and
  \<open>queue_end\<close> the model has the entries between the second and the third, the offset of the second and the size.
\<close>

section \<open>State\<close>

record step_move =
  sm_interval :: u32
  sm_count :: u16
  sm_add :: u16

record history_steps =
  hs_first_clock :: u64
  hs_last_clock :: u64
  hs_start_position :: u64
  hs_step_count :: int
  hs_interval :: int
  hs_add :: int

record 'd stepcompress =
  sc_queue :: "u32 list"
  sc_queue_pos :: nat
  sc_queue_alloc :: nat
  sc_max_error :: u32
  sc_mcu_time_offset :: 'd
  sc_mcu_freq :: 'd
  sc_last_step_print_time :: 'd
  sc_last_step_clock :: u64
  sc_msg_queue :: "'d queue_message list"
  sc_oid :: u32
  sc_queue_step_msgtag :: u32
  sc_set_next_step_dir_msgtag :: u32
  sc_sdir :: int
  sc_invert_sdir :: int
  sc_next_step_clock :: u64
  sc_next_step_dir :: int
  sc_last_position :: u64
  sc_history :: "history_steps list"

definition ERROR_RET :: int where "ERROR_RET = -989898989"

section \<open>Signed arithmetic\<close>

definition i32 :: "int \<Rightarrow> int option" where
  "i32 x = (if - (2 ^ 31) \<le> x \<and> x < 2 ^ 31 then Some x else None)"

definition idiv_up :: "int \<Rightarrow> int \<Rightarrow> int option" where
  "idiv_up n d = (if n \<ge> 0 then do { x \<leftarrow> i32 (n + d); Some ((x - 1) sdiv d) } else Some (n sdiv d))"

definition idiv_down :: "int \<Rightarrow> int \<Rightarrow> int option" where
  "idiv_down n d = (if n \<ge> 0 then Some (n sdiv d) else do { x \<leftarrow> i32 (n - d); Some ((x + 1) sdiv d) })"

section \<open>Step compression\<close>

text \<open>\<open>minmax_point\<close> of \<open>sc->queue_pos + i\<close>: the earliest and the latest time allowed.\<close>

definition minmax_point :: "'d stepcompress \<Rightarrow> nat \<Rightarrow> (int \<times> int) option" where
  "minmax_point sc i =
     (let lsc = ucast (sc_last_step_clock sc) in
      do {
        q \<leftarrow> rd (sc_queue sc) i;
        prevpoint \<leftarrow> (if i > 0 then do { r \<leftarrow> rd (sc_queue sc) (i - 1); Some (r - lsc) } else Some 0);
        let point = q - lsc;
        let max_error = (point - prevpoint) div 2;
        let max_error = (if max_error > sc_max_error sc then sc_max_error sc else max_error);
        Some (sint (point - max_error), sint point)
      })"

definition QUADRATIC_DEV :: u32 where "QUADRATIC_DEV = 11"

definition addfactor :: "int \<Rightarrow> int option" where
  "addfactor n = do { x \<leftarrow> i32 (n * (n - 1)); Some (x sdiv 2) }"

text \<open>The interval bounds after one more point.\<close>

definition narrow :: "int \<Rightarrow> int \<Rightarrow> int \<times> int \<Rightarrow> int \<Rightarrow> int \<Rightarrow> (int \<times> int) option" where
  "narrow add nextcount nextpoint nextmininterval nextmaxinterval =
     do {
       nextaddfactor \<leftarrow> addfactor nextcount;
       c \<leftarrow> i32 (add * nextaddfactor);
       x \<leftarrow> i32 (nextmininterval * nextcount);
       lo \<leftarrow> i32 (fst nextpoint - c);
       nextmininterval \<leftarrow> (if x < lo then idiv_up lo nextcount else Some nextmininterval);
       y \<leftarrow> i32 (nextmaxinterval * nextcount);
       hi \<leftarrow> i32 (snd nextpoint - c);
       nextmaxinterval \<leftarrow> (if y > hi then idiv_down hi nextcount else Some nextmaxinterval);
       Some (nextmininterval, nextmaxinterval)
     }"

text \<open>
  The inner loop: \<open>Inl\<close> is the \<open>return\<close> when the whole queue is covered (the interval and the count), \<open>Inr\<close> the
  \<open>break\<close> (\<open>nextcount\<close>, the last bounds, the interval and \<open>nextpoint\<close>).
\<close>

function extend_seq :: "'d stepcompress \<Rightarrow> nat \<Rightarrow> int \<Rightarrow> nat \<Rightarrow> int \<Rightarrow> int \<Rightarrow> int \<Rightarrow>
    ((int \<times> int) + (int \<times> (int \<times> int) \<times> int \<times> (int \<times> int))) option" where
  "extend_seq sc qlast add nextcount nextmininterval nextmaxinterval interval =
     (if nextcount \<ge> qlast then Some (Inl (interval, int nextcount))
      else case minmax_point sc nextcount of
        None \<Rightarrow> None
      | Some nextpoint \<Rightarrow>
          (case narrow add (int nextcount + 1) nextpoint nextmininterval nextmaxinterval of
             None \<Rightarrow> None
           | Some (lo, hi) \<Rightarrow>
               if lo > hi then Some (Inr (int nextcount + 1, (lo, hi), interval, nextpoint))
               else extend_seq sc qlast add (nextcount + 1) lo hi hi))"
  by pat_completeness auto
termination by (relation "measure (\<lambda>(sc, qlast, add, n, _). qlast - n)") auto

declare extend_seq.simps [simp del]

record bisect =
  bi_minadd :: int
  bi_maxadd :: int
  bi_outer_mininterval :: int
  bi_outer_maxinterval :: int
  bi_bestinterval :: int
  bi_bestcount :: int
  bi_bestadd :: int
  bi_bestreach :: int
  bi_zerointerval :: int
  bi_zerocount :: int

text \<open>The check for the best sequence so far; the flag is the \<open>break\<close> out of the loop.\<close>

definition bisect_best :: "int \<Rightarrow> int \<Rightarrow> int \<Rightarrow> bisect \<Rightarrow> (bool \<times> bisect) option" where
  "bisect_best add interval count b =
     do {
       f \<leftarrow> addfactor count;
       r1 \<leftarrow> i32 (add * f);
       r2 \<leftarrow> i32 (interval * count);
       reach \<leftarrow> i32 (r1 + r2);
       if reach > bi_bestreach b \<or> (reach = bi_bestreach b \<and> interval > bi_bestinterval b) then
         let b = b\<lparr>bi_bestinterval := interval, bi_bestcount := count, bi_bestadd := add, bi_bestreach := reach\<rparr>;
             b = (if add = 0 then b\<lparr>bi_zerointerval := interval, bi_zerocount := count\<rparr> else b)
         in Some (count > 0x200, b)
       else Some (False, b)
     }"

text \<open>Whether a greater or a lesser \<open>add\<close> could extend the sequence.\<close>

definition bisect_side :: "int \<Rightarrow> int \<Rightarrow> int \<Rightarrow> int \<times> int \<Rightarrow> int \<times> int \<Rightarrow> bisect \<Rightarrow> bisect option" where
  "bisect_side add interval nextcount nextbounds nextpoint b =
     do {
       f \<leftarrow> addfactor nextcount;
       r1 \<leftarrow> i32 (add * f);
       r2 \<leftarrow> i32 (interval * nextcount);
       nextreach \<leftarrow> i32 (r1 + r2);
       if nextreach < fst nextpoint then Some (b\<lparr>bi_minadd := add + 1, bi_outer_maxinterval := snd nextbounds\<rparr>)
       else Some (b\<lparr>bi_maxadd := add - 1, bi_outer_mininterval := fst nextbounds\<rparr>)
     }"

text \<open>
  The limit from the largest deviation of two sequences. \<open>max_error*QUADRATIC_DEV / (count*count)\<close> is unsigned; its
  result is converted to \<open>int32_t\<close>.
\<close>

definition bisect_deviation :: "u32 \<Rightarrow> int \<Rightarrow> int \<Rightarrow> bisect \<Rightarrow> bisect option" where
  "bisect_deviation max_error add count b =
     (if count > 1 then do {
        cc \<leftarrow> i32 (count * count);
        let errdelta = sint ((max_error * QUADRATIC_DEV) div word_of_int cc);
        lo \<leftarrow> i32 (add - errdelta);
        let b = (if bi_minadd b < lo then b\<lparr>bi_minadd := lo\<rparr> else b);
        hi \<leftarrow> i32 (add + errdelta);
        Some (if bi_maxadd b > hi then b\<lparr>bi_maxadd := hi\<rparr> else b)
      } else Some b)"

definition bisect_next :: "int \<Rightarrow> int \<times> int \<Rightarrow> bisect \<Rightarrow> bisect option" where
  "bisect_next nextcount nextpoint b =
     do {
       f \<leftarrow> addfactor nextcount;
       c \<leftarrow> i32 (bi_outer_maxinterval b * nextcount);
       x \<leftarrow> i32 (bi_minadd b * f);
       lo \<leftarrow> i32 (fst nextpoint - c);
       minadd \<leftarrow> (if x < lo then idiv_up lo f else Some (bi_minadd b));
       let b = b\<lparr>bi_minadd := minadd\<rparr>;
       c \<leftarrow> i32 (bi_outer_mininterval b * nextcount);
       y \<leftarrow> i32 (bi_maxadd b * f);
       hi \<leftarrow> i32 (snd nextpoint - c);
       maxadd \<leftarrow> (if y > hi then idiv_down hi f else Some (bi_maxadd b));
       Some (b\<lparr>bi_maxadd := maxadd\<rparr>)
     }"

text \<open>One round of the outer loop: \<open>Inl\<close> returns a move, \<open>Inr (True, b)\<close> leaves the loop.\<close>

definition bisect_step :: "'d stepcompress \<Rightarrow> nat \<Rightarrow> int \<Rightarrow> bisect \<Rightarrow> (step_move + bool \<times> bisect) option" where
  "bisect_step sc qlast add b =
     do {
       r \<leftarrow> extend_seq sc qlast add 1 (bi_outer_mininterval b) (bi_outer_maxinterval b) (bi_outer_maxinterval b);
       (case r of
          Inl (interval, count) \<Rightarrow>
            Some (Inl \<lparr>sm_interval = word_of_int interval, sm_count = word_of_int count, sm_add = word_of_int add\<rparr>)
        | Inr (nextcount, nextbounds, interval, nextpoint) \<Rightarrow> do {
            (stop, b) \<leftarrow> bisect_best add interval (nextcount - 1) b;
            if stop then Some (Inr (True, b))
            else do {
              b \<leftarrow> bisect_side add interval nextcount nextbounds nextpoint b;
              b \<leftarrow> bisect_deviation (sc_max_error sc) add (nextcount - 1) b;
              b \<leftarrow> bisect_next nextcount nextpoint b;
              Some (Inr (False, b))
            }
          })
     }"

definition bisect_result :: "bisect \<Rightarrow> step_move" where
  "bisect_result b =
     (if bi_zerocount b + bi_zerocount b sdiv 16 \<ge> bi_bestcount b
      then \<lparr>sm_interval = word_of_int (bi_zerointerval b), sm_count = word_of_int (bi_zerocount b), sm_add = 0\<rparr>
      else \<lparr>sm_interval = word_of_int (bi_bestinterval b), sm_count = word_of_int (bi_bestcount b), sm_add = word_of_int (bi_bestadd b)\<rparr>)"

text \<open>The divisions round up and down.\<close>

lemma i32_Some: "i32 x = Some y \<longleftrightarrow> y = x \<and> - (2 ^ 31) \<le> x \<and> x < 2 ^ 31"
  by (auto simp: i32_def)

lemma sdiv_neg: "n < 0 \<Longrightarrow> d > 0 \<Longrightarrow> (n :: int) sdiv d = - (- n div d)"
  by (simp add: signed_divide_int_def)

lemma sdiv_nonneg: "0 \<le> n \<Longrightarrow> d > 0 \<Longrightarrow> (n :: int) sdiv d = n div d"
  by (cases "n = 0") (auto simp: signed_divide_int_def)

lemma idiv_up_ceil:
  assumes "idiv_up n d = Some q" "d > 0"
  shows "n \<le> q * d \<and> (q - 1) * d < n"
proof (cases "n \<ge> 0")
  case True
  then have "q = (n + d - 1) div d" using assms by (auto simp: idiv_up_def i32_Some sdiv_nonneg bind_eq_Some_conv)
  moreover have "(n + d - 1) div d * d + (n + d - 1) mod d = n + d - 1" by (rule div_mult_mod_eq)
  moreover have "0 \<le> (n + d - 1) mod d" "(n + d - 1) mod d < d" using assms(2) by auto
  ultimately show ?thesis by (simp only: left_diff_distrib mult_1) linarith
next
  case False
  then have "q = - (- n div d)" using assms by (auto simp: idiv_up_def sdiv_neg)
  moreover have "- n div d * d + - n mod d = - n" by (rule div_mult_mod_eq)
  moreover have "0 \<le> - n mod d" "- n mod d < d" using assms(2) by auto
  ultimately show ?thesis by (simp only: left_diff_distrib mult_1 minus_mult_left [symmetric]) linarith
qed

lemma idiv_down_floor:
  assumes "idiv_down n d = Some q" "d > 0"
  shows "q * d \<le> n \<and> n < (q + 1) * d"
proof (cases "n \<ge> 0")
  case True
  then have "q = n div d" using assms by (auto simp: idiv_down_def sdiv_nonneg)
  moreover have "n div d * d + n mod d = n" by (rule div_mult_mod_eq)
  moreover have "0 \<le> n mod d" "n mod d < d" using assms(2) by auto
  ultimately show ?thesis by (simp only: distrib_right mult_1) linarith
next
  case False
  then have q: "q = (n - d + 1) sdiv d" using assms by (auto simp: idiv_down_def i32_Some bind_eq_Some_conv)
  have m: "- (n - d + 1) div d * d + - (n - d + 1) mod d = - (n - d + 1)" by (rule div_mult_mod_eq)
  have "0 \<le> - (n - d + 1) mod d" "- (n - d + 1) mod d < d" using assms(2) by auto
  moreover have "q = - (- (n - d + 1) div d)" unfolding q using False assms(2) by (intro sdiv_neg) auto
  ultimately show ?thesis using m by (simp only: distrib_right mult_1 minus_mult_left [symmetric]) linarith
qed

lemma addfactor_Some: "addfactor n = Some f \<Longrightarrow> 2 \<le> n \<Longrightarrow> f = n * (n - 1) div 2 \<and> f > 0"
proof -
  assume a: "addfactor n = Some f" "2 \<le> n"
  have "0 \<le> n * (n - 1)" using a(2) by simp
  then have f: "f = n * (n - 1) div 2" using a by (auto simp: addfactor_def i32_Some sdiv_nonneg bind_eq_Some_conv)
  have "2 * 1 \<le> n * (n - 1)" using a(2) by (intro mult_mono) auto
  then show ?thesis using f by simp
qed

lemma extend_seq_count:
  "extend_seq sc qlast add n lo hi i = Some (Inr (nc, bounds, i', pt)) \<Longrightarrow> int n < nc \<and> nc \<le> int qlast"
proof (induction sc qlast add n lo hi i rule: extend_seq.induct)
  case (1 sc qlast add n lo hi i)
  from "1.prems" show ?case
    by (subst (asm) extend_seq.simps) (auto split: if_splits option.splits prod.splits dest!: "1.IH")
qed

lemma bisect_best_range:
  "bisect_best add i n b = Some (stop, b') \<Longrightarrow> bi_minadd b' = bi_minadd b \<and> bi_maxadd b' = bi_maxadd b"
  by (auto simp: bisect_best_def Let_def bind_eq_Some_conv split: if_splits)

lemma bisect_deviation_range:
  "bisect_deviation me add n b = Some b' \<Longrightarrow> bi_minadd b \<le> bi_minadd b' \<and> bi_maxadd b' \<le> bi_maxadd b"
  by (auto simp: bisect_deviation_def Let_def i32_Some bind_eq_Some_conv split: if_splits)

lemma bisect_next_range:
  assumes "bisect_next nc pt b = Some b'" "2 \<le> nc"
  shows "bi_minadd b \<le> bi_minadd b' \<and> bi_maxadd b' \<le> bi_maxadd b"
proof -
  define lo hi where "lo = fst pt - bi_outer_maxinterval b * nc" and "hi = snd pt - bi_outer_mininterval b * nc"
  from assms(1) obtain f where f: "addfactor nc = Some f"
    and l: "bi_minadd b * f < lo \<and> idiv_up lo f = Some (bi_minadd b') \<or> bi_minadd b' = bi_minadd b"
    and h: "bi_maxadd b * f > hi \<and> idiv_down hi f = Some (bi_maxadd b') \<or> bi_maxadd b' = bi_maxadd b"
    unfolding lo_def hi_def by (auto simp: bisect_next_def Let_def i32_Some bind_eq_Some_conv split: if_splits)
  have f0: "f > 0" using addfactor_Some [OF f assms(2)] by simp
  have "bi_minadd b \<le> bi_minadd b'"
    using l idiv_up_ceil [of lo f "bi_minadd b'"] f0 by (metis less_le_not_le linorder_le_cases mult_less_cancel_right order_less_le_trans)
  moreover have "bi_maxadd b' \<le> bi_maxadd b"
    using h idiv_down_floor [of hi f "bi_maxadd b'"] f0 by (metis less_le_not_le linorder_le_cases mult_less_cancel_right order_le_less_trans)
  ultimately show ?thesis ..
qed

lemma bisect_step_shrinks:
  assumes "bisect_step sc qlast add b = Some (Inr (False, b'))" "bi_minadd b \<le> add" "add \<le> bi_maxadd b"
  shows "nat (bi_maxadd b' + 1 - bi_minadd b') < nat (bi_maxadd b + 1 - bi_minadd b)"
proof -
  let ?e = "extend_seq sc qlast add 1 (bi_outer_mininterval b) (bi_outer_maxinterval b) (bi_outer_maxinterval b)"
  from assms(1) obtain r where r: "?e = Some r" by (auto simp: bisect_step_def bind_eq_Some_conv)
  then obtain nc bs i pt where e: "?e = Some (Inr (nc, bs, i, pt))"
    using assms(1) by (cases r) (auto simp: bisect_step_def)
  from assms(1) obtain b1 b2 b3 where s:
    "bisect_best add i (nc - 1) b = Some (False, b1)" "bisect_side add i nc bs pt b1 = Some b2"
    "bisect_deviation (sc_max_error sc) add (nc - 1) b2 = Some b3" "bisect_next nc pt b3 = Some b'"
    by (auto simp: bisect_step_def e [unfolded One_nat_def] bind_eq_Some_conv split: if_splits)
  have nc: "2 \<le> nc" using extend_seq_count [OF e] by simp
  have "bi_minadd b2 = add + 1 \<and> bi_maxadd b2 = bi_maxadd b1 \<or> bi_minadd b2 = bi_minadd b1 \<and> bi_maxadd b2 = add - 1"
    using s(2) by (auto simp: bisect_side_def bind_eq_Some_conv split: if_splits)
  then show ?thesis
    using bisect_best_range [OF s(1)] bisect_deviation_range [OF s(3)] bisect_next_range [OF s(4) nc] assms(2,3) by auto
qed

text \<open>
  The outer loop. The test and the choice of the next \<open>add\<close> stand at the end of its body in the code; the first round,
  with \<open>add = 0\<close>, is done before.
\<close>

function bisect_loop :: "'d stepcompress \<Rightarrow> nat \<Rightarrow> bisect \<Rightarrow> step_move option" where
  "bisect_loop sc qlast b =
     (if bi_minadd b > bi_maxadd b then Some (bisect_result b)
      else case bisect_step sc qlast (bi_maxadd b - (bi_maxadd b - bi_minadd b) sdiv 4) b of
        None \<Rightarrow> None
      | Some (Inl move) \<Rightarrow> Some move
      | Some (Inr (stop, b')) \<Rightarrow> if stop then Some (bisect_result b') else bisect_loop sc qlast b')"
  by pat_completeness auto
termination
proof (relation "measure (\<lambda>(sc, qlast, b). nat (bi_maxadd b + 1 - bi_minadd b))", goal_cases)
  case (2 sc qlast b r p stop b')
  let ?d = "bi_maxadd b - bi_minadd b"
  have "0 \<le> ?d sdiv 4" "?d sdiv 4 \<le> ?d" using 2(1) by (simp_all add: sdiv_nonneg)
  then show ?case using 2 bisect_step_shrinks [of sc qlast _ b b'] by simp
qed simp

declare bisect_loop.simps [simp del]

definition compress_bisect_add :: "'d stepcompress \<Rightarrow> step_move option" where
  "compress_bisect_add sc =
     (let qlast = (if length (sc_queue sc) > 65535 then 65535 else length (sc_queue sc)) in
      do {
        point \<leftarrow> minmax_point sc 0;
        r \<leftarrow> bisect_step sc qlast 0
               \<lparr>bi_minadd = - 0x8000, bi_maxadd = 0x7fff, bi_outer_mininterval = fst point, bi_outer_maxinterval = snd point,
                bi_bestinterval = 0, bi_bestcount = 1, bi_bestadd = 1, bi_bestreach = - (2 ^ 31), bi_zerointerval = 0,
                bi_zerocount = 0\<rparr>;
        (case r of
           Inl move \<Rightarrow> Some move
         | Inr (stop, b) \<Rightarrow> if stop then Some (bisect_result b) else bisect_loop sc qlast b)
      })"

section \<open>Step compress checking\<close>

text \<open>The loop over the points: \<open>i\<close> is the index, \<open>n\<close> the number of points left.\<close>

fun check_points :: "'d stepcompress \<Rightarrow> nat \<Rightarrow> nat \<Rightarrow> u32 \<Rightarrow> u32 \<Rightarrow> u16 \<Rightarrow> int option" where
  "check_points sc i 0 p interval add = Some 0"
| "check_points sc i (Suc n) p interval add =
     (case minmax_point sc i of
        None \<Rightarrow> None
      | Some point \<Rightarrow>
          let p = p + interval in
          if p < word_of_int (fst point) \<or> p > word_of_int (snd point) then Some ERROR_RET
          else if interval \<ge> 0x80000000 then Some ERROR_RET
          else check_points sc (i + 1) n p (interval + scast add) add)"

definition check_line :: "'d stepcompress \<Rightarrow> step_move \<Rightarrow> int option" where
  "check_line sc move =
     (if sm_count move = 0 \<or> (sm_interval move = 0 \<and> sm_add move = 0 \<and> sm_count move > 1) \<or> sm_interval move \<ge> 0x80000000
      then Some ERROR_RET
      else check_points sc 0 (unat (sm_count move)) 0 (sm_interval move) (sm_add move))"

section \<open>Step compress interface\<close>

definition stepcompress_alloc :: "'d fops \<Rightarrow> 'd queue_message list \<Rightarrow> 'd stepcompress" where
  "stepcompress_alloc F msg_queue =
     \<lparr>sc_queue = [], sc_queue_pos = 0, sc_queue_alloc = 0, sc_max_error = 0, sc_mcu_time_offset = f_int F 0,
      sc_mcu_freq = f_int F 0, sc_last_step_print_time = f_int F 0, sc_last_step_clock = 0, sc_msg_queue = msg_queue,
      sc_oid = 0, sc_queue_step_msgtag = 0, sc_set_next_step_dir_msgtag = 0, sc_sdir = -1, sc_invert_sdir = 0,
      sc_next_step_clock = 0, sc_next_step_dir = 0, sc_last_position = 0, sc_history = []\<rparr>"

definition stepcompress_fill :: "u32 \<Rightarrow> u32 \<Rightarrow> u32 \<Rightarrow> u32 \<Rightarrow> 'd stepcompress \<Rightarrow> 'd stepcompress" where
  "stepcompress_fill oid max_error queue_step_msgtag set_next_step_dir_msgtag sc =
     sc\<lparr>sc_oid := oid, sc_max_error := max_error, sc_queue_step_msgtag := queue_step_msgtag,
        sc_set_next_step_dir_msgtag := set_next_step_dir_msgtag\<rparr>"

definition stepcompress_set_invert_sdir :: "u32 \<Rightarrow> 'd stepcompress \<Rightarrow> 'd stepcompress" where
  "stepcompress_set_invert_sdir invert_sdir sc =
     (let inv = (if invert_sdir \<noteq> 0 then 1 else 0) in
      if inv \<noteq> sc_invert_sdir sc then
        let sc = sc\<lparr>sc_invert_sdir := inv\<rparr>
        in if sc_sdir sc \<ge> 0 then sc\<lparr>sc_sdir := sc_sdir sc XOR 1\<rparr> else sc
      else sc)"

text \<open>The newest entry of the history is the head of the list; the oldest are dropped from its end.\<close>

function expire_history :: "u64 \<Rightarrow> history_steps list \<Rightarrow> history_steps list" where
  "expire_history end_clock hs =
     (if hs = [] then []
      else if hs_last_clock (last hs) > end_clock then hs
      else expire_history end_clock (butlast hs))"
  by pat_completeness auto
termination by (relation "measure (\<lambda>(c, hs). length hs)") auto

declare expire_history.simps [simp del]

definition stepcompress_history_expire :: "u64 \<Rightarrow> 'd stepcompress \<Rightarrow> 'd stepcompress" where
  "stepcompress_history_expire end_clock sc = sc\<lparr>sc_history := expire_history end_clock (sc_history sc)\<rparr>"

definition stepcompress_get_oid :: "'d stepcompress \<Rightarrow> u32" where
  "stepcompress_get_oid sc = sc_oid sc"

definition stepcompress_get_step_dir :: "'d stepcompress \<Rightarrow> int" where
  "stepcompress_get_step_dir sc = sc_next_step_dir sc"

definition calc_last_step_print_time :: "'d fops \<Rightarrow> 'd stepcompress \<Rightarrow> 'd stepcompress" where
  "calc_last_step_print_time F sc =
     (let lsc = f_int F (uint (sc_last_step_clock sc)) in
      sc\<lparr>sc_last_step_print_time := f_add F (sc_mcu_time_offset sc) (f_div F (f_sub F lsc (f_frac F 1 2)) (sc_mcu_freq sc))\<rparr>)"

definition stepcompress_set_time :: "'d fops \<Rightarrow> 'd \<Rightarrow> 'd \<Rightarrow> 'd stepcompress \<Rightarrow> 'd stepcompress" where
  "stepcompress_set_time F time_offset mcu_freq sc =
     calc_last_step_print_time F (sc\<lparr>sc_mcu_time_offset := time_offset, sc_mcu_freq := mcu_freq\<rparr>)"

definition CLOCK_DIFF_MAX :: u64 where "CLOCK_DIFF_MAX = 3 * 2 ^ 28"

text \<open>\<open>ticks\<close> of a move: the signed products may overflow, the sum is unsigned.\<close>

definition move_ticks :: "step_move \<Rightarrow> u32 option" where
  "move_ticks move =
     (let count = int (unat (sm_count move)) in
      do {
        f \<leftarrow> addfactor count;
        x \<leftarrow> i32 (sint (sm_add move) * f);
        Some (word_of_int x + sm_interval move * word_of_int (count - 1))
      })"

definition add_move :: "'d fops \<Rightarrow> u64 \<Rightarrow> step_move \<Rightarrow> 'd stepcompress \<Rightarrow> 'd stepcompress option" where
  "add_move F first_clock move sc =
     do {
       ticks \<leftarrow> move_ticks move;
       let last_clock = first_clock + ucast ticks;
       qm \<leftarrow> message_alloc_and_encode F
         [sc_queue_step_msgtag sc, sc_oid sc, sm_interval move, ucast (sm_count move), scast (sm_add move)];
       let qm = qm\<lparr>qm_min_clock := sc_last_step_clock sc, qm_req_clock := sc_last_step_clock sc\<rparr>;
       let qm = (if sm_count move = 1 \<and> first_clock \<ge> sc_last_step_clock sc + CLOCK_DIFF_MAX
                 then qm\<lparr>qm_req_clock := first_clock\<rparr> else qm);
       let sc = sc\<lparr>sc_msg_queue := sc_msg_queue sc @ [qm], sc_last_step_clock := last_clock\<rparr>;
       let count = int (unat (sm_count move));
       let hs = \<lparr>hs_first_clock = first_clock, hs_last_clock = last_clock, hs_start_position = sc_last_position sc,
                 hs_step_count = (if sc_sdir sc \<noteq> 0 then count else - count), hs_interval = sint (sm_interval move),
                 hs_add = sint (sm_add move)\<rparr>;
       Some (sc\<lparr>sc_last_position := sc_last_position sc + word_of_int (hs_step_count hs), sc_history := hs # sc_history sc\<rparr>)
     }"

text \<open>
  The loop of \<open>queue_flush\<close>. The return value is 0 or that of \<open>check_line\<close>; a move that passes has at least one step, so
  the queue gets shorter.
\<close>

function flush_loop :: "'d fops \<Rightarrow> u64 \<Rightarrow> 'd stepcompress \<Rightarrow> (int \<times> 'd stepcompress) option" where
  "flush_loop F move_clock sc =
     (if sc_last_step_clock sc < move_clock then
        case compress_bisect_add sc of
          None \<Rightarrow> None
        | Some move \<Rightarrow>
            (case check_line sc move of
               None \<Rightarrow> None
             | Some ret \<Rightarrow>
                 if ret \<noteq> 0 then Some (ret, sc)
                 else case add_move F (sc_last_step_clock sc + ucast (sm_interval move)) move sc of
                        None \<Rightarrow> None
                      | Some sc' \<Rightarrow>
                          if length (sc_queue sc) \<le> unat (sm_count move) then
                            Some (0, calc_last_step_print_time F (sc'\<lparr>sc_queue := [], sc_queue_pos := 0\<rparr>))
                          else flush_loop F move_clock
                                 (sc'\<lparr>sc_queue := drop (unat (sm_count move)) (sc_queue sc),
                                      sc_queue_pos := sc_queue_pos sc + unat (sm_count move)\<rparr>))
      else Some (0, calc_last_step_print_time F sc))"
  by pat_completeness auto
termination
proof (relation "measure (\<lambda>(F, c, sc). length (sc_queue sc))", goal_cases)
  case (2 F move_clock sc move ret sc')
  have "sm_count move \<noteq> 0" using 2 by (auto simp: check_line_def ERROR_RET_def)
  then have "0 < unat (sm_count move)" by (simp add: unat_gt_0)
  then show ?case using 2 by auto
qed simp

declare flush_loop.simps [simp del]

definition queue_flush :: "'d fops \<Rightarrow> u64 \<Rightarrow> 'd stepcompress \<Rightarrow> (int \<times> 'd stepcompress) option" where
  "queue_flush F move_clock sc = (if sc_queue sc = [] then Some (0, sc) else flush_loop F move_clock sc)"

definition stepcompress_flush_far :: "'d fops \<Rightarrow> u64 \<Rightarrow> 'd stepcompress \<Rightarrow> (int \<times> 'd stepcompress) option" where
  "stepcompress_flush_far F abs_step_clock sc =
     do {
       sc \<leftarrow> add_move F abs_step_clock \<lparr>sm_interval = ucast (abs_step_clock - sc_last_step_clock sc), sm_count = 1, sm_add = 0\<rparr> sc;
       Some (0, calc_last_step_print_time F sc)
     }"

definition set_next_step_dir :: "'d fops \<Rightarrow> int \<Rightarrow> 'd stepcompress \<Rightarrow> (int \<times> 'd stepcompress) option" where
  "set_next_step_dir F sdir sc =
     (if sc_sdir sc = sdir then Some (0, sc)
      else do {
        (ret, sc) \<leftarrow> queue_flush F (- 1) sc;
        if ret \<noteq> 0 then Some (ret, sc)
        else do {
          let sc = sc\<lparr>sc_sdir := sdir\<rparr>;
          qm \<leftarrow> message_alloc_and_encode F [sc_set_next_step_dir_msgtag sc, sc_oid sc, word_of_int (sdir XOR sc_invert_sdir sc)];
          let qm = qm\<lparr>qm_req_clock := sc_last_step_clock sc\<rparr>;
          Some (0, sc\<lparr>sc_msg_queue := sc_msg_queue sc @ [qm]\<rparr>)
        }
      })"

text \<open>\<open>*sc->queue_next++ = v\<close>: \<^const>\<open>None\<close> when \<open>queue_next\<close> is the end of the allocated storage.\<close>

definition queue_store :: "u64 \<Rightarrow> 'd stepcompress \<Rightarrow> 'd stepcompress option" where
  "queue_store v sc =
     (if sc_queue_pos sc + length (sc_queue sc) < sc_queue_alloc sc
      then Some (sc\<lparr>sc_queue := sc_queue sc @ [ucast v]\<rparr>) else None)"

definition queue_append_far :: "'d fops \<Rightarrow> 'd stepcompress \<Rightarrow> (int \<times> 'd stepcompress) option" where
  "queue_append_far F sc =
     (let step_clock = sc_next_step_clock sc; sc = sc\<lparr>sc_next_step_clock := 0\<rparr> in
      do {
        (ret, sc) \<leftarrow> queue_flush F (step_clock - CLOCK_DIFF_MAX + 1) sc;
        if ret \<noteq> 0 then Some (ret, sc)
        else if step_clock \<ge> sc_last_step_clock sc + CLOCK_DIFF_MAX then stepcompress_flush_far F step_clock sc
        else do { sc \<leftarrow> queue_store step_clock sc; Some (0, sc) }
      })"

text \<open>\<open>while (in_use >= alloc) alloc *= 2\<close>, from an \<open>alloc\<close> above 0.\<close>

function grow_alloc :: "nat \<Rightarrow> nat \<Rightarrow> nat" where
  "grow_alloc in_use alloc = (if in_use \<ge> alloc \<and> alloc > 0 then grow_alloc in_use (alloc * 2) else alloc)"
  by pat_completeness auto
termination by (relation "measure (\<lambda>(in_use, alloc). in_use + 1 - alloc)") auto

declare grow_alloc.simps [simp del]

definition QUEUE_START_SIZE :: nat where "QUEUE_START_SIZE = 1024"

definition make_room :: "'d stepcompress \<Rightarrow> 'd stepcompress" where
  "make_room sc =
     (if sc_queue_pos sc + length (sc_queue sc) \<ge> sc_queue_alloc sc then
        let in_use = length (sc_queue sc);
            sc = (if sc_queue_pos sc > 0 then sc
                  else let alloc = sc_queue_alloc sc; alloc = (if alloc = 0 then QUEUE_START_SIZE else alloc)
                       in sc\<lparr>sc_queue_alloc := grow_alloc in_use alloc\<rparr>)
        in sc\<lparr>sc_queue_pos := 0\<rparr>
      else sc)"

definition queue_append_extend :: "'d fops \<Rightarrow> 'd stepcompress \<Rightarrow> (int \<times> 'd stepcompress) option" where
  "queue_append_extend F sc =
     do {
       (ret, sc) \<leftarrow>
         (if length (sc_queue sc) > 65535 + 2000 then
            let flush = sc_queue sc ! (length (sc_queue sc) - 65535) - ucast (sc_last_step_clock sc)
            in queue_flush F (sc_last_step_clock sc + ucast flush) sc
          else Some (0, sc));
       if ret \<noteq> 0 then Some (ret, sc)
       else do {
         let sc = make_room sc;
         sc \<leftarrow> queue_store (sc_next_step_clock sc) sc;
         Some (0, sc\<lparr>sc_next_step_clock := 0\<rparr>)
       }
     }"

definition queue_append :: "'d fops \<Rightarrow> 'd stepcompress \<Rightarrow> (int \<times> 'd stepcompress) option" where
  "queue_append F sc =
     do {
       (ret, sc) \<leftarrow> (if sc_next_step_dir sc \<noteq> sc_sdir sc then set_next_step_dir F (sc_next_step_dir sc) sc else Some (0, sc));
       if ret \<noteq> 0 then Some (ret, sc)
       else if sc_next_step_clock sc \<ge> sc_last_step_clock sc + CLOCK_DIFF_MAX then queue_append_far F sc
       else if sc_queue_pos sc + length (sc_queue sc) \<ge> sc_queue_alloc sc then queue_append_extend F sc
       else do {
         sc \<leftarrow> queue_store (sc_next_step_clock sc) sc;
         Some (0, sc\<lparr>sc_next_step_clock := 0\<rparr>)
       }
     }"

definition SDS_FILTER_TIME :: "'d fops \<Rightarrow> 'd" where "SDS_FILTER_TIME F = f_frac F 750 1000000"

definition stepcompress_append :: "'d fops \<Rightarrow> int \<Rightarrow> 'd \<Rightarrow> 'd \<Rightarrow> 'd stepcompress \<Rightarrow> (int \<times> 'd stepcompress) option" where
  "stepcompress_append F sdir print_time steptime sc =
     (let offset = f_sub F print_time (sc_last_step_print_time sc);
          rel_sc = f_mul F (f_add F steptime offset) (sc_mcu_freq sc);
          step_clock = sc_last_step_clock sc + word_of_int (f_trunc F rel_sc);
          diff = f_int F (sint (step_clock - sc_next_step_clock sc))
      in
      if sc_next_step_clock sc \<noteq> 0 \<and> sdir \<noteq> sc_next_step_dir sc \<and> f_less F diff (f_mul F (SDS_FILTER_TIME F) (sc_mcu_freq sc)) then
        Some (0, sc\<lparr>sc_next_step_clock := 0, sc_next_step_dir := sdir\<rparr>)
      else do {
        (ret, sc) \<leftarrow> (if sc_next_step_clock sc \<noteq> 0 then queue_append F sc else Some (0, sc));
        if ret \<noteq> 0 then Some (ret, sc)
        else Some (0, sc\<lparr>sc_next_step_clock := step_clock, sc_next_step_dir := sdir\<rparr>)
      })"

definition stepcompress_commit :: "'d fops \<Rightarrow> 'd stepcompress \<Rightarrow> (int \<times> 'd stepcompress) option" where
  "stepcompress_commit F sc = (if sc_next_step_clock sc \<noteq> 0 then queue_append F sc else Some (0, sc))"

definition stepcompress_flush :: "'d fops \<Rightarrow> u64 \<Rightarrow> 'd stepcompress \<Rightarrow> (int \<times> 'd stepcompress) option" where
  "stepcompress_flush F move_clock sc =
     do {
       (ret, sc) \<leftarrow> (if sc_next_step_clock sc \<noteq> 0 \<and> move_clock \<ge> sc_next_step_clock sc then queue_append F sc else Some (0, sc));
       if ret \<noteq> 0 then Some (ret, sc) else queue_flush F move_clock sc
     }"

definition stepcompress_reset :: "'d fops \<Rightarrow> u64 \<Rightarrow> 'd stepcompress \<Rightarrow> (int \<times> 'd stepcompress) option" where
  "stepcompress_reset F last_step_clock sc =
     do {
       (ret, sc) \<leftarrow> stepcompress_flush F (- 1) sc;
       if ret \<noteq> 0 then Some (ret, sc)
       else Some (0, calc_last_step_print_time F (sc\<lparr>sc_last_step_clock := last_step_clock, sc_sdir := -1\<rparr>))
     }"

definition stepcompress_set_last_position :: "'d fops \<Rightarrow> u64 \<Rightarrow> u64 \<Rightarrow> 'd stepcompress \<Rightarrow> (int \<times> 'd stepcompress) option" where
  "stepcompress_set_last_position F clock last_position sc =
     do {
       (ret, sc) \<leftarrow> stepcompress_flush F (- 1) sc;
       if ret \<noteq> 0 then Some (ret, sc)
       else Some (0, sc\<lparr>sc_last_position := last_position,
         sc_history := \<lparr>hs_first_clock = clock, hs_last_clock = clock, hs_start_position = last_position, hs_step_count = 0,
           hs_interval = 0, hs_add = 0\<rparr> # sc_history sc\<rparr>)
     }"

text \<open>
  The offset inside a move: \<open>ticks / interval\<close>, or the solution of the quadratic equation in floating point.
\<close>

definition steps_at :: "'d fops \<Rightarrow> history_steps \<Rightarrow> u64 \<Rightarrow> int option" where
  "steps_at F hs clock =
     (let interval = hs_interval hs; add = hs_add hs in
      do {
        ticks \<leftarrow> i32 (sint (ucast (clock - hs_first_clock hs) :: u32) + interval);
        if add = 0 then (if interval = 0 then None else Some (ticks sdiv interval))
        else
          let a = f_mul F (f_frac F 1 2) (f_int F add);
              b = f_sub F (f_int F interval) (f_mul F (f_frac F 1 2) (f_int F add));
              c = f_int F (- ticks);
              root = f_sqrt F (f_sub F (f_mul F b b) (f_mul F (f_mul F (f_int F 4) a) c))
          in Some (f_trunc F (f_div F (f_sub F root b) (f_mul F (f_int F 2) a)))
      })"

fun find_past :: "'d fops \<Rightarrow> u64 \<Rightarrow> history_steps list \<Rightarrow> u64 \<Rightarrow> u64 option" where
  "find_past F clock [] last_position = Some last_position"
| "find_past F clock (hs # rest) last_position =
     (if clock < hs_first_clock hs then find_past F clock rest (hs_start_position hs)
      else if clock \<ge> hs_last_clock hs then Some (hs_start_position hs + word_of_int (hs_step_count hs))
      else do {
        offset \<leftarrow> steps_at F hs clock;
        Some (if hs_step_count hs < 0 then hs_start_position hs - word_of_int offset else hs_start_position hs + word_of_int offset)
      })"

definition stepcompress_find_past_position :: "'d fops \<Rightarrow> u64 \<Rightarrow> 'd stepcompress \<Rightarrow> u64 option" where
  "stepcompress_find_past_position F clock sc = find_past F clock (sc_history sc) (sc_last_position sc)"

text \<open>The entries copied to the caller's array.\<close>

fun extract_history :: "nat \<Rightarrow> u64 \<Rightarrow> u64 \<Rightarrow> history_steps list \<Rightarrow> history_steps list" where
  "extract_history limit start_clock end_clock [] = []"
| "extract_history limit start_clock end_clock (hs # rest) =
     (if start_clock \<ge> hs_last_clock hs \<or> limit = 0 then []
      else if end_clock \<le> hs_first_clock hs then extract_history limit start_clock end_clock rest
      else hs # extract_history (limit - 1) start_clock end_clock rest)"

definition stepcompress_extract_old :: "nat \<Rightarrow> u64 \<Rightarrow> u64 \<Rightarrow> 'd stepcompress \<Rightarrow> history_steps list" where
  "stepcompress_extract_old limit start_clock end_clock sc = extract_history limit start_clock end_clock (sc_history sc)"

end
