(* ===== verification/Steppersync.thy ===== *)
theory Steppersync
  imports Stepcompress
begin

text \<open>
  The synchronisation of the step commands of a micro-controller, \<open>klippy/chelper/steppersync.c\<close>: the emitters with
  their message queues and threads, the heap of the clocks at which the items of the micro-controller's move queue become
  free, and the merge of the queues. The generation of steps from the planned moves and the check of the planned moves
  (\<open>itersolve.c\<close>, \<open>trapq.c\<close>) are arguments; the batch that \<open>steppersync_flush\<close> hands to the serial queue is its result.
\<close>

section \<open>Emitters\<close>

text \<open>
  \<open>sc->msg_queue\<close> points to the \<open>msg_queue\<close> of the emitter; with a \<open>stepcompress\<close> object the model keeps the queue there.
\<close>

record ('d, 'k) syncemitter =
  se_msg_queue :: "'d queue_message list"
  se_sc :: "'d stepcompress option"
  se_sk :: "'k option"
  se_name :: string
  se_have_work :: int
  se_gen_steps_time :: 'd
  se_flush_clock :: u64
  se_clear_history_clock :: u64
  se_result :: int

definition emitter_queue :: "('d, 'k) syncemitter \<Rightarrow> 'd queue_message list" where
  "emitter_queue se = (case se_sc se of Some sc \<Rightarrow> sc_msg_queue sc | None \<Rightarrow> se_msg_queue se)"

definition set_emitter_queue :: "'d queue_message list \<Rightarrow> ('d, 'k) syncemitter \<Rightarrow> ('d, 'k) syncemitter" where
  "set_emitter_queue q se =
     (case se_sc se of Some sc \<Rightarrow> se\<lparr>se_sc := Some (sc\<lparr>sc_msg_queue := q\<rparr>)\<rparr> | None \<Rightarrow> se\<lparr>se_msg_queue := q\<rparr>)"

definition syncemitter_get_stepcompress :: "('d, 'k) syncemitter \<Rightarrow> 'd stepcompress option" where
  "syncemitter_get_stepcompress se = se_sc se"

definition syncemitter_set_stepper_kinematics :: "'k option \<Rightarrow> ('d, 'k) syncemitter \<Rightarrow> ('d, 'k) syncemitter" where
  "syncemitter_set_stepper_kinematics sk se = se\<lparr>se_sk := sk\<rparr>"

definition syncemitter_get_stepper_kinematics :: "('d, 'k) syncemitter \<Rightarrow> 'k option" where
  "syncemitter_get_stepper_kinematics se = se_sk se"

definition syncemitter_queue_msg :: "'d fops \<Rightarrow> u64 \<Rightarrow> u32 list \<Rightarrow> ('d, 'k) syncemitter \<Rightarrow> ('d, 'k) syncemitter option" where
  "syncemitter_queue_msg F req_clock data se =
     do {
       qm \<leftarrow> message_alloc_and_encode F data;
       let qm = qm\<lparr>qm_min_clock := req_clock, qm_req_clock := req_clock\<rparr>;
       Some (set_emitter_queue (emitter_queue se @ [qm]) se)
     }"

section \<open>Step generation\<close>

text \<open>
  \<open>gen\<close> is \<open>itersolve_generate_steps\<close>: it returns its status, the kinematics object and the compressor.
\<close>

type_synonym ('d, 'k) step_gen = "'k \<Rightarrow> 'd stepcompress \<Rightarrow> 'd \<Rightarrow> (int \<times> 'k \<times> 'd stepcompress) option"

definition se_generate_steps :: "'d fops \<Rightarrow> ('d, 'k) step_gen \<Rightarrow> ('d, 'k) syncemitter \<Rightarrow> (int \<times> ('d, 'k) syncemitter) option" where
  "se_generate_steps F gen se =
     (case (se_sc se, se_sk se) of
        (Some sc, Some sk) \<Rightarrow> do {
          (ret, sk, sc) \<leftarrow> gen sk sc (se_gen_steps_time se);
          let se = se\<lparr>se_sk := Some sk, se_sc := Some sc\<rparr>;
          if ret \<noteq> 0 then Some (ret, se)
          else do {
            (ret, sc) \<leftarrow> stepcompress_flush F (se_flush_clock se) sc;
            if ret \<noteq> 0 then Some (ret, se\<lparr>se_sc := Some sc\<rparr>)
            else Some (0, se\<lparr>se_sc := Some (stepcompress_history_expire (se_clear_history_clock se) sc)\<rparr>)
          }
        }
      | _ \<Rightarrow> Some (0, se))"

text \<open>
  One pass of \<open>se_background_thread\<close> with the lock held: it waits without work, leaves with the request to exit, and
  else generates the steps. The waits for the condition are the disabled steps.
\<close>

definition se_background_pass :: "'d fops \<Rightarrow> ('d, 'k) step_gen \<Rightarrow> ('d, 'k) syncemitter \<Rightarrow> ('d, 'k) syncemitter option" where
  "se_background_pass F gen se =
     (if se_have_work se \<le> 0 then Some se
      else do {
        (ret, se) \<leftarrow> se_generate_steps F gen se;
        Some (se\<lparr>se_result := ret, se_have_work := 0\<rparr>)
      })"

definition se_start_gen_steps :: "'d \<Rightarrow> u64 \<Rightarrow> u64 \<Rightarrow> ('d, 'k) syncemitter \<Rightarrow> ('d, 'k) syncemitter" where
  "se_start_gen_steps gen_steps_time flush_clock clear_history_clock se =
     (if se_sc se = None \<or> se_sk se = None then se
      else se\<lparr>se_gen_steps_time := gen_steps_time, se_flush_clock := flush_clock, se_clear_history_clock := clear_history_clock,
              se_have_work := 1\<rparr>)"

text \<open>The result once \<open>have_work\<close> is 0; \<^const>\<open>None\<close> while the caller waits.\<close>

definition se_finalize_gen_steps :: "('d, 'k) syncemitter \<Rightarrow> int option" where
  "se_finalize_gen_steps se =
     (if se_sc se = None \<or> se_sk se = None then Some 0 else if se_have_work se \<noteq> 0 then None else Some (se_result se))"

definition syncemitter_alloc :: "'d fops \<Rightarrow> string \<Rightarrow> int \<Rightarrow> ('d, 'k) syncemitter" where
  "syncemitter_alloc F name alloc_stepcompress =
     (let se = \<lparr>se_msg_queue = [], se_sc = None, se_sk = None, se_name = take 15 name, se_have_work = 0,
                se_gen_steps_time = f_int F 0, se_flush_clock = 0, se_clear_history_clock = 0, se_result = 0\<rparr>
      in if alloc_stepcompress = 0 then se else se\<lparr>se_sc := Some (stepcompress_alloc F [])\<rparr>)"

section \<open>The move queue of a micro-controller\<close>

record ('d, 'k) steppersync =
  ss_se_list :: "('d, 'k) syncemitter list"
  ss_ce :: "'d clock_estimate"
  ss_move_clocks :: "u64 list"

definition steppersync_alloc_syncemitter :: "'d fops \<Rightarrow> string \<Rightarrow> int \<Rightarrow> ('d, 'k) steppersync \<Rightarrow> ('d, 'k) steppersync" where
  "steppersync_alloc_syncemitter F name alloc_stepcompress ss =
     ss\<lparr>ss_se_list := ss_se_list ss @ [syncemitter_alloc F name alloc_stepcompress]\<rparr>"

definition steppersync_setup_movequeue :: "nat \<Rightarrow> ('d, 'k) steppersync \<Rightarrow> ('d, 'k) steppersync" where
  "steppersync_setup_movequeue move_num ss = ss\<lparr>ss_move_clocks := replicate move_num 0\<rparr>"

definition steppersync_set_time :: "'d fops \<Rightarrow> 'd \<Rightarrow> 'd \<Rightarrow> ('d, 'k) steppersync \<Rightarrow> ('d, 'k) steppersync" where
  "steppersync_set_time F time_offset mcu_freq ss =
     ss\<lparr>ss_ce := clock_fill mcu_freq time_offset 0 0,
        ss_se_list := map (\<lambda>se. se\<lparr>se_sc := map_option (stepcompress_set_time F time_offset mcu_freq) (se_sc se)\<rparr>) (ss_se_list ss)\<rparr>"

text \<open>
  The loop of \<open>heap_replace\<close> from position \<open>pos\<close>. A child outside the heap counts as \<open>UINT64_MAX\<close>; a store outside it
  is \<^const>\<open>None\<close>.
\<close>

definition heap_child :: "u64 list \<Rightarrow> nat \<Rightarrow> u64" where
  "heap_child mc p = (if p < length mc then mc ! p else - 1)"

function heap_sift :: "u64 list \<Rightarrow> nat \<Rightarrow> u64 \<Rightarrow> u64 list option" where
  "heap_sift mc pos req_clock =
     (if pos < length mc then
        let child1 = heap_child mc (2 * pos + 1); child2 = heap_child mc (2 * pos + 2) in
        if req_clock \<le> child1 \<and> req_clock \<le> child2 then Some (mc[pos := req_clock])
        else if child1 < child2 then heap_sift (mc[pos := child1]) (2 * pos + 1) req_clock
        else heap_sift (mc[pos := child2]) (2 * pos + 2) req_clock
      else None)"
  by pat_completeness auto
termination by (relation "measure (\<lambda>(mc, pos, _). length mc - pos)") auto

declare heap_sift.simps [simp del]

definition heap_replace :: "u64 \<Rightarrow> u64 list \<Rightarrow> u64 list option" where
  "heap_replace req_clock mc = heap_sift mc 0 req_clock"

text \<open>
  The search for the message with the lowest \<open>req_clock\<close>: the index of its emitter, if one is below \<open>MAX_CLOCK\<close>. An
  earlier emitter wins a tie.
\<close>

definition MAX_CLOCK :: u64 where "MAX_CLOCK = 0x7fffffffffffffff"

fun lowest_msg :: "('d, 'k) syncemitter list \<Rightarrow> nat \<Rightarrow> u64 \<Rightarrow> (nat \<times> 'd queue_message) option \<Rightarrow> (nat \<times> 'd queue_message) option" where
  "lowest_msg [] i req_clock best = best"
| "lowest_msg (se # ses) i req_clock best =
     (case emitter_queue se of
        [] \<Rightarrow> lowest_msg ses (i + 1) req_clock best
      | m # _ \<Rightarrow>
          if qm_req_clock m < req_clock then lowest_msg ses (i + 1) (qm_req_clock m) (Some (i, m))
          else lowest_msg ses (i + 1) req_clock best)"

definition pending :: "('d, 'k) syncemitter list \<Rightarrow> nat" where
  "pending ses = sum_list (map (\<lambda>se. length (emitter_queue se)) ses)"

text \<open>One round of the loop: \<open>Some None\<close> leaves it.\<close>

definition flush_one :: "u64 \<Rightarrow> ('d, 'k) syncemitter list \<Rightarrow> u64 list
    \<Rightarrow> (('d queue_message \<times> ('d, 'k) syncemitter list \<times> u64 list) option) option" where
  "flush_one move_clock ses mc =
     (case lowest_msg ses 0 MAX_CLOCK None of
        None \<Rightarrow> Some None
      | Some (i, qm) \<Rightarrow>
          if qm_min_clock qm \<noteq> 0 \<and> qm_req_clock qm > move_clock then Some None
          else do {
            next_avail \<leftarrow> rd mc 0;
            mc \<leftarrow> (if qm_min_clock qm \<noteq> 0 then heap_replace (qm_min_clock qm) mc else Some mc);
            Some (Some (qm\<lparr>qm_min_clock := next_avail\<rparr>, ses[i := set_emitter_queue (tl (emitter_queue (ses ! i))) (ses ! i)], mc))
          })"


lemma lowest_msg_Some:
  "lowest_msg ses i c best = Some (k, m) \<Longrightarrow>
     best = Some (k, m) \<or> (i \<le> k \<and> k < i + length ses \<and> qm_req_clock m < c \<and> (\<exists>q. emitter_queue (ses ! (k - i)) = m # q))"
proof (induction ses i c best rule: lowest_msg.induct)
  case (2 se ses i c best)
  show ?case
  proof (cases "emitter_queue se")
    case Nil
    then show ?thesis using 2 by (auto simp: nth_Cons' Suc_diff_le)
  next
    case (Cons m' q)
    show ?thesis
    proof (cases "qm_req_clock m' < c")
      case True
      then show ?thesis using 2 Cons by (auto simp: nth_Cons')
    next
      case False
      then show ?thesis using 2 Cons by (auto simp: nth_Cons')
    qed
  qed
qed simp

lemma emitter_queue_set [simp]: "emitter_queue (set_emitter_queue q se) = q"
  by (simp add: emitter_queue_def set_emitter_queue_def split: option.split)

lemma pending_take:
  assumes "i < length ses" "emitter_queue (ses ! i) = m # q"
  shows "pending (ses[i := set_emitter_queue q (ses ! i)]) < pending ses"
  using assms
proof (induction ses arbitrary: i)
  case (Cons se ses)
  then show ?case by (cases i) (auto simp: pending_def)
qed simp

lemma flush_one_pending:
  assumes "flush_one move_clock ses mc = Some (Some (qm, ses', mc'))"
  shows "pending ses' < pending ses"
proof -
  obtain i m where l: "lowest_msg ses 0 MAX_CLOCK None = Some (i, m)"
    using assms by (auto simp: flush_one_def split: option.splits)
  then obtain q where q: "i < length ses" "emitter_queue (ses ! i) = m # q" using lowest_msg_Some [OF l] by auto
  have "ses' = ses[i := set_emitter_queue q (ses ! i)]"
    using assms q(2) by (auto simp: flush_one_def l bind_eq_Some_conv split: if_splits)
  then show ?thesis using pending_take [OF q] by simp
qed

function flush_batch :: "u64 \<Rightarrow> ('d, 'k) syncemitter list \<Rightarrow> u64 list
    \<Rightarrow> ('d queue_message list \<times> ('d, 'k) syncemitter list \<times> u64 list) option" where
  "flush_batch move_clock ses mc =
     (case flush_one move_clock ses mc of
        None \<Rightarrow> None
      | Some None \<Rightarrow> Some ([], ses, mc)
      | Some (Some (qm, ses', mc')) \<Rightarrow>
          (case flush_batch move_clock ses' mc' of
             None \<Rightarrow> None
           | Some (msgs, ses'', mc'') \<Rightarrow> Some (qm # msgs, ses'', mc'')))"
  by pat_completeness auto
termination by (relation "measure (\<lambda>(c, ses, mc). pending ses)") (auto dest: flush_one_pending)

declare flush_batch.simps [simp del]

text \<open>The batch goes to \<open>serialqueue_send_batch\<close> when it is not empty.\<close>

definition steppersync_flush :: "u64 \<Rightarrow> ('d, 'k) steppersync \<Rightarrow> ('d queue_message list \<times> ('d, 'k) steppersync) option" where
  "steppersync_flush move_clock ss =
     do {
       (msgs, ses, mc) \<leftarrow> flush_batch move_clock (ss_se_list ss) (ss_move_clocks ss);
       Some (msgs, ss\<lparr>ss_se_list := ses, ss_move_clocks := mc\<rparr>)
     }"

section \<open>All micro-controllers\<close>

text \<open>The list of the \<open>steppersync\<close> objects is the whole state of \<open>steppersyncmgr\<close>.\<close>

definition steppersyncmgr_alloc :: "('d, 'k) steppersync list" where
  "steppersyncmgr_alloc = []"

definition steppersyncmgr_alloc_steppersync :: "'d fops \<Rightarrow> ('d, 'k) steppersync list \<Rightarrow> ('d, 'k) steppersync list" where
  "steppersyncmgr_alloc_steppersync F ssm =
     ssm @ [\<lparr>ss_se_list = [], ss_ce = clock_fill (f_int F 0) (f_int F 0) 0 0, ss_move_clocks = []\<rparr>]"

text \<open>\<open>check\<close> is \<open>trapq_check_sentinels\<close> of the queue of the kinematics object, if it has one.\<close>

definition prepare_trapqs :: "('k \<Rightarrow> 'k) \<Rightarrow> ('d, 'k) steppersync list \<Rightarrow> ('d, 'k) steppersync list" where
  "prepare_trapqs check =
     map (\<lambda>ss. ss\<lparr>ss_se_list := map (\<lambda>se. if se_sc se = None \<or> se_sk se = None then se else se\<lparr>se_sk := map_option check (se_sk se)\<rparr>)
       (ss_se_list ss)\<rparr>)"

definition start_all :: "'d fops \<Rightarrow> 'd \<Rightarrow> 'd \<Rightarrow> 'd \<Rightarrow> ('d, 'k) steppersync list \<Rightarrow> ('d, 'k) steppersync list" where
  "start_all F flush_time gen_steps_time clear_history_time =
     map (\<lambda>ss. ss\<lparr>ss_se_list := map (se_start_gen_steps gen_steps_time (clock_from_time F (ss_ce ss) flush_time)
       (clock_from_time F (ss_ce ss) clear_history_time)) (ss_se_list ss)\<rparr>)"

text \<open>The results of the emitters of one micro-controller; \<open>res\<close> is kept from the earlier ones.\<close>

fun finalize_all :: "int \<Rightarrow> ('d, 'k) syncemitter list \<Rightarrow> int option" where
  "finalize_all res [] = Some res"
| "finalize_all res (se # ses) =
     do { ret \<leftarrow> se_finalize_gen_steps se; finalize_all (if ret \<noteq> 0 then ret else res) ses }"

fun finish_all :: "'d fops \<Rightarrow> 'd \<Rightarrow> int \<Rightarrow> ('d, 'k) steppersync list
    \<Rightarrow> (int \<times> 'd queue_message list list \<times> ('d, 'k) steppersync list) option" where
  "finish_all F flush_time res [] = Some (res, [], [])"
| "finish_all F flush_time res (ss # sss) =
     do {
       res \<leftarrow> finalize_all res (ss_se_list ss);
       (msgs, ss) \<leftarrow> (if res \<noteq> 0 then Some ([], ss) else steppersync_flush (clock_from_time F (ss_ce ss) flush_time) ss);
       (res, batches, sss) \<leftarrow> finish_all F flush_time res sss;
       Some (res, msgs # batches, ss # sss)
     }"

text \<open>
  A pass of one background thread: emitter \<open>j\<close> of object \<open>i\<close>. Between the start and the wait of
  \<open>steppersyncmgr_gen_steps\<close> the threads run in any order.
\<close>

inductive thread_step :: "'d fops \<Rightarrow> ('d, 'k) step_gen \<Rightarrow> ('d, 'k) syncemitter list \<Rightarrow> ('d, 'k) syncemitter list \<Rightarrow> bool"
  for F gen where
  run: "j < length ses \<Longrightarrow> se_have_work (ses ! j) > 0 \<Longrightarrow> se_background_pass F gen (ses ! j) = Some se
    \<Longrightarrow> thread_step F gen ses (ses[j := se])"

fun run_all :: "'d fops \<Rightarrow> ('d, 'k) step_gen \<Rightarrow> ('d, 'k) syncemitter list \<Rightarrow> ('d, 'k) syncemitter list option" where
  "run_all F gen [] = Some []"
| "run_all F gen (se # ses) = do { se \<leftarrow> se_background_pass F gen se; ses \<leftarrow> run_all F gen ses; Some (se # ses) }"

fun run_threads :: "'d fops \<Rightarrow> ('d, 'k) step_gen \<Rightarrow> ('d, 'k) steppersync list \<Rightarrow> ('d, 'k) steppersync list option" where
  "run_threads F gen [] = Some []"
| "run_threads F gen (ss # sss) =
     do { ses \<leftarrow> run_all F gen (ss_se_list ss); sss \<leftarrow> run_threads F gen sss; Some (ss\<lparr>ss_se_list := ses\<rparr> # sss) }"

definition steppersyncmgr_gen_steps :: "'d fops \<Rightarrow> ('d, 'k) step_gen \<Rightarrow> ('k \<Rightarrow> 'k) \<Rightarrow> 'd \<Rightarrow> 'd \<Rightarrow> 'd \<Rightarrow> ('d, 'k) steppersync list
    \<Rightarrow> (int \<times> 'd queue_message list list \<times> ('d, 'k) steppersync list) option" where
  "steppersyncmgr_gen_steps F gen check flush_time gen_steps_time clear_history_time ssm =
     do {
       ssm \<leftarrow> run_threads F gen (start_all F flush_time gen_steps_time clear_history_time (prepare_trapqs check ssm));
       finish_all F flush_time 0 ssm
     }"

end
