(* ===== verification/Serialqueue.thy ===== *)
theory Serialqueue
  imports Pollreactor Steppersync
begin

text \<open>
  The serial port queue of the host, \<open>klippy/chelper/serialqueue.c\<close>: pending, sent and received messages of the link to a
  micro-controller, acknowledgement and retransmission, and the callbacks of its reactor. A command queue is known by a
  number. What \<open>read\<close>, \<open>write\<close> and \<open>get_monotonic\<close> return are arguments; the bytes handed to \<open>write\<close>, the calls of fast
  readers and the bytes in the wake-up pipe are part of the state. \<^const>\<open>None\<close> is an access outside a buffer or through
  a null pointer. The locks make the functions below atomic.
\<close>

section \<open>State\<close>

record 'd serialqueue =
  sq_pr :: "'d pollreactor"
  sq_serial_fd_type :: char
  sq_client_id :: int
  sq_input_buf :: "u8 list"
  sq_need_sync :: u8
  sq_waiting :: bool
  sq_receive_queue :: "'d queue_message list"
  sq_old_receive :: "'d queue_message list"
  sq_pipe :: nat
  sq_upcoming_queues :: "nat list"
  sq_upcoming_bytes :: int
  sq_need_kick_clock :: u64
  sq_min_release_clock :: u64
  sq_receive_window :: int
  sq_bittime_adjust :: 'd
  sq_idle_time :: 'd
  sq_ce :: "'d clock_estimate"
  sq_last_receive_sent_time :: 'd
  sq_send_seq :: u64
  sq_receive_seq :: u64
  sq_ignore_nak_seq :: u64
  sq_last_ack_seq :: u64
  sq_retransmit_seq :: u64
  sq_rtt_sample_seq :: u64
  sq_sent_queue :: "'d queue_message list"
  sq_srtt :: 'd
  sq_rttvar :: 'd
  sq_rto :: 'd
  sq_ready_queues :: "nat list"
  sq_ready_bytes :: int
  sq_need_ack_bytes :: int
  sq_last_ack_bytes :: int
  sq_notify_queue :: "'d queue_message list"
  sq_last_write_fail_time :: 'd
  sq_fast_readers :: "(nat \<times> u8 list) list"
  sq_old_sent :: "'d queue_message list"
  sq_bytes_write :: u32
  sq_bytes_read :: u32
  sq_bytes_retransmit :: u32
  sq_bytes_invalid :: u32
  cq_ready :: "nat \<Rightarrow> 'd queue_message list"
  cq_upcoming :: "nat \<Rightarrow> 'd queue_message list"
  sq_output :: "u8 list list"
  sq_fast_calls :: "(nat \<times> u8 list) list"

definition SQPT_RETRANSMIT :: nat where "SQPT_RETRANSMIT = 0"
definition SQPT_COMMAND :: nat where "SQPT_COMMAND = 1"
definition SQT_UART :: char where "SQT_UART = CHR ''u''"
definition SQT_CAN :: char where "SQT_CAN = CHR ''c''"
definition SQT_DEBUGFILE :: char where "SQT_DEBUGFILE = CHR ''f''"
definition MIN_RTO :: "'d fops \<Rightarrow> 'd" where "MIN_RTO F = f_frac F 25 1000"
definition MAX_RTO :: "'d fops \<Rightarrow> 'd" where "MAX_RTO F = f_int F 5"
definition MAX_PENDING_BLOCKS :: nat where "MAX_PENDING_BLOCKS = 12"
definition MIN_REQTIME_DELTA :: "'d fops \<Rightarrow> 'd" where "MIN_REQTIME_DELTA F = f_frac F 1 10"
definition MIN_BACKGROUND_DELTA :: "'d fops \<Rightarrow> 'd" where "MIN_BACKGROUND_DELTA F = f_frac F 5 1000"
definition BACKGROUND_PRIORITY_CLOCK :: u64 where "BACKGROUND_PRIORITY_CLOCK = 0x7fffffff00000000"
definition DEBUG_QUEUE_SENT :: nat where "DEBUG_QUEUE_SENT = 100"
definition DEBUG_QUEUE_RECEIVE :: nat where "DEBUG_QUEUE_RECEIVE = 100"

definition update_timer :: "'d fops \<Rightarrow> nat \<Rightarrow> 'd \<Rightarrow> 'd serialqueue \<Rightarrow> 'd serialqueue" where
  "update_timer F pos wake sq = sq\<lparr>sq_pr := pollreactor_update_timer F pos wake (sq_pr sq)\<rparr>"

section \<open>Helpers\<close>

definition debug_queue_alloc :: "'d fops \<Rightarrow> nat \<Rightarrow> 'd queue_message list" where
  "debug_queue_alloc F count = replicate count (message_alloc F)"

definition debug_queue_add :: "'d queue_message \<Rightarrow> 'd queue_message list \<Rightarrow> 'd queue_message list" where
  "debug_queue_add qm root = tl (root @ [qm])"

definition receive_append_wake :: "'d queue_message list \<Rightarrow> 'd serialqueue \<Rightarrow> 'd serialqueue" where
  "receive_append_wake msgs sq = sq\<lparr>sq_receive_queue := sq_receive_queue sq @ msgs, sq_waiting := False\<rparr>"

definition kick_bg_thread :: "'d serialqueue \<Rightarrow> 'd serialqueue" where
  "kick_bg_thread sq = sq\<lparr>sq_pipe := sq_pipe sq + 1\<rparr>"

definition CANBUS_PACKET_BITS :: u32 where "CANBUS_PACKET_BITS = (1 + 11 + 3 + 4) + (16 + 2 + 7 + 3)"
definition CANBUS_IFS_BITS :: u32 where "CANBUS_IFS_BITS = 4"

definition calculate_bittime :: "'d fops \<Rightarrow> 'd serialqueue \<Rightarrow> u32 \<Rightarrow> 'd" where
  "calculate_bittime F sq bytes =
     (if sq_serial_fd_type sq = SQT_CAN then
        let pkts = (bytes + 7) div 8; bits = bytes * 8 + pkts * CANBUS_PACKET_BITS - CANBUS_IFS_BITS
        in f_mul F (sq_bittime_adjust sq) (f_int F (uint bits))
      else f_mul F (sq_bittime_adjust sq) (f_int F (uint bytes)))"

section \<open>Acknowledgements\<close>

text \<open>The loop of \<open>update_receive_seq\<close> over the sent queue.\<close>

fun ack_sent :: "'d fops \<Rightarrow> u64 \<Rightarrow> u64 \<Rightarrow> 'd queue_message list \<Rightarrow> 'd serialqueue \<Rightarrow> 'd serialqueue" where
  "ack_sent F rseq sent_seq [] sq = sq\<lparr>sq_sent_queue := [], sq_send_seq := rseq, sq_last_receive_sent_time := f_int F 0\<rparr>"
| "ack_sent F rseq sent_seq (sentm # rest) sq =
     (let sq = sq\<lparr>sq_need_ack_bytes := sq_need_ack_bytes sq - int (qm_len sentm), sq_sent_queue := rest,
                  sq_old_sent := debug_queue_add sentm (sq_old_sent sq)\<rparr>
      in if rseq = sent_seq + 1 then sq\<lparr>sq_last_receive_sent_time := qm_receive_time sentm, sq_last_ack_bytes := int (qm_len sentm)\<rparr>
         else ack_sent F rseq (sent_seq + 1) rest sq)"

text \<open>The round trip estimate.\<close>

definition update_rto :: "'d fops \<Rightarrow> 'd \<Rightarrow> 'd serialqueue \<Rightarrow> 'd serialqueue" where
  "update_rto F eventtime sq =
     (let delta = f_sub F eventtime (sq_last_receive_sent_time sq);
          first = f_eq F (sq_srtt sq) (f_int F 0);
          rttvar = (if first then f_div F delta (f_int F 2)
                    else f_div F (f_add F (f_mul F (f_int F 3) (sq_rttvar sq)) (f_abs F (f_sub F (sq_srtt sq) delta))) (f_int F 4));
          srtt = (if first then f_mul F delta (f_int F 10)
                  else f_div F (f_add F (f_mul F (f_int F 7) (sq_srtt sq)) delta) (f_int F 8));
          rttvar4 = f_mul F rttvar (f_int F 4);
          rttvar4 = (if f_less F rttvar4 (f_frac F 1 1000) then f_frac F 1 1000 else rttvar4);
          rto = f_add F srtt rttvar4;
          rto = (if f_less F rto (MIN_RTO F) then MIN_RTO F else if f_less F (MAX_RTO F) rto then MAX_RTO F else rto)
      in sq\<lparr>sq_rttvar := rttvar, sq_srtt := srtt, sq_rto := rto, sq_rtt_sample_seq := 0\<rparr>)"

definition update_receive_seq :: "'d fops \<Rightarrow> 'd \<Rightarrow> u64 \<Rightarrow> 'd serialqueue \<Rightarrow> 'd serialqueue" where
  "update_receive_seq F eventtime rseq sq =
     (let sq = ack_sent F rseq (sq_receive_seq sq) (sq_sent_queue sq) sq;
          sq = update_timer F SQPT_COMMAND (PR_NOW F) (sq\<lparr>sq_receive_seq := rseq\<rparr>);
          sq = (if sq_rtt_sample_seq sq \<noteq> 0 \<and> rseq > sq_rtt_sample_seq sq \<and> \<not> f_eq F (sq_last_receive_sent_time sq) (f_int F 0)
                then update_rto F eventtime sq else sq)
      in case sq_sent_queue sq of
           [] \<Rightarrow> update_timer F SQPT_RETRANSMIT (PR_NEVER F) sq
         | sentm # _ \<Rightarrow>
             update_timer F SQPT_RETRANSMIT
               (f_add F (f_add F eventtime (sq_rto sq)) (calculate_bittime F sq (of_nat (qm_len sentm)))) sq)"

text \<open>The messages that wait for the acknowledgement of a block up to \<open>wake_seq\<close>.\<close>

definition notify_received :: "'d \<Rightarrow> u64 \<Rightarrow> 'd serialqueue \<Rightarrow> 'd queue_message list \<times> 'd serialqueue" where
  "notify_received eventtime wake_seq sq =
     (let is_done = (\<lambda>qm. qm_req_clock qm \<le> wake_seq) in
      (map (\<lambda>qm. qm\<lparr>qm_len := 0, qm_sent_time := sq_last_receive_sent_time sq, qm_receive_time := eventtime\<rparr>)
         (takeWhile is_done (sq_notify_queue sq)),
       sq\<lparr>sq_notify_queue := dropWhile is_done (sq_notify_queue sq)\<rparr>))"

definition fast_reader_matches :: "u8 list \<Rightarrow> nat \<Rightarrow> nat \<times> u8 list \<Rightarrow> bool" where
  "fast_reader_matches buf len fr \<longleftrightarrow>
     \<not> len < length (snd fr) + MESSAGE_MIN \<and> take (length (snd fr)) (drop MESSAGE_HEADER_SIZE buf) = snd fr"

text \<open>A block of zero payload bytes is an ack, or a nak when it repeats a number; any other is a message of the micro-controller.\<close>

definition handle_ack :: "'d fops \<Rightarrow> u64 \<Rightarrow> 'd serialqueue \<Rightarrow> 'd serialqueue" where
  "handle_ack F rseq sq =
     (if sq_last_ack_seq sq < rseq then sq\<lparr>sq_last_ack_seq := rseq\<rparr>
      else if rseq > sq_ignore_nak_seq sq \<and> sq_sent_queue sq \<noteq> [] then update_timer F SQPT_RETRANSMIT (PR_NOW F) sq
      else sq)"

definition message_data :: "'d fops \<Rightarrow> 'd \<Rightarrow> nat \<Rightarrow> u64 \<Rightarrow> 'd serialqueue \<Rightarrow> 'd queue_message option" where
  "message_data F now len rseq sq =
     do {
       qm \<leftarrow> message_fill F (sq_input_buf sq) len;
       Some (qm\<lparr>qm_sent_time := (if rseq > sq_retransmit_seq sq then sq_last_receive_sent_time sq else f_int F 0),
                qm_receive_time := f_sub F now (calculate_bittime F sq (of_nat len))\<rparr>)
     }"

definition call_fastreader :: "nat \<Rightarrow> 'd serialqueue \<Rightarrow> 'd serialqueue" where
  "call_fastreader len sq =
     (case find (fast_reader_matches (sq_input_buf sq) len) (sq_fast_readers sq) of
        None \<Rightarrow> sq
      | Some fr \<Rightarrow> sq\<lparr>sq_fast_calls := sq_fast_calls sq @ [(fst fr, take len (sq_input_buf sq))]\<rparr>)"

text \<open>\<open>now\<close> is the time after the read.\<close>

definition handle_message :: "'d fops \<Rightarrow> 'd \<Rightarrow> 'd \<Rightarrow> nat \<Rightarrow> 'd serialqueue \<Rightarrow> 'd serialqueue option" where
  "handle_message F eventtime now len sq =
     do {
       seq \<leftarrow> rd (sq_input_buf sq) MESSAGE_POS_SEQ;
       let rseq = sq_receive_seq sq + ((ucast seq - sq_receive_seq sq) AND ucast MESSAGE_SEQ_MASK);
       if rseq \<noteq> sq_receive_seq sq \<and> rseq > sq_send_seq sq \<and> sq_receive_seq sq \<noteq> 1
       then Some (sq\<lparr>sq_bytes_invalid := sq_bytes_invalid sq + of_nat len\<rparr>)
       else do {
         let sq = (if rseq \<noteq> sq_receive_seq sq then update_receive_seq F eventtime rseq sq else sq);
         let sq = sq\<lparr>sq_bytes_read := sq_bytes_read sq + of_nat len\<rparr>;
         let (received, sq) = notify_received eventtime (rseq - 1 - (if len > MESSAGE_MIN then 1 else 0)) sq;
         let sq = (if len = MESSAGE_MIN then handle_ack F rseq sq else sq);
         data \<leftarrow> (if len = MESSAGE_MIN then Some [] else map_option (\<lambda>qm. [qm]) (message_data F now len rseq sq));
         let received = received @ data;
         Some (call_fastreader len (if received \<noteq> [] then receive_append_wake received sq else sq))
       }
     }"

section \<open>Input\<close>

lemma msgblock_check_nonempty: "msgblock_check ns buf n = Some (len, ns') \<Longrightarrow> len \<noteq> 0 \<Longrightarrow> n \<noteq> 0"
  by (auto simp: msgblock_check_def split: if_splits)

function input_loop :: "'d fops \<Rightarrow> 'd \<Rightarrow> 'd \<Rightarrow> 'd serialqueue \<Rightarrow> 'd serialqueue option" where
  "input_loop F eventtime now sq =
     (case msgblock_check (sq_need_sync sq) (sq_input_buf sq) (length (sq_input_buf sq)) of
        None \<Rightarrow> None
      | Some (len, need_sync) \<Rightarrow>
          let sq' = sq\<lparr>sq_need_sync := need_sync\<rparr> in
          if len = 0 then Some sq'
          else
            (case (if len > 0 then handle_message F eventtime now (nat len) sq'
                   else Some (sq'\<lparr>sq_bytes_invalid := sq_bytes_invalid sq' + word_of_int (- len)\<rparr>)) of
               None \<Rightarrow> None
             | Some sq'' \<Rightarrow> input_loop F eventtime now (sq''\<lparr>sq_input_buf := drop (nat \<bar>len\<bar>) (sq_input_buf sq)\<rparr>)))"
  by pat_completeness auto
termination
  by (relation "measure (\<lambda>(F, e, n, sq). length (sq_input_buf sq))") (auto intro!: diff_less dest: msgblock_check_nonempty)

declare input_loop.simps [simp del]

text \<open>
  The callback for the serial port: \<open>data\<close> is what \<open>read\<close> returned, \<^const>\<open>None\<close> for an error or the end of the file. On a
  CAN bus it is one frame with its id.
\<close>

definition input_event :: "'d fops \<Rightarrow> 'd \<Rightarrow> 'd \<Rightarrow> (int \<times> u8 list) option \<Rightarrow> 'd serialqueue \<Rightarrow> 'd serialqueue option" where
  "input_event F eventtime now data sq =
     (case data of
        None \<Rightarrow> Some (sq\<lparr>sq_pr := pollreactor_do_exit (sq_pr sq)\<rparr>)
      | Some (can_id, bytes) \<Rightarrow>
          if sq_serial_fd_type sq = SQT_CAN \<and> can_id \<noteq> sq_client_id sq + 1 then Some sq
          else if length (sq_input_buf sq) + length bytes > 4096 then None
          else input_loop F eventtime now (sq\<lparr>sq_input_buf := sq_input_buf sq @ bytes\<rparr>))"

definition kick_event :: "'d fops \<Rightarrow> 'd serialqueue \<Rightarrow> 'd serialqueue" where
  "kick_event F sq = update_timer F SQPT_COMMAND (PR_NOW F) (sq\<lparr>sq_pipe := sq_pipe sq - 4096\<rparr>)"

section \<open>Output\<close>

text \<open>
  \<open>wr n\<close> is the result of the write after \<open>n\<close> writes that succeeded, \<open>now\<close> the time after a write that failed.
\<close>

function can_write :: "'d fops \<Rightarrow> (nat \<Rightarrow> int) \<Rightarrow> 'd \<Rightarrow> u8 list \<Rightarrow> 'd serialqueue \<Rightarrow> 'd serialqueue" where
  "can_write F wr now buf sq =
     (if buf = [] then sq
      else if wr (length (sq_output sq)) < 0 then
        if f_eq F (sq_last_write_fail_time sq) (f_int F 0) then sq\<lparr>sq_last_write_fail_time := now\<rparr>
        else if f_less F (f_add F (sq_last_write_fail_time sq) (f_int F 10)) now then sq\<lparr>sq_pr := pollreactor_do_exit (sq_pr sq)\<rparr>
        else sq
      else can_write F wr now (drop 8 buf) (sq\<lparr>sq_output := sq_output sq @ [take 8 buf], sq_last_write_fail_time := f_int F 0\<rparr>))"
  by pat_completeness auto
termination by (relation "measure (\<lambda>(F, wr, now, buf, sq). length buf)") auto

declare can_write.simps [simp del]

definition do_write :: "'d fops \<Rightarrow> (nat \<Rightarrow> int) \<Rightarrow> 'd \<Rightarrow> u8 list \<Rightarrow> 'd serialqueue \<Rightarrow> 'd serialqueue" where
  "do_write F wr now buf sq =
     (if sq_serial_fd_type sq \<noteq> SQT_CAN then
        if wr (length (sq_output sq)) < 0 then sq else sq\<lparr>sq_output := sq_output sq @ [buf]\<rparr>
      else can_write F wr now buf sq)"

text \<open>The bytes of a message; \<^const>\<open>None\<close> for a length above that of its storage.\<close>

definition qm_bytes :: "'d queue_message \<Rightarrow> u8 list option" where
  "qm_bytes qm = (if qm_len qm \<le> length (qm_msg qm) then Some (take (qm_len qm) (qm_msg qm)) else None)"

text \<open>The copy of the sent blocks into \<open>buf\<close>, whose size is \<open>MESSAGE_MAX * MAX_PENDING_BLOCKS + 1\<close>.\<close>

fun copy_sent :: "'d queue_message list \<Rightarrow> u8 list \<Rightarrow> u8 list option" where
  "copy_sent [] buf = Some buf"
| "copy_sent (qm # qms) buf =
     do {
       bs \<leftarrow> qm_bytes qm;
       if length buf + length bs > MESSAGE_MAX * MAX_PENDING_BLOCKS + 1 then None else copy_sent qms (buf @ bs)
     }"

text \<open>The result is the next time of the timer. The flush of the output of the port has no effect on the state.\<close>

definition retransmit_event :: "'d fops \<Rightarrow> (nat \<Rightarrow> int) \<Rightarrow> 'd \<Rightarrow> 'd \<Rightarrow> 'd serialqueue \<Rightarrow> ('d \<times> 'd serialqueue) option" where
  "retransmit_event F wr now eventtime sq =
     do {
       buf \<leftarrow> copy_sent (sq_sent_queue sq) [MESSAGE_SYNC];
       let first_buflen = (case sq_sent_queue sq of [] \<Rightarrow> 0 | qm # _ \<Rightarrow> qm_len qm + 1);
       let sq = do_write F wr now buf sq;
       let sq = sq\<lparr>sq_bytes_retransmit := sq_bytes_retransmit sq + of_nat (length buf)\<rparr>;
       let sq = (if f_eq F (pollreactor_get_timer SQPT_RETRANSMIT (sq_pr sq)) (PR_NOW F) then
                   sq\<lparr>sq_ignore_nak_seq := (if sq_receive_seq sq < sq_retransmit_seq sq then sq_retransmit_seq sq else sq_receive_seq sq)\<rparr>
                 else
                   let rto = f_mul F (sq_rto sq) (f_int F 2); rto = (if f_less F (MAX_RTO F) rto then MAX_RTO F else rto)
                   in sq\<lparr>sq_rto := rto, sq_ignore_nak_seq := sq_send_seq sq\<rparr>);
       let sq = sq\<lparr>sq_retransmit_seq := sq_send_seq sq, sq_rtt_sample_seq := 0,
                   sq_idle_time := f_add F eventtime (calculate_bittime F sq (of_nat (length buf)))\<rparr>;
       Some (f_add F (f_add F eventtime (sq_rto sq)) (calculate_bittime F sq (of_nat first_buflen)), sq)
     }"

section \<open>Sending\<close>

text \<open>The search for the ready message with the lowest \<open>req_clock\<close>; a queue in the list without a message is \<^const>\<open>None\<close>.\<close>

fun lowest_ready :: "(nat \<Rightarrow> 'd queue_message list) \<Rightarrow> nat list \<Rightarrow> u64 \<Rightarrow> (nat \<times> 'd queue_message) option
    \<Rightarrow> (nat \<times> 'd queue_message) option option" where
  "lowest_ready ready [] min_clock best = Some best"
| "lowest_ready ready (q # qs) min_clock best =
     (case ready q of
        [] \<Rightarrow> None
      | m # _ \<Rightarrow>
          if qm_req_clock m < min_clock then lowest_ready ready qs (qm_req_clock m) (Some (q, m))
          else lowest_ready ready qs min_clock best)"

definition ready_count :: "'d serialqueue \<Rightarrow> nat" where
  "ready_count sq = sum_list (map (\<lambda>q. length (cq_ready sq q)) (sq_ready_queues sq))"

text \<open>Take the first message of a ready queue into the block.\<close>

definition take_ready :: "nat \<Rightarrow> 'd queue_message \<Rightarrow> 'd serialqueue \<Rightarrow> 'd serialqueue" where
  "take_ready cq qm sq =
     (let rest = tl (cq_ready sq cq);
          sq = sq\<lparr>cq_ready := (cq_ready sq)(cq := rest), sq_ready_queues := (if rest = [] then remove1 cq (sq_ready_queues sq) else sq_ready_queues sq),
                  sq_ready_bytes := sq_ready_bytes sq - int (qm_len qm)\<rparr>
      in if qm_notify_id qm \<noteq> 0 then sq\<lparr>sq_notify_queue := sq_notify_queue sq @ [qm\<lparr>qm_req_clock := sq_send_seq sq\<rparr>]\<rparr> else sq)"

lemma lowest_ready_Some:
  "lowest_ready ready qs c best = Some (Some (q, m)) \<Longrightarrow> best = Some (q, m) \<or> (q \<in> set qs \<and> qm_req_clock m < c \<and> (\<exists>ms. ready q = m # ms))"
proof (induction qs arbitrary: c best)
  case (Cons p qs)
  then show ?case by (cases "ready p") (fastforce split: if_splits)+
qed simp

lemma sum_list_remove1: "q \<in> set qs \<Longrightarrow> f q = (0 :: nat) \<Longrightarrow> sum_list (map f (remove1 q qs)) = sum_list (map f qs)"
  by (induction qs) auto

lemma sum_list_smaller: "q \<in> set qs \<Longrightarrow> f' q < f q \<Longrightarrow> (\<And>p. f' p \<le> f p) \<Longrightarrow> sum_list (map f' qs) < (sum_list (map f qs) :: nat)"
proof (induction qs)
  case (Cons p qs)
  have "sum_list (map f' qs) \<le> sum_list (map f qs)" using Cons.prems(3) by (simp add: sum_list_mono)
  then show ?case using Cons by (cases "q \<in> set qs") (auto intro: add_less_le_mono add_le_less_mono)
qed simp

lemma take_ready_count:
  assumes "q \<in> set (sq_ready_queues sq)" "cq_ready sq q = m # ms"
  shows "ready_count (take_ready q m sq) < ready_count sq"
proof -
  let ?f = "\<lambda>p. length (if p = q then ms else cq_ready sq p)"
  have "ready_count (take_ready q m sq) = sum_list (map ?f (if ms = [] then remove1 q (sq_ready_queues sq) else sq_ready_queues sq))"
    using assms(2) by (simp add: ready_count_def take_ready_def Let_def fun_upd_def)
  also have "\<dots> = sum_list (map ?f (sq_ready_queues sq))" using assms(1) by (simp add: sum_list_remove1)
  also have "\<dots> < ready_count sq" unfolding ready_count_def using assms by (intro sum_list_smaller [of q]) auto
  finally show ?thesis .
qed

text \<open>The loop of \<open>build_and_send_command\<close>; \<open>payload\<close> are the bytes behind the header.\<close>

function build_payload :: "u8 list \<Rightarrow> 'd serialqueue \<Rightarrow> (u8 list \<times> 'd serialqueue) option" where
  "build_payload payload sq =
     (if sq_ready_bytes sq = 0 then Some (payload, sq)
      else case lowest_ready (cq_ready sq) (sq_ready_queues sq) MAX_CLOCK None of
        None \<Rightarrow> None
      | Some None \<Rightarrow> None
      | Some (Some (cq, qm)) \<Rightarrow>
          if MESSAGE_HEADER_SIZE + length payload + qm_len qm > MESSAGE_MAX - MESSAGE_TRAILER_SIZE then Some (payload, sq)
          else case qm_bytes qm of None \<Rightarrow> None | Some bs \<Rightarrow> build_payload (payload @ bs) (take_ready cq qm sq))"
  by pat_completeness auto
termination
  by (relation "measure (\<lambda>(p, sq). ready_count sq)") (auto dest!: lowest_ready_Some intro: take_ready_count)

declare build_payload.simps [simp del]

text \<open>The block goes to the sent queue.\<close>

definition store_block :: "'d fops \<Rightarrow> 'd \<Rightarrow> 'd queue_message \<Rightarrow> 'd serialqueue \<Rightarrow> 'd serialqueue" where
  "store_block F idletime out sq =
     (let sq = (if sq_sent_queue sq = [] then update_timer F SQPT_RETRANSMIT (f_add F idletime (sq_rto sq)) sq else sq);
          sq = (if sq_rtt_sample_seq sq = 0 then sq\<lparr>sq_rtt_sample_seq := sq_send_seq sq\<rparr> else sq)
      in sq\<lparr>sq_send_seq := sq_send_seq sq + 1, sq_need_ack_bytes := sq_need_ack_bytes sq + int (qm_len out),
            sq_sent_queue := sq_sent_queue sq @ [out]\<rparr>)"

text \<open>The result is the finished block.\<close>

definition build_and_send_command :: "'d fops \<Rightarrow> nat \<Rightarrow> 'd \<Rightarrow> 'd serialqueue \<Rightarrow> (u8 list \<times> 'd serialqueue) option" where
  "build_and_send_command F npending eventtime sq =
     do {
       (payload, sq) \<leftarrow> build_payload [] sq;
       let len = MESSAGE_HEADER_SIZE + length payload + MESSAGE_TRAILER_SIZE;
       let head = [of_nat len, MESSAGE_DEST OR (ucast (sq_send_seq sq) AND MESSAGE_SEQ_MASK)] @ payload;
       crc \<leftarrow> msgblock_crc16_ccitt head (of_nat (len - MESSAGE_TRAILER_SIZE));
       let buf = head @ [ucast (drop_bit 8 crc), ucast (crc AND 0xff), MESSAGE_SYNC];
       let idletime = f_add F (if f_less F (sq_idle_time sq) eventtime then eventtime else sq_idle_time sq)
                        (calculate_bittime F sq (of_nat (npending + len)));
       out \<leftarrow> message_fill F buf len;
       Some (buf, store_block F idletime (out\<lparr>qm_sent_time := eventtime, qm_receive_time := idletime\<rparr>) sq)
     }"

text \<open>
  One queue in the loop of \<open>check_upcoming_queues\<close>: its messages up to the first that is not due become ready. The result
  is whether it keeps messages, with the lowest clock of a message that is not due.
\<close>

definition release_queue :: "u64 \<Rightarrow> nat \<Rightarrow> u64 \<Rightarrow> 'd serialqueue \<Rightarrow> bool \<times> u64 \<times> 'd serialqueue" where
  "release_queue ack_clock cq min_stalled_clock sq =
     (let moved = takeWhile (\<lambda>qm. \<not> ack_clock < qm_min_clock qm) (cq_upcoming sq cq);
          rest = dropWhile (\<lambda>qm. \<not> ack_clock < qm_min_clock qm) (cq_upcoming sq cq);
          stalled = (case rest of [] \<Rightarrow> min_stalled_clock
                     | qm # _ \<Rightarrow> if qm_min_clock qm < min_stalled_clock then qm_min_clock qm else min_stalled_clock);
          bytes = int (sum_list (map qm_len moved));
          ready = cq_ready sq cq @ moved;
          ready_queues = (if cq_ready sq cq = [] \<and> ready \<noteq> [] then sq_ready_queues sq @ [cq] else sq_ready_queues sq)
      in (rest \<noteq> [], stalled,
          sq\<lparr>cq_upcoming := (cq_upcoming sq)(cq := rest), cq_ready := (cq_ready sq)(cq := ready), sq_ready_queues := ready_queues,
             sq_upcoming_bytes := sq_upcoming_bytes sq - bytes, sq_ready_bytes := sq_ready_bytes sq + bytes\<rparr>))"

fun release_queues :: "u64 \<Rightarrow> nat list \<Rightarrow> u64 \<Rightarrow> 'd serialqueue \<Rightarrow> nat list \<times> u64 \<times> 'd serialqueue" where
  "release_queues ack_clock [] min_stalled_clock sq = ([], min_stalled_clock, sq)"
| "release_queues ack_clock (cq # cqs) min_stalled_clock sq =
     (let (keep, stalled, sq) = release_queue ack_clock cq min_stalled_clock sq;
          (kept, stalled, sq) = release_queues ack_clock cqs stalled sq
      in (if keep then cq # kept else kept, stalled, sq))"

definition check_upcoming_queues :: "u64 \<Rightarrow> 'd serialqueue \<Rightarrow> u64 \<times> 'd serialqueue" where
  "check_upcoming_queues ack_clock sq =
     (let sq = sq\<lparr>sq_need_kick_clock := 0\<rparr> in
      if ack_clock < sq_min_release_clock sq then (sq_min_release_clock sq, sq)
      else
        let (kept, stalled, sq) = release_queues ack_clock (sq_upcoming_queues sq) MAX_CLOCK sq
        in (stalled, sq\<lparr>sq_upcoming_queues := kept, sq_min_release_clock := stalled\<rparr>))"

definition update_need_kick_clock :: "u64 \<Rightarrow> 'd serialqueue \<Rightarrow> bool \<times> 'd serialqueue" where
  "update_need_kick_clock wantclock sq =
     (if wantclock > sq_min_release_clock sq then (True, sq) else (False, sq\<lparr>sq_need_kick_clock := wantclock\<rparr>))"

text \<open>The lowest clock of the ready messages; background messages are due after the line has been idle.\<close>

fun min_ready_clock :: "'d fops \<Rightarrow> 'd \<Rightarrow> 'd serialqueue \<Rightarrow> nat list \<Rightarrow> u64 \<Rightarrow> u64 option" where
  "min_ready_clock F bgtime sq [] clock = Some clock"
| "min_ready_clock F bgtime sq (cq # cqs) clock =
     (case cq_ready sq cq of
        [] \<Rightarrow> None
      | qm # _ \<Rightarrow>
          let req_clock = (if qm_req_clock qm = BACKGROUND_PRIORITY_CLOCK
                           then clock_from_time F (sq_ce sq) (f_add F bgtime (f_add F (MIN_REQTIME_DELTA F) (MIN_BACKGROUND_DELTA F)))
                           else qm_req_clock qm)
          in min_ready_clock F bgtime sq cqs (if req_clock < clock then req_clock else clock))"

text \<open>The window of unacknowledged blocks and bytes.\<close>

definition must_wait_ack :: "'d serialqueue \<Rightarrow> bool" where
  "must_wait_ack sq \<longleftrightarrow>
     (sq_send_seq sq - sq_receive_seq sq \<ge> of_nat MAX_PENDING_BLOCKS \<and> sq_receive_seq sq \<noteq> - 1)
     \<or> (sq_send_seq sq > sq_receive_seq sq \<and> sq_receive_window sq \<noteq> 0
        \<and> sq_need_ack_bytes sq + int MESSAGE_MAX + (if sq_last_ack_seq sq < sq_receive_seq sq then sq_last_ack_bytes sq else 0)
            > sq_receive_window sq)"

text \<open>The clock at which the thread wants to wake up; the time of it unless a new command was added meanwhile.\<close>

definition sleep_until :: "'d fops \<Rightarrow> 'd \<Rightarrow> 'd \<Rightarrow> u64 \<Rightarrow> u64 \<Rightarrow> 'd serialqueue \<Rightarrow> 'd \<times> 'd serialqueue" where
  "sleep_until F eventtime idletime ack_clock wantclock sq =
     (let (mustwake, sq) = update_need_kick_clock wantclock sq
      in (if mustwake then eventtime
          else f_add F idletime (f_div F (f_int F (uint (wantclock - ack_clock))) (ce_est_freq (sq_ce sq))), sq))"

text \<open>Whether a block is to be sent now, when the window allows it.\<close>

definition check_ready :: "'d fops \<Rightarrow> nat \<Rightarrow> 'd \<Rightarrow> 'd \<Rightarrow> u64 \<Rightarrow> u64 \<Rightarrow> 'd serialqueue \<Rightarrow> ('d \<times> 'd serialqueue) option" where
  "check_ready F npending eventtime idletime ack_clock min_stalled_clock sq =
     (if sq_ready_bytes sq \<ge> int MESSAGE_PAYLOAD_MAX then Some (PR_NOW F, sq)
      else if f_eq F (ce_est_freq (sq_ce sq)) (f_int F 0) then
        if sq_ready_bytes sq \<noteq> 0 then Some (PR_NOW F, sq)
        else Some (let (mustwake, sq) = update_need_kick_clock 1 sq in (if mustwake then eventtime else PR_NEVER F, sq))
      else
        case min_ready_clock F (if npending \<noteq> 0 then idletime else sq_idle_time sq) sq (sq_ready_queues sq) MAX_CLOCK of
          None \<Rightarrow> None
        | Some min_ready \<Rightarrow>
            let reqclock_delta = word_of_int (f_trunc F (f_mul F (MIN_REQTIME_DELTA F) (ce_est_freq (sq_ce sq)))) in
            if min_ready \<le> ack_clock + reqclock_delta then Some (PR_NOW F, sq)
            else if npending \<noteq> 0 then Some (eventtime, sq)
            else
              let wantclock = min_ready - reqclock_delta;
                  wantclock = (if min_stalled_clock < wantclock then min_stalled_clock else wantclock)
              in Some (sleep_until F eventtime idletime ack_clock wantclock sq))"

definition check_send_command :: "'d fops \<Rightarrow> nat \<Rightarrow> 'd \<Rightarrow> 'd serialqueue \<Rightarrow> ('d \<times> 'd serialqueue) option" where
  "check_send_command F npending eventtime sq =
     (let idletime = f_add F (if f_less F (sq_idle_time sq) eventtime then eventtime else sq_idle_time sq)
                       (calculate_bittime F sq (of_nat (npending + MESSAGE_MIN)));
          ack_clock = clock_from_time F (sq_ce sq) idletime;
          (min_stalled_clock, sq) = check_upcoming_queues ack_clock sq
      in if must_wait_ack sq then Some (f_add F eventtime (f_frac F 1 4), sq)
         else check_ready F npending eventtime idletime ack_clock min_stalled_clock sq)"

lemma build_length: "build_and_send_command F npending eventtime sq = Some (buf, sq') \<Longrightarrow> 0 < length buf"
  by (auto simp: build_and_send_command_def Let_def bind_eq_Some_conv)

text \<open>The loop of \<open>command_event\<close>; \<open>buf\<close> has room for \<open>MAX_PENDING_BLOCKS\<close> blocks.\<close>

function command_loop :: "'d fops \<Rightarrow> 'd \<Rightarrow> u8 list \<Rightarrow> 'd serialqueue \<Rightarrow> ('d \<times> u8 list \<times> 'd serialqueue) option" where
  "command_loop F eventtime buf sq =
     (case check_send_command F (length buf) eventtime sq of
        None \<Rightarrow> None
      | Some (wake, sq) \<Rightarrow>
          if \<not> f_eq F wake (PR_NOW F) then Some (wake, buf, sq)
          else
            (case build_and_send_command F (length buf) eventtime sq of
               None \<Rightarrow> None
             | Some (block, sq) \<Rightarrow>
                 if length (buf @ block) + MESSAGE_MAX > MESSAGE_MAX * MAX_PENDING_BLOCKS then Some (wake, buf @ block, sq)
                 else command_loop F eventtime (buf @ block) sq))"
  by pat_completeness auto
termination
  by (relation "measure (\<lambda>(F, e, buf, sq). MESSAGE_MAX * MAX_PENDING_BLOCKS - length buf)")
    (auto simp: MAX_PENDING_BLOCKS_def intro!: diff_less_mono2 dest!: build_length)

declare command_loop.simps [simp del]

definition command_event :: "'d fops \<Rightarrow> (nat \<Rightarrow> int) \<Rightarrow> 'd \<Rightarrow> 'd \<Rightarrow> 'd serialqueue \<Rightarrow> ('d \<times> 'd serialqueue) option" where
  "command_event F wr now eventtime sq =
     do {
       (wake, buf, sq) \<leftarrow> command_loop F eventtime [] sq;
       if buf = [] then Some (wake, sq)
       else
         let sq = do_write F wr now buf sq;
             idletime = (if f_less F (sq_idle_time sq) eventtime then eventtime else sq_idle_time sq)
         in Some (PR_NOW F, sq\<lparr>sq_bytes_write := sq_bytes_write sq + of_nat (length buf),
                   sq_idle_time := f_add F idletime (calculate_bittime F sq (of_nat (length buf)))\<rparr>)
     }"

section \<open>Interface\<close>

definition serialqueue_alloc :: "'d fops \<Rightarrow> char \<Rightarrow> int \<Rightarrow> 'd serialqueue" where
  "serialqueue_alloc F serial_fd_type client_id =
     (let zero = f_int F 0;
          pr = pollreactor_add_timer F SQPT_COMMAND (pollreactor_add_timer F SQPT_RETRANSMIT (pollreactor_alloc F 2));
          debugfile = (serial_fd_type = SQT_DEBUGFILE)
      in
      \<lparr>sq_pr = pr, sq_serial_fd_type = serial_fd_type, sq_client_id = client_id, sq_input_buf = [], sq_need_sync = 0,
       sq_waiting = False, sq_receive_queue = [], sq_old_receive = debug_queue_alloc F DEBUG_QUEUE_RECEIVE, sq_pipe = 0,
       sq_upcoming_queues = [], sq_upcoming_bytes = 0, sq_need_kick_clock = MAX_CLOCK, sq_min_release_clock = MAX_CLOCK,
       sq_receive_window = 0, sq_bittime_adjust = zero, sq_idle_time = zero, sq_ce = clock_fill zero zero 0 0,
       sq_last_receive_sent_time = zero, sq_send_seq = 1, sq_receive_seq = (if debugfile then - 1 else 1),
       sq_ignore_nak_seq = 0, sq_last_ack_seq = 0, sq_retransmit_seq = 0, sq_rtt_sample_seq = 0, sq_sent_queue = [],
       sq_srtt = zero, sq_rttvar = zero, sq_rto = (if debugfile then PR_NEVER F else MIN_RTO F), sq_ready_queues = [], sq_ready_bytes = 0,
       sq_need_ack_bytes = 0, sq_last_ack_bytes = 0, sq_notify_queue = [], sq_last_write_fail_time = zero, sq_fast_readers = [],
       sq_old_sent = debug_queue_alloc F DEBUG_QUEUE_SENT, sq_bytes_write = 0, sq_bytes_read = 0, sq_bytes_retransmit = 0,
       sq_bytes_invalid = 0, cq_ready = (\<lambda>_. []), cq_upcoming = (\<lambda>_. []), sq_output = [], sq_fast_calls = []\<rparr>)"

definition serialqueue_exit :: "'d serialqueue \<Rightarrow> 'd serialqueue" where
  "serialqueue_exit sq = kick_bg_thread (sq\<lparr>sq_pr := pollreactor_do_exit (sq_pr sq)\<rparr>)"

definition serialqueue_add_fastreader :: "nat \<times> u8 list \<Rightarrow> 'd serialqueue \<Rightarrow> 'd serialqueue" where
  "serialqueue_add_fastreader fr sq = sq\<lparr>sq_fast_readers := sq_fast_readers sq @ [fr]\<rparr>"

definition serialqueue_rm_fastreader :: "nat \<Rightarrow> 'd serialqueue \<Rightarrow> 'd serialqueue" where
  "serialqueue_rm_fastreader i sq = sq\<lparr>sq_fast_readers := filter (\<lambda>fr. fst fr \<noteq> i) (sq_fast_readers sq)\<rparr>"

definition limit_min_clock :: "'d queue_message \<Rightarrow> 'd queue_message" where
  "limit_min_clock qm =
     (if qm_min_clock qm + push_bit 29 3 < qm_req_clock qm \<and> qm_req_clock qm \<noteq> BACKGROUND_PRIORITY_CLOCK
      then qm\<lparr>qm_min_clock := qm_req_clock qm - push_bit 29 3\<rparr> else qm)"

definition serialqueue_send_batch :: "nat \<Rightarrow> 'd queue_message list \<Rightarrow> 'd serialqueue \<Rightarrow> 'd serialqueue" where
  "serialqueue_send_batch cq msgs sq =
     (let msgs = map limit_min_clock msgs; len = sum_list (map qm_len msgs) in
      if len = 0 then sq
      else
        let min_clock = qm_min_clock (hd msgs);
            fresh = (cq_upcoming sq cq = []);
            mustwake = (fresh \<and> min_clock < sq_need_kick_clock sq);
            sq = (if fresh then
                    let sq = sq\<lparr>sq_upcoming_queues := sq_upcoming_queues sq @ [cq]\<rparr>;
                        sq = (if min_clock < sq_min_release_clock sq then sq\<lparr>sq_min_release_clock := min_clock\<rparr> else sq)
                    in if mustwake then sq\<lparr>sq_need_kick_clock := 0\<rparr> else sq
                  else sq);
            sq = sq\<lparr>cq_upcoming := (cq_upcoming sq)(cq := cq_upcoming sq cq @ msgs), sq_upcoming_bytes := sq_upcoming_bytes sq + int len\<rparr>
        in if mustwake then kick_bg_thread sq else sq)"

definition serialqueue_send_one :: "nat \<Rightarrow> 'd queue_message \<Rightarrow> 'd serialqueue \<Rightarrow> 'd serialqueue" where
  "serialqueue_send_one cq qm sq = serialqueue_send_batch cq [qm] sq"

definition serialqueue_send :: "'d fops \<Rightarrow> nat \<Rightarrow> u8 list \<Rightarrow> nat \<Rightarrow> u64 \<Rightarrow> u64 \<Rightarrow> u64 \<Rightarrow> 'd serialqueue \<Rightarrow> 'd serialqueue option" where
  "serialqueue_send F cq msg len min_clock req_clock notify_id sq =
     do {
       qm \<leftarrow> message_fill F msg len;
       Some (serialqueue_send_one cq (qm\<lparr>qm_min_clock := min_clock, qm_req_clock := req_clock, qm_notify_id := notify_id\<rparr>) sq)
     }"

text \<open>
  \<open>serialqueue_pull\<close>: the caller waits, the thread has ended (length -1), or the oldest received message with its length.
\<close>

datatype 'd pull = Pull_wait | Pull_exit | Pull_msg "'d queue_message"

definition serialqueue_pull :: "'d serialqueue \<Rightarrow> 'd pull \<times> 'd serialqueue" where
  "serialqueue_pull sq =
     (case sq_receive_queue sq of
        [] \<Rightarrow> if pollreactor_is_exit (sq_pr sq) then (Pull_exit, sq) else (Pull_wait, sq\<lparr>sq_waiting := True\<rparr>)
      | qm # rest \<Rightarrow>
          (Pull_msg qm, sq\<lparr>sq_receive_queue := rest,
             sq_old_receive := (if qm_len qm \<noteq> 0 then debug_queue_add qm (sq_old_receive sq) else sq_old_receive sq)\<rparr>))"

definition serialqueue_set_wire_frequency :: "'d fops \<Rightarrow> 'd \<Rightarrow> 'd serialqueue \<Rightarrow> 'd serialqueue" where
  "serialqueue_set_wire_frequency F frequency sq =
     sq\<lparr>sq_bittime_adjust := f_div F (f_int F (if sq_serial_fd_type sq = SQT_CAN then 1 else 10)) frequency\<rparr>"

definition serialqueue_set_receive_window :: "int \<Rightarrow> 'd serialqueue \<Rightarrow> 'd serialqueue" where
  "serialqueue_set_receive_window receive_window sq = sq\<lparr>sq_receive_window := receive_window\<rparr>"

definition serialqueue_set_clock_est :: "'d \<Rightarrow> 'd \<Rightarrow> u64 \<Rightarrow> u64 \<Rightarrow> 'd serialqueue \<Rightarrow> 'd serialqueue" where
  "serialqueue_set_clock_est est_freq conv_time conv_clock last_clock sq = sq\<lparr>sq_ce := clock_fill est_freq conv_time conv_clock last_clock\<rparr>"

definition serialqueue_get_clock_est :: "'d serialqueue \<Rightarrow> 'd clock_estimate" where
  "serialqueue_get_clock_est sq = sq_ce sq"

definition serialqueue_extract_old :: "'d fops \<Rightarrow> bool \<Rightarrow> nat \<Rightarrow> 'd serialqueue \<Rightarrow> 'd queue_message list \<times> 'd serialqueue" where
  "serialqueue_extract_old F sentq limit sq =
     (let current = (if sentq then sq_old_sent sq else sq_old_receive sq);
          sq = (if sentq then sq\<lparr>sq_old_sent := debug_queue_alloc F DEBUG_QUEUE_SENT\<rparr>
                else sq\<lparr>sq_old_receive := debug_queue_alloc F DEBUG_QUEUE_RECEIVE\<rparr>)
      in (take limit (filter (\<lambda>qm. qm_len qm \<noteq> 0) current), sq))"

end
