(* ===== verification/Msgblock_Props.thy ===== *)
theory Msgblock_Props
  imports Msgblock
begin

text \<open>
  Properties of the host message blocks: what the check accepts, and the round trips with the firmware encoder of
  \<open>src/command.c\<close>.
\<close>

section \<open>Integers\<close>

lemma msgblock_encode_int_eq: "msgblock_encode_int = encode_int"
  by (rule ext) (simp add: msgblock_encode_int_def encode_int_def)

lemma msgblock_parse_loop_eq: "msgblock_parse_loop buf p c v = parse_int_loop buf p c v"
proof (induction buf p c v rule: msgblock_parse_loop.induct)
  case (1 buf p c v)
  then show ?case
    by (subst msgblock_parse_loop.simps, subst parse_int_loop.simps) (auto split: option.splits)
qed

lemma msgblock_parse_int_eq: "msgblock_parse_int = parse_int"
proof (intro ext)
  fix buf p
  show "msgblock_parse_int buf p = parse_int buf p"
    by (cases "rd buf p") (simp_all add: msgblock_parse_int_def parse_int_def parse_first_def msgblock_parse_loop_eq Let_def)
qed

section \<open>The check of received bytes\<close>

lemma msgblock_error_bounds:
  assumes "0 < n"
  shows "\<exists>k ns. msgblock_error buf n = (- int k, ns) \<and> 0 < k \<and> k \<le> n"
proof (cases "memchr buf MESSAGE_SYNC n")
  case (Some i)
  then have "i < n" using memchr_Some by blast
  then show ?thesis using Some by (intro exI [of _ "Suc i"]) (auto simp: msgblock_error_def)
qed (use assms in \<open>auto simp: msgblock_error_def\<close>)

lemma msgblock_check_trailer:
  assumes "5 \<le> n" "n \<le> length buf" "5 \<le> unat (buf ! 0)" "unat (buf ! 0) \<le> 64" "seq_ok (buf ! 1)" "unat (buf ! 0) \<le> n"
  shows "msgblock_check 0 buf n =
     (if take (unat (buf ! 0)) buf = frame (buf ! 1) (drop 2 (take (unat (buf ! 0) - 3) buf))
      then Some (int (unat (buf ! 0)), 0) else Some (msgblock_error buf n))"
proof -
  let ?l = "unat (buf ! 0)"
  have r: "rd buf 0 = Some (buf ! 0)" "rd buf 1 = Some (buf ! 1)" using assms(1,2) by (auto simp: rd_def)
  have u: "unat (buf ! 0 - 3) = ?l - 3" using assms(3) by (simp add: unat_sub_if' word_le_nat_alt)
  have c: "msgblock_crc16_ccitt buf (buf ! 0 - 3) = crc16_ccitt buf (?l - 3)"
    by (simp add: msgblock_crc16_ccitt_def crc16_ccitt_def u)
  have i: "rd buf (?l - 1) = Some (buf ! (?l - 1))" "rd buf (?l - 3) = Some (buf ! (?l - 3))" "rd buf (?l - 3 + 1) = Some (buf ! (?l - 3 + 1))"
    "rd buf (?l - 2) = Some (buf ! (?l - 2))" "?l - 3 + 1 = ?l - 2"
    using assms(2,3,6) by (auto simp: rd_def)
  obtain crc where crc: "crc16_ccitt buf (?l - 3) = Some crc" using assms(2,6) crc16_ccitt_eq [of "?l - 3" buf] by auto
  have t: "trailer_ok buf ?l = Some (take ?l buf = frame (buf ! 1) (drop 2 (take (?l - 3) buf)))"
    using assms by (intro trailer_ok_frame) auto
  have "trailer_ok buf ?l = Some (buf ! (?l - 1) = MESSAGE_SYNC
      \<and> crc = push_bit 8 (ucast (buf ! (?l - 3))) OR ucast (buf ! (?l - 3 + 1)))"
    unfolding trailer_ok_def MESSAGE_TRAILER_SYNC_def MESSAGE_TRAILER_CRC_def MESSAGE_TRAILER_SIZE_def i crc by simp
  moreover have "msgblock_check 0 buf n = (if buf ! (?l - 1) = MESSAGE_SYNC
      \<and> crc = push_bit 8 (ucast (buf ! (?l - 3))) OR ucast (buf ! (?l - 3 + 1)) then Some (int ?l, 0) else Some (msgblock_error buf n))"
    unfolding msgblock_check_def MESSAGE_TRAILER_SYNC_def MESSAGE_TRAILER_CRC_def MESSAGE_TRAILER_SIZE_def MESSAGE_POS_LEN_def
      MESSAGE_POS_SEQ_def MESSAGE_MIN_def MESSAGE_MAX_def
    using assms(1,3-6) by (simp add: r i c crc seq_ok_def del: One_nat_def)
  ultimately show ?thesis using t by simp
qed

lemma msgblock_check_cases:
  assumes "n \<le> length buf"
  obtains (more) "msgblock_check ns buf n = Some (0, ns)"
  | (bad) k ns' where "msgblock_check ns buf n = Some (- int k, ns')" "0 < k" "k \<le> n"
  | (good) k q where "ns = 0" "msgblock_check ns buf n = Some (int k, 0)" "0 < k" "block_at buf n k q" "seq_ok q"
proof (cases "n < 5 \<or> ns \<noteq> 0")
  case True
  show thesis
  proof (cases "n < 5")
    case False
    then show thesis using True msgblock_error_bounds [of n buf] bad by (fastforce simp: msgblock_check_def)
  qed (use more in \<open>simp add: msgblock_check_def\<close>)
next
  case False
  then have n: "5 \<le> n" "ns = 0" by auto
  let ?l = "unat (buf ! 0)"
  have r: "rd buf 0 = Some (buf ! 0)" "rd buf (Suc 0) = Some (buf ! 1)" using assms n by (auto simp: rd_def)
  obtain k ns' where err: "msgblock_error buf n = (- int k, ns')" "0 < k" "k \<le> n" using msgblock_error_bounds [of n buf] n by auto
  consider "?l < 5 \<or> ?l > 64" | "5 \<le> ?l" "?l \<le> 64" "\<not> seq_ok (buf ! 1)" | "5 \<le> ?l" "?l \<le> 64" "seq_ok (buf ! 1)" "n < ?l"
    | "5 \<le> ?l" "?l \<le> 64" "seq_ok (buf ! 1)" "?l \<le> n" by linarith
  then show thesis
  proof cases
    case 4
    show thesis
    proof (cases "take ?l buf = frame (buf ! 1) (drop 2 (take (?l - 3) buf))")
      case True
      have "block_at buf n ?l (buf ! 1)" unfolding block_at_def using True 4 by (intro conjI exI) auto
      then show thesis using good [of ?l "buf ! 1"] msgblock_check_trailer [OF n(1) assms] 4 True n(2) by simp
    next
      case False
      then show thesis using bad [of k ns'] err msgblock_check_trailer [OF n(1) assms] 4 n(2) by simp
    qed
  qed (use n r err more bad [of k ns'] in \<open>auto simp: msgblock_check_def seq_ok_def\<close>)
qed

lemma msgblock_check_block:
  assumes "n \<le> length buf" "block_at buf n k q" "seq_ok q"
  shows "msgblock_check 0 buf n = Some (int k, 0)"
proof -
  obtain pl where pl: "length pl \<le> 59" "take k buf = frame q pl" "k \<le> n" using assms(2) by (auto simp: block_at_def)
  have kl: "k \<le> length buf" using pl(3) assms(1) by simp
  note p = take_frame_parts [OF pl(2) kl pl(1)]
  have "5 \<le> n" "unat (buf ! 0) = k" "buf ! 1 = q" using p pl(3) by auto
  then show ?thesis using msgblock_check_trailer [OF _ assms(1)] p pl assms(3) by auto
qed


section \<open>Messages\<close>

lemma wr_bytes_prefix:
  assumes "take p buf = xs" "length xs = p" "p + length bs \<le> length buf"
  shows "\<exists>buf'. wr_bytes buf p bs = Some buf' \<and> length buf' = length buf \<and> take (p + length bs) buf' = xs @ bs"
  using assms by (auto simp: wr_bytes_def)

lemma encode_data_ok:
  assumes "take p msg = xs" "length xs = p" "length msg = 64" "p \<le> 59"
  shows "if p + length (concat (map encode_int vs)) \<le> 59
     then \<exists>msg'. encode_data vs msg p = Some (Inr (msg', p + length (concat (map encode_int vs)))) \<and> length msg' = 64
       \<and> take (p + length (concat (map encode_int vs))) msg' = xs @ concat (map encode_int vs)
     else \<exists>msg'. encode_data vs msg p = Some (Inl msg')"
  using assms
proof (induction vs arbitrary: p msg xs)
  case (Cons v vs)
  let ?b = "encode_int v"
  have l: "1 \<le> length ?b" "length ?b \<le> 5" using encode_int_length [of v] by auto
  obtain m where m: "wr_bytes msg p ?b = Some m" "length m = 64" "take (p + length ?b) m = xs @ ?b"
    using wr_bytes_prefix [OF Cons.prems(1,2), of ?b] Cons.prems(3,4) l by auto
  show ?case
  proof (cases "p + length ?b \<le> 59")
    case True
    have e: "encode_data (v # vs) msg p = encode_data vs m (p + length ?b)"
      using m True by (simp add: msgblock_encode_int_eq Let_def)
    show ?thesis
      unfolding e using Cons.IH [OF m(3) _ m(2) True] Cons.prems(2) by (simp add: add.assoc split: if_splits)
  next
    case False
    then show ?thesis using m by (simp add: msgblock_encode_int_eq Let_def)
  qed
qed auto

lemma message_encode:
  "if length (concat (map encode_int vs)) \<le> MESSAGE_PAYLOAD_MAX
   then \<exists>qm. message_alloc_and_encode F vs = Some qm \<and> qm_len qm = length (concat (map encode_int vs))
     \<and> take (qm_len qm) (qm_msg qm) = concat (map encode_int vs)
   else \<exists>qm. message_alloc_and_encode F vs = Some qm \<and> qm_len qm = 0"
  using encode_data_ok [of 0 "replicate 64 0" "[]" vs]
  by (auto simp: message_alloc_and_encode_def message_alloc_def Let_def split: if_splits)

lemma decode_loop_encoded:
  assumes "bytes_at msg p (concat (map encode_int vs))" "p + length (concat (map encode_int vs)) \<le> e"
  shows "decode_loop (length vs) msg p e data = Some (Inr (data @ vs, p + length (concat (map encode_int vs))))"
  using assms
proof (induction vs arbitrary: p data)
  case (Cons v vs)
  have b: "bytes_at msg p (encode_int v)" "bytes_at msg (p + length (encode_int v)) (concat (map encode_int vs))"
    using Cons.prems(1) by (simp_all add: bytes_at_append)
  have "p < e" using Cons.prems(2) encode_int_length [of v] by simp
  then show ?case using Cons.IH [OF b(2)] Cons.prems(2) parse_encode_int [OF b(1)]
    by (simp add: msgblock_parse_int_eq add.assoc)
qed simp

lemma decode_frame:
  assumes "take k msg = frame q (concat (map encode_int vs))" "k \<le> length msg" "length (concat (map encode_int vs)) \<le> 59"
  shows "msgblock_decode (length vs) msg k = Some (0, vs)"
proof -
  let ?pl = "concat (map encode_int vs)"
  note p = take_frame_parts [OF assms]
  have "bytes_at (take k msg) (length [of_nat (length ?pl + 5), q]) ?pl"
    unfolding assms(1) frame_def Let_def using bytes_at_self [of "[of_nat (length ?pl + 5), q]" ?pl] by simp
  then have b: "bytes_at msg 2 ?pl" by (auto simp: bytes_at_def rd_def numeral_2_eq_2 split: if_splits)
  have "decode_loop (length vs) msg 2 (k - 3) [] = Some (Inr (vs, k - 3))"
    using decode_loop_encoded [OF b, of "k - 3" "[]"] p(1) by simp
  then show ?thesis by (simp add: msgblock_decode_def)
qed

section \<open>The 64 bit clock\<close>

lemma clock32_extend:
  fixes c :: u64
  assumes "- (2 ^ 31) \<le> uint c - uint (ce_last_clock ce)" "uint c - uint (ce_last_clock ce) < 2 ^ 31"
  shows "clock_from_clock32 ce (ucast c) = c"
proof -
  let ?l = "ce_last_clock ce"
  have "ucast c - ucast ?l = (word_of_int (uint c - uint ?l) :: u32)"
    by (simp only: of_int_diff unsigned_of_int ucast_eq)
  then have "sint (ucast c - ucast ?l :: u32) = signed_take_bit 31 (uint c - uint ?l)"
    by (simp only: signed_of_int) simp
  also have "\<dots> = uint c - uint ?l" using assms by (simp add: signed_take_bit_int_eq_self)
  finally have "sint (ucast c - ucast ?l :: u32) = uint c - uint ?l" .
  then show ?thesis by (simp add: clock_from_clock32_def)
qed

section \<open>Properties\<close>





end
