(* ===== verification/Serialqueue_Lib.thy ===== *)
theory Serialqueue_Lib
  imports Serialqueue Msgblock_Props Command_Blocks
begin

text \<open>
  The link of the host: the blocks it builds, the window of unacknowledged blocks, and what acknowledgement and
  retransmission do to it.
\<close>

section \<open>Blocks\<close>

definition seq_byte :: "u64 \<Rightarrow> u8" where
  "seq_byte n = MESSAGE_DEST OR (ucast n AND MESSAGE_SEQ_MASK)"

lemma seq_byte_ok: "seq_ok (seq_byte n)"
  by (simp add: seq_ok_def seq_byte_def) (rule bit_word_eqI, auto simp: bit_simps bit_16 less_Suc_eq numeral_eq_Suc)

lemma build_payload_fits:
  "build_payload payload sq = Some (payload', sq') \<Longrightarrow> length payload \<le> 59 \<Longrightarrow>
     length payload' \<le> 59 \<and> sq_sent_queue sq' = sq_sent_queue sq \<and> sq_send_seq sq' = sq_send_seq sq \<and> sq_receive_seq sq' = sq_receive_seq sq
     \<and> sq_serial_fd_type sq' = sq_serial_fd_type sq \<and> sq_output sq' = sq_output sq"
proof (induction payload sq rule: build_payload.induct)
  case (1 payload sq)
  show ?case
  proof (cases "sq_ready_bytes sq = 0")
    case True
    then show ?thesis using 1(2,3) by (simp add: build_payload.simps)
  next
    case False
    obtain cq qm where l: "lowest_ready (cq_ready sq) (sq_ready_queues sq) MAX_CLOCK None = Some (Some (cq, qm))"
      using 1(2) False by (auto simp: build_payload.simps split: option.splits)
    show ?thesis
    proof (cases "MESSAGE_HEADER_SIZE + length payload + qm_len qm > MESSAGE_MAX - MESSAGE_TRAILER_SIZE")
      case True
      then show ?thesis using 1(2,3) False l by (simp add: build_payload.simps [of payload sq])
    next
      case fits: False
      then obtain bs where bs: "qm_bytes qm = Some bs" "build_payload (payload @ bs) (take_ready cq qm sq) = Some (payload', sq')"
        using 1(2) False l by (auto simp: build_payload.simps [of payload sq] split: option.splits)
      have "length bs = qm_len qm" using bs(1) by (auto simp: qm_bytes_def split: if_splits)
      then have "length (payload @ bs) \<le> 59" using fits by simp
      from 1(1) [OF False l refl refl fits bs(1) bs(2) this] show ?thesis by (auto simp: take_ready_def Let_def)
    qed
  qed
qed

lemma block_is_frame:
  assumes "length payload \<le> 59"
  shows "msgblock_crc16_ccitt ([of_nat (MESSAGE_HEADER_SIZE + length payload + MESSAGE_TRAILER_SIZE), q] @ payload)
      (of_nat (MESSAGE_HEADER_SIZE + length payload + MESSAGE_TRAILER_SIZE - MESSAGE_TRAILER_SIZE))
      = Some (crc_of (of_nat (length payload + MESSAGE_MIN) # q # payload))"
proof -
  let ?h = "[of_nat (MESSAGE_HEADER_SIZE + length payload + MESSAGE_TRAILER_SIZE), q] @ payload"
  have u: "unat (of_nat (2 + length payload) :: u8) = length ?h" by (subst unat_of_nat) (use assms in simp)
  have "msgblock_crc16_ccitt ?h (of_nat (2 + length payload)) = Some (crc_of (take (length ?h) ?h))"
    by (subst msgblock_crc16_ccitt_eq) (simp_all only: u order_refl)
  moreover have "MESSAGE_HEADER_SIZE + length payload + MESSAGE_TRAILER_SIZE - MESSAGE_TRAILER_SIZE = 2 + length payload" by simp
  moreover have "take (length ?h) ?h = of_nat (length payload + MESSAGE_MIN) # q # payload" by (simp add: add.commute)
  ultimately show ?thesis by metis
qed

lemma message_fill_bytes:
  assumes "message_fill F data len = Some qm"
  shows "qm_bytes qm = Some (take len data)"
proof -
  from assms have l: "len \<le> length data" by (auto simp: message_fill_def bind_eq_Some_conv split: if_splits)
  from assms obtain msg where m: "wr_bytes (qm_msg (message_alloc F)) 0 (take len data) = Some msg"
    "qm = (message_alloc F)\<lparr>qm_msg := msg, qm_len := len\<rparr>" by (auto simp: message_fill_def bind_eq_Some_conv split: if_splits)
  have "take len msg = take len data \<and> len \<le> length msg" using m(1) l by (auto simp: wr_bytes_def split: if_splits)
  then show ?thesis using m(2) by (simp add: qm_bytes_def)
qed

lemma message_fill_total: "len \<le> length data \<Longrightarrow> len \<le> 64 \<Longrightarrow> \<exists>qm. message_fill F data len = Some qm"
  by (auto simp: message_fill_def wr_bytes_def message_alloc_def)

lemma update_timer_link [simp]:
  "sq_sent_queue (update_timer F i t sq) = sq_sent_queue sq" "sq_send_seq (update_timer F i t sq) = sq_send_seq sq"
  "sq_receive_seq (update_timer F i t sq) = sq_receive_seq sq" "sq_output (update_timer F i t sq) = sq_output sq"
  "sq_serial_fd_type (update_timer F i t sq) = sq_serial_fd_type sq"
  "sq_rtt_sample_seq (update_timer F i t sq) = sq_rtt_sample_seq sq" "sq_need_ack_bytes (update_timer F i t sq) = sq_need_ack_bytes sq"
  by (simp_all add: update_timer_def)

lemma qm_bytes_times: "qm_bytes (qm\<lparr>qm_sent_time := a, qm_receive_time := b\<rparr>) = qm_bytes qm"
  by (simp add: qm_bytes_def)

lemma store_block_link:
  "sq_sent_queue (store_block F it out sq) = sq_sent_queue sq @ [out]" "sq_send_seq (store_block F it out sq) = sq_send_seq sq + 1"
  "sq_receive_seq (store_block F it out sq) = sq_receive_seq sq" "sq_serial_fd_type (store_block F it out sq) = sq_serial_fd_type sq"
  "sq_output (store_block F it out sq) = sq_output sq"
  by (auto simp: store_block_def Let_def update_timer_def)

lemma build_block:
  assumes p: "build_payload [] sq = Some (payload, sq1)"
  obtains it out where "build_and_send_command F n t sq = Some (frame (seq_byte (sq_send_seq sq)) payload, store_block F it out sq1)"
    "qm_bytes out = Some (frame (seq_byte (sq_send_seq sq)) payload)" "length payload \<le> 59"
proof -
  note f = build_payload_fits [OF p, simplified]
  have l: "length payload \<le> 59" using f by simp
  let ?q = "seq_byte (sq_send_seq sq)"
  have q: "MESSAGE_DEST OR (ucast (sq_send_seq sq1) AND MESSAGE_SEQ_MASK) = ?q" using f by (simp add: seq_byte_def)
  let ?h = "[of_nat (MESSAGE_HEADER_SIZE + length payload + MESSAGE_TRAILER_SIZE), ?q] @ payload"
  let ?c = "crc_of (of_nat (length payload + MESSAGE_MIN) # ?q # payload)"
  let ?b = "?h @ [ucast (drop_bit 8 ?c), ucast (?c AND 0xff), MESSAGE_SYNC]"
  have b: "?b = frame ?q payload"
  proof -
    have "(ucast (?c AND 0xff) :: u8) = ucast ?c" by (rule bit_word_eqI) (auto simp: bit_simps and_255 numeral_eq_Suc less_Suc_eq)
    then show ?thesis by (simp add: frame_def Let_def add.commute)
  qed
  obtain out where o: "message_fill F ?b (MESSAGE_HEADER_SIZE + length payload + MESSAGE_TRAILER_SIZE) = Some out"
    using message_fill_total [of "MESSAGE_HEADER_SIZE + length payload + MESSAGE_TRAILER_SIZE" ?b F] l by auto
  obtain it where e: "build_and_send_command F n t sq = Some (?b, store_block F it (out\<lparr>qm_sent_time := t, qm_receive_time := it\<rparr>) sq1)"
    unfolding build_and_send_command_def p bind.bind_lunit Let_def split_conv q block_is_frame [OF l] o by blast
  have "qm_bytes (out\<lparr>qm_sent_time := t, qm_receive_time := it\<rparr>) = Some ?b" using message_fill_bytes [OF o] by (simp add: qm_bytes_times)
  then show thesis using that e l unfolding b by blast
qed

lemma build_command_block:
  assumes "build_and_send_command F p t sq = Some (buf, sq')"
  obtains payload out where "length payload \<le> 59" "buf = frame (seq_byte (sq_send_seq sq)) payload" "qm_bytes out = Some buf"
    "sq_sent_queue sq' = sq_sent_queue sq @ [out]" "sq_send_seq sq' = sq_send_seq sq + 1" "sq_receive_seq sq' = sq_receive_seq sq"
    "sq_serial_fd_type sq' = sq_serial_fd_type sq" "sq_output sq' = sq_output sq"
proof -
  obtain payload sq1 where p: "build_payload [] sq = Some (payload, sq1)"
    using assms by (auto simp: build_and_send_command_def bind_eq_Some_conv)
  note f = build_payload_fits [OF p, simplified]
  obtain it out where b: "build_and_send_command F p t sq = Some (frame (seq_byte (sq_send_seq sq)) payload, store_block F it out sq1)"
    "qm_bytes out = Some (frame (seq_byte (sq_send_seq sq)) payload)" "length payload \<le> 59" by (rule build_block [OF p])
  then have e: "buf = frame (seq_byte (sq_send_seq sq)) payload" "sq' = store_block F it out sq1" using assms by auto
  show thesis using that [of payload out] b(2,3) e f by (simp add: store_block_link)
qed

section \<open>The window of unacknowledged blocks\<close>

text \<open>The part of the state the link depends on.\<close>

definition same_link :: "'d serialqueue \<Rightarrow> 'd serialqueue \<Rightarrow> bool" where
  "same_link sq sq' \<longleftrightarrow> sq_sent_queue sq' = sq_sent_queue sq \<and> sq_send_seq sq' = sq_send_seq sq \<and> sq_receive_seq sq' = sq_receive_seq sq
     \<and> sq_receive_window sq' = sq_receive_window sq \<and> sq_need_ack_bytes sq' = sq_need_ack_bytes sq
     \<and> sq_last_ack_seq sq' = sq_last_ack_seq sq \<and> sq_last_ack_bytes sq' = sq_last_ack_bytes sq"

lemma same_link_wait: "same_link sq sq' \<Longrightarrow> must_wait_ack sq' = must_wait_ack sq"
  by (simp only: same_link_def must_wait_ack_def)

lemma same_link_refl: "same_link sq sq"
  by (simp add: same_link_def)

lemma same_link_trans: "same_link sq sq1 \<Longrightarrow> same_link sq1 sq2 \<Longrightarrow> same_link sq sq2"
  by (simp add: same_link_def)

definition link_ok :: "'d serialqueue \<Rightarrow> bool" where
  "link_ok sq \<longleftrightarrow> unat (sq_send_seq sq) = unat (sq_receive_seq sq) + length (sq_sent_queue sq)
     \<and> length (sq_sent_queue sq) \<le> MAX_PENDING_BLOCKS
     \<and> (\<forall>i < length (sq_sent_queue sq). \<exists>payload. length payload \<le> 59
          \<and> qm_bytes (sq_sent_queue sq ! i) = Some (frame (seq_byte (sq_receive_seq sq + of_nat i)) payload))"

lemma link_ok_cong: "same_link sq sq' \<Longrightarrow> link_ok sq' \<longleftrightarrow> link_ok sq"
  by (simp add: same_link_def link_ok_def)

lemma release_queue_keeps: "release_queue c cq m sq = (k, st, sq') \<Longrightarrow> same_link sq sq'"
  by (drule arg_cong [of _ _ "\<lambda>r. snd (snd r)"], unfold release_queue_def Let_def, simp, drule sym, simp add: same_link_def)

lemma release_keeps: "release_queues c cqs m sq = (kept, st, sq') \<Longrightarrow> same_link sq sq'"
proof (induction cqs arbitrary: m sq kept st sq')
  case Nil
  then show ?case by (simp add: same_link_refl)
next
  case (Cons cq cqs)
  obtain k1 st1 sq1 where r: "release_queue c cq m sq = (k1, st1, sq1)" by (cases "release_queue c cq m sq")
  obtain ks st2 sq2 where rs: "release_queues c cqs st1 sq1 = (ks, st2, sq2)" by (cases "release_queues c cqs st1 sq1")
  have "sq2 = sq'" using Cons.prems r rs by (simp add: Let_def)
  then show ?case using release_queue_keeps [OF r] Cons.IH [OF rs] by (metis same_link_trans)
qed

lemma check_upcoming_keeps:
  assumes "check_upcoming_queues c sq = (st, sq')"
  shows "same_link sq sq'"
proof -
  obtain kept s2 sq2 where r: "release_queues c (sq_upcoming_queues sq) MAX_CLOCK (sq\<lparr>sq_need_kick_clock := 0\<rparr>) = (kept, s2, sq2)"
    by (cases "release_queues c (sq_upcoming_queues sq) MAX_CLOCK (sq\<lparr>sq_need_kick_clock := 0\<rparr>)")
  have "sq' = (if c < sq_min_release_clock sq then sq\<lparr>sq_need_kick_clock := 0\<rparr>
               else sq2\<lparr>sq_upcoming_queues := kept, sq_min_release_clock := s2\<rparr>)"
    using arg_cong [OF assms, of snd] by (simp add: check_upcoming_queues_def r Let_def split: if_splits)
  then show ?thesis using release_keeps [OF r] by (simp add: same_link_def)
qed

lemma need_kick_keeps: "update_need_kick_clock w sq = (b, sq') \<Longrightarrow> same_link sq sq'"
  by (drule arg_cong [of _ _ snd], unfold update_need_kick_clock_def, drule sym, simp add: same_link_def)

text \<open>The time of the reactor is not a quarter of a second before its origin.\<close>

definition clock_runs :: "'d fops \<Rightarrow> 'd \<Rightarrow> bool" where
  "clock_runs F eventtime \<longleftrightarrow> \<not> f_eq F (f_add F eventtime (f_frac F 1 4)) (PR_NOW F)"

lemma check_ready_keeps:
  assumes "check_ready F p t it c st sq = Some (w, sq')"
  shows "same_link sq sq'"
proof -
  have "sq' = sq \<or> (\<exists>wc b. update_need_kick_clock wc sq = (b, sq'))"
    using assms by (auto simp: check_ready_def sleep_until_def Let_def split: if_splits option.splits prod.splits)
  then show ?thesis using need_kick_keeps same_link_refl by blast
qed

lemma check_send_keeps:
  assumes "check_send_command F p t sq = Some (w, sq')"
  shows "same_link sq sq' \<and> (clock_runs F t \<longrightarrow> f_eq F w (PR_NOW F) \<longrightarrow> \<not> must_wait_ack sq')"
proof -
  define it where "it = f_add F (if f_less F (sq_idle_time sq) t then t else sq_idle_time sq) (calculate_bittime F sq (of_nat (p + MESSAGE_MIN)))"
  obtain st sq1 where c: "check_upcoming_queues (clock_from_time F (sq_ce sq) it) sq = (st, sq1)" by fastforce
  note k = check_upcoming_keeps [OF c]
  note e = assms(1) [unfolded check_send_command_def Let_def it_def [symmetric] c split_conv]
  show ?thesis
  proof (cases "must_wait_ack sq1")
    case True
    then have "w = f_add F t (f_frac F 1 4)" "sq' = sq1" using e by simp_all
    then show ?thesis using k by (simp add: clock_runs_def)
  next
    case False
    then have r: "check_ready F p t it (clock_from_time F (sq_ce sq) it) st sq1 = Some (w, sq')" using e by simp
    show ?thesis using k check_ready_keeps [OF r] False same_link_trans same_link_wait by blast
  qed
qed

lemma window_open:
  assumes "link_ok sq" "\<not> must_wait_ack sq"
  shows "length (sq_sent_queue sq) < MAX_PENDING_BLOCKS"
proof -
  have l: "sq_receive_seq sq \<le> sq_send_seq sq" using assms(1) by (simp add: link_ok_def word_le_nat_alt)
  have "unat (sq_send_seq sq - sq_receive_seq sq) = length (sq_sent_queue sq)"
    using assms(1) unat_sub [OF l] by (simp add: link_ok_def)
  moreover have "length (sq_sent_queue sq) = 0" if "sq_receive_seq sq = - 1"
    using assms(1) that unsigned_less [of "sq_send_seq sq", where ?'a = nat] by (simp add: link_ok_def unsigned_minus_1_eq_mask mask_eq_exp_minus_1)
  ultimately show ?thesis using assms(2) by (cases "sq_receive_seq sq = - 1") (auto simp: must_wait_ack_def word_le_nat_alt MAX_PENDING_BLOCKS_def)
qed

lemma build_keeps_link:
  assumes "build_and_send_command F p t sq = Some (buf, sq')" "link_ok sq" "\<not> must_wait_ack sq" "unat (sq_receive_seq sq) < 0x8000000000000000"
  shows "link_ok sq' \<and> sq_receive_seq sq' = sq_receive_seq sq
     \<and> (\<exists>out. sq_sent_queue sq' = sq_sent_queue sq @ [out] \<and> qm_bytes out = Some buf)"
proof -
  obtain payload out where b: "length payload \<le> 59" "buf = frame (seq_byte (sq_send_seq sq)) payload" "qm_bytes out = Some buf"
    "sq_sent_queue sq' = sq_sent_queue sq @ [out]" "sq_send_seq sq' = sq_send_seq sq + 1" "sq_receive_seq sq' = sq_receive_seq sq"
    using build_command_block [OF assms(1)] by metis
  note l = assms(2) [unfolded link_ok_def]
  have w: "length (sq_sent_queue sq) < 12" using window_open [OF assms(2,3)] by (simp add: MAX_PENDING_BLOCKS_def)
  have s: "sq_send_seq sq = sq_receive_seq sq + of_nat (length (sq_sent_queue sq))"
    using arg_cong [OF conjunct1 [OF l], of "of_nat :: nat \<Rightarrow> u64"] by simp
  have "unat (sq_send_seq sq + 1) = unat (sq_send_seq sq) + 1" using l w assms(4) by (simp add: unat_word_ariths)
  then have "link_ok sq'" using l w b s by (auto simp: link_ok_def MAX_PENDING_BLOCKS_def nth_append less_Suc_eq)
  then show ?thesis using b by blast
qed

lemma can_write_keeps: "same_link sq (can_write F wr now buf sq)"
proof (induction F wr now buf sq rule: can_write.induct)
  case (1 F wr now buf sq)
  show ?case
  proof (cases "buf = [] \<or> wr (length (sq_output sq)) < 0")
    case True
    then show ?thesis by (elim disjE) (simp_all add: can_write.simps [of F wr now buf] can_write.simps [of F wr now "[]"] same_link_def)
  next
    case False
    then have "same_link sq (can_write F wr now (drop 8 buf) (sq\<lparr>sq_output := sq_output sq @ [take 8 buf], sq_last_write_fail_time := f_int F 0\<rparr>))"
      using 1 by (simp add: same_link_def)
    then show ?thesis using False by (simp add: can_write.simps [of F wr now buf sq])
  qed
qed

lemma do_write_keeps: "same_link sq (do_write F wr now buf sq)"
  using can_write_keeps [of sq F wr now buf] by (simp add: do_write_def same_link_def)

lemma command_loop_link:
  "command_loop F t buf sq = Some (w, buf', sq') \<Longrightarrow> link_ok sq \<Longrightarrow> unat (sq_receive_seq sq) < 0x8000000000000000 \<Longrightarrow> clock_runs F t \<Longrightarrow>
     link_ok sq' \<and> sq_receive_seq sq' = sq_receive_seq sq
     \<and> (\<exists>outs blks. sq_sent_queue sq' = sq_sent_queue sq @ outs \<and> map qm_bytes outs = map Some blks \<and> buf' = buf @ concat blks)"
proof (induction F t buf sq arbitrary: w buf' sq' rule: command_loop.induct)
  case (1 F t buf sq)
  obtain w1 sq1 where c: "check_send_command F (length buf) t sq = Some (w1, sq1)"
    using 1(2) by (auto simp: command_loop.simps [of F t buf sq] split: option.splits)
  note k = check_send_keeps [OF c]
  have l1: "link_ok sq1" using k 1(3) link_ok_cong by blast
  have f1: "sq_receive_seq sq1 = sq_receive_seq sq" "sq_sent_queue sq1 = sq_sent_queue sq" using k by (simp_all add: same_link_def)
  show ?case
  proof (cases "f_eq F w1 (PR_NOW F)")
    case False
    then have "buf' = buf" "sq' = sq1" using 1(2) c by (simp_all add: command_loop.simps [of F t buf sq])
    then show ?thesis using l1 f1 by (auto intro!: exI [of _ "[]"])
  next
    case now: True
    obtain blk sq2 where b: "build_and_send_command F (length buf) t sq1 = Some (blk, sq2)"
      using 1(2) c now by (auto simp: command_loop.simps [of F t buf sq] split: option.splits)
    have "\<not> must_wait_ack sq1" using k now 1(5) by blast
    from build_keeps_link [OF b l1 this] 1(4) f1
    obtain out where o: "link_ok sq2" "sq_receive_seq sq2 = sq_receive_seq sq" "sq_sent_queue sq2 = sq_sent_queue sq @ [out]" "qm_bytes out = Some blk"
      by auto
    show ?thesis
    proof (cases "length (buf @ blk) + MESSAGE_MAX > MESSAGE_MAX * MAX_PENDING_BLOCKS")
      case True
      then have "buf' = buf @ blk" "sq' = sq2" using 1(2) c now b by (simp_all add: command_loop.simps [of F t buf sq])
      then show ?thesis using o by (intro conjI exI [of _ "[out]"] exI [of _ "[blk]"]) simp_all
    next
      case False
      then have r: "command_loop F t (buf @ blk) sq2 = Some (w, buf', sq')" using 1(2) c now b by (simp add: command_loop.simps [of F t buf sq])
      from 1(1) [OF c refl _ b refl _ r o(1) _ 1(5)] now False 1(4) o(2)
      obtain outs blks where i: "link_ok sq'" "sq_receive_seq sq' = sq_receive_seq sq" "sq_sent_queue sq' = sq_sent_queue sq2 @ outs"
        "map qm_bytes outs = map Some blks" "buf' = (buf @ blk) @ concat blks" by auto
      then show ?thesis using o by (intro conjI exI [of _ "out # outs"] exI [of _ "blk # blks"]) simp_all
    qed
  qed
qed

lemma command_event_link:
  assumes "command_event F wr now t sq = Some (w, sq')" "link_ok sq" "unat (sq_receive_seq sq) < 0x8000000000000000" "clock_runs F t"
  obtains outs blks where "link_ok sq'" "sq_receive_seq sq' = sq_receive_seq sq" "sq_sent_queue sq' = sq_sent_queue sq @ outs"
    "map qm_bytes outs = map Some blks"
proof -
  obtain w1 buf sq1 where c: "command_loop F t [] sq = Some (w1, buf, sq1)"
    using assms(1) by (cases "command_loop F t [] sq") (auto simp: command_event_def)
  from command_loop_link [OF this assms(2-4)]
  obtain outs blks where o: "link_ok sq1" "sq_receive_seq sq1 = sq_receive_seq sq" "sq_sent_queue sq1 = sq_sent_queue sq @ outs"
    "map qm_bytes outs = map Some blks" by blast
  have "same_link sq1 sq'"
    using assms(1) c do_write_keeps [of sq1 F wr now buf] by (auto simp: command_event_def Let_def same_link_def split: if_splits)
  then show ?thesis using that [of outs blks] o link_ok_cong [of sq1 sq'] by (simp add: same_link_def)
qed

section \<open>Acknowledgement\<close>

lemma ack_sent_drop:
  "0 < k \<Longrightarrow> k \<le> length ms \<Longrightarrow> unat r + k < 2 ^ 64 \<Longrightarrow>
     sq_sent_queue (ack_sent F (r + of_nat k) r ms sq) = drop k ms
     \<and> sq_send_seq (ack_sent F (r + of_nat k) r ms sq) = sq_send_seq sq"
proof (induction ms arbitrary: k r sq)
  case (Cons m ms)
  show ?case
  proof (cases "k = 1")
    case True
    then show ?thesis by (simp add: Let_def)
  next
    case False
    then obtain j where k: "k = Suc j" "0 < j" using Cons.prems(1) by (cases k) auto
    have "of_nat j \<noteq> (0 :: u64)" using Cons.prems(3) k by (auto simp: word_of_nat_eq_0_iff dest!: dvd_imp_le)
    then have n: "r + of_nat k \<noteq> r + 1" by (simp add: k)
    have e: "r + of_nat k = (r + 1) + of_nat j" by (simp add: k)
    have "unat (r + 1) + j < 2 ^ 64" using Cons.prems(3) k by (simp add: unat_word_ariths)
    then show ?thesis using Cons.IH [of j "r + 1"] n k Cons.prems(2) by (simp add: Let_def e add.assoc)
  qed
qed simp

lemma update_rto_link [simp]:
  "sq_sent_queue (update_rto F t sq) = sq_sent_queue sq" "sq_send_seq (update_rto F t sq) = sq_send_seq sq"
  "sq_receive_seq (update_rto F t sq) = sq_receive_seq sq"
  by (simp_all add: update_rto_def Let_def)

lemma update_receive_seq_link:
  "sq_sent_queue (update_receive_seq F t r sq) = sq_sent_queue (ack_sent F r (sq_receive_seq sq) (sq_sent_queue sq) sq)"
  "sq_send_seq (update_receive_seq F t r sq) = sq_send_seq (ack_sent F r (sq_receive_seq sq) (sq_sent_queue sq) sq)"
  "sq_receive_seq (update_receive_seq F t r sq) = r"
  by (simp_all add: update_receive_seq_def Let_def split: list.split)

text \<open>What a received block means: the host takes the lowest number from its own up with the four bits of the block.\<close>

definition ack_seq :: "u8 \<Rightarrow> u64 \<Rightarrow> u64" where
  "ack_seq q r = r + ((ucast q - r) AND ucast MESSAGE_SEQ_MASK)"

lemma handle_parts_link [simp]:
  "sq_sent_queue (handle_ack F r sq) = sq_sent_queue sq" "sq_send_seq (handle_ack F r sq) = sq_send_seq sq"
  "sq_receive_seq (handle_ack F r sq) = sq_receive_seq sq"
  "sq_sent_queue (call_fastreader len sq) = sq_sent_queue sq" "sq_send_seq (call_fastreader len sq) = sq_send_seq sq"
  "sq_receive_seq (call_fastreader len sq) = sq_receive_seq sq"
  by (simp_all add: handle_ack_def call_fastreader_def split: option.split)

lemma handle_message_link:
  assumes "handle_message F t now len sq = Some sq'" "rd (sq_input_buf sq) MESSAGE_POS_SEQ = Some q"
    "r = ack_seq q (sq_receive_seq sq)"
    "sq1 = (if r = sq_receive_seq sq \<or> (r > sq_send_seq sq \<and> sq_receive_seq sq \<noteq> 1) then sq else update_receive_seq F t r sq)"
  shows "sq_sent_queue sq' = sq_sent_queue sq1" "sq_send_seq sq' = sq_send_seq sq1" "sq_receive_seq sq' = sq_receive_seq sq1"
proof -
  note e = assms(1) [unfolded handle_message_def assms(2) ack_seq_def [symmetric] assms(3) [symmetric] Let_def bind.bind_lunit]
  have "sq_sent_queue sq' = sq_sent_queue sq1 \<and> sq_send_seq sq' = sq_send_seq sq1 \<and> sq_receive_seq sq' = sq_receive_seq sq1"
  proof (cases "r \<noteq> sq_receive_seq sq \<and> r > sq_send_seq sq \<and> sq_receive_seq sq \<noteq> 1")
    case True
    then show ?thesis using e assms(4) by auto
  next
    case False
    then have "sq1 = (if r \<noteq> sq_receive_seq sq then update_receive_seq F t r sq else sq)" using assms(4) by auto
    note e1 = e [unfolded if_not_P [OF False] this [symmetric]]
    then show ?thesis by (auto simp: notify_received_def receive_append_wake_def Let_def bind_eq_Some_conv)
  qed
  then show "sq_sent_queue sq' = sq_sent_queue sq1" "sq_send_seq sq' = sq_send_seq sq1" "sq_receive_seq sq' = sq_receive_seq sq1" by simp_all
qed

lemma seq_mask: "(ucast MESSAGE_SEQ_MASK :: u64) = mask 4"
  by (simp add: mask_eq_exp_minus_1)

lemma take_bit_seq_byte: "take_bit 4 (ucast (seq_byte s) :: u64) = take_bit 4 s"
  by (rule bit_word_eqI) (auto simp: seq_byte_def bit_simps bit_16 less_Suc_eq numeral_eq_Suc)

lemma take_bit_diff_cong: "take_bit 4 a = take_bit 4 b \<Longrightarrow> take_bit 4 (a - r) = take_bit 4 (b - r)" for a b r :: u64
proof (transfer, goal_cases)
  case (1 a b r)
  then have "take_bit 4 a = take_bit 4 b" by simp
  then have "take_bit 4 (a - r) = take_bit 4 (b - r)" by (simp only: take_bit_diff [of 4 a r, symmetric] take_bit_diff [of 4 b r, symmetric])
  then show ?case by simp
qed

lemma ack_seq_exact:
  assumes "unat r \<le> unat s" "unat s < unat r + 16"
  shows "ack_seq (seq_byte s) r = s"
proof -
  have "r \<le> s" using assms(1) by (simp add: word_le_nat_alt)
  then have d: "unat (s - r) < 16" using assms unat_sub [of r s] by simp
  have "(ucast (seq_byte s) - r) AND ucast MESSAGE_SEQ_MASK = take_bit 4 (ucast (seq_byte s) - r)"
    by (simp only: seq_mask take_bit_eq_mask)
  also have "\<dots> = take_bit 4 (s - r)" by (rule take_bit_diff_cong [OF take_bit_seq_byte])
  also have "\<dots> = s - r" using d by (intro word_unat_eq_iff [THEN iffD2]) (simp add: unsigned_take_bit_eq take_bit_nat_eq_self)
  finally show ?thesis by (simp only: ack_seq_def) simp
qed

lemma link_ok_drop:
  assumes "link_ok sq" "k \<le> length (sq_sent_queue sq)" "sq_sent_queue sq' = drop k (sq_sent_queue sq)"
    "sq_send_seq sq' = sq_send_seq sq" "sq_receive_seq sq' = sq_receive_seq sq + of_nat k" "unat (sq_receive_seq sq') = unat (sq_receive_seq sq) + k"
  shows "link_ok sq'"
proof -
  have "\<exists>payload. length payload \<le> 59
      \<and> qm_bytes (drop k (sq_sent_queue sq) ! i) = Some (frame (seq_byte (sq_receive_seq sq + of_nat k + of_nat i)) payload)"
    if "i < length (sq_sent_queue sq) - k" for i
  proof -
    have "k + i < length (sq_sent_queue sq)" using that by simp
    then obtain payload where "length payload \<le> 59"
      "qm_bytes (sq_sent_queue sq ! (k + i)) = Some (frame (seq_byte (sq_receive_seq sq + of_nat (k + i))) payload)"
      using assms(1) unfolding link_ok_def by blast
    then show ?thesis using that by (auto simp: add.assoc)
  qed
  then show ?thesis using assms by (auto simp: link_ok_def)
qed

lemma handle_ack_link:
  assumes "handle_message F t now len sq = Some sq'" "rd (sq_input_buf sq) MESSAGE_POS_SEQ = Some (seq_byte s)"
    and "link_ok sq" "unat (sq_receive_seq sq) \<le> unat s" "unat s \<le> unat (sq_send_seq sq)"
  shows "link_ok sq' \<and> sq_receive_seq sq' = s \<and> sq_send_seq sq' = sq_send_seq sq
     \<and> sq_sent_queue sq' = drop (unat s - unat (sq_receive_seq sq)) (sq_sent_queue sq)"
proof -
  define r where "r = sq_receive_seq sq"
  define k where "k = unat s - unat r"
  have l: "unat (sq_send_seq sq) = unat r + length (sq_sent_queue sq)" "length (sq_sent_queue sq) \<le> 12"
    using assms(3) by (simp_all add: link_ok_def r_def MAX_PENDING_BLOCKS_def)
  have k: "unat s = unat r + k" "k \<le> length (sq_sent_queue sq)" using assms(4,5) l by (simp_all add: k_def r_def)
  have s: "s = r + of_nat k" using arg_cong [OF k(1), of "of_nat :: nat \<Rightarrow> u64"] by simp
  have q: "ack_seq (seq_byte s) r = s" using ack_seq_exact [of r s] k l by simp
  note h = handle_message_link [OF assms(1,2) refl refl, unfolded r_def [symmetric] q]
  have le: "\<not> sq_send_seq sq < s" using assms(5) by (simp add: word_less_nat_alt)
  have b: "unat r + k < 2 ^ 64" using k(1) unsigned_less [of s, where ?'a = nat] by simp
  have e: "sq_receive_seq sq' = s \<and> sq_send_seq sq' = sq_send_seq sq \<and> sq_sent_queue sq' = drop k (sq_sent_queue sq)"
  proof (cases "k = 0")
    case True
    then show ?thesis using h s by (simp add: r_def)
  next
    case False
    then have "s \<noteq> r" using k(1) by auto
    then show ?thesis
      using h le ack_sent_drop [of k "sq_sent_queue sq" r F sq] False k(2) b
      by (simp add: update_receive_seq_link r_def [symmetric] s [symmetric])
  qed
  have "link_ok sq'" using link_ok_drop [OF assms(3) k(2)] e s k(1) by (simp add: r_def)
  then show ?thesis using e by (simp add: k_def r_def)
qed

section \<open>Retransmission\<close>

lemma copy_sent_all:
  "map qm_bytes ms = map Some blks \<Longrightarrow> length buf + length (concat blks) \<le> MESSAGE_MAX * MAX_PENDING_BLOCKS + 1 \<Longrightarrow>
     copy_sent ms buf = Some (buf @ concat blks)"
proof (induction ms arbitrary: buf blks)
  case (Cons m ms)
  then obtain b bs where "blks = b # bs" "qm_bytes m = Some b" "map qm_bytes ms = map Some bs" by (cases blks) auto
  then show ?case using Cons.IH [of bs "buf @ b"] Cons.prems(2) by simp
qed simp

lemma length_concat_le: "(\<And>b. b \<in> set bs \<Longrightarrow> length b \<le> m) \<Longrightarrow> length (concat bs) \<le> length bs * m"
proof (induction bs)
  case (Cons b bs)
  then have "length b \<le> m" "length (concat bs) \<le> length bs * m" by simp_all
  then show ?case by simp
qed simp

lemma link_ok_blocks:
  assumes "link_ok sq"
  obtains blks where "map qm_bytes (sq_sent_queue sq) = map Some blks" "length (concat blks) \<le> MESSAGE_MAX * MAX_PENDING_BLOCKS"
    "\<And>i. i < length blks \<Longrightarrow> \<exists>payload. length payload \<le> 59 \<and> blks ! i = frame (seq_byte (sq_receive_seq sq + of_nat i)) payload"
proof -
  define blks where "blks = map (the \<circ> qm_bytes) (sq_sent_queue sq)"
  have f: "\<exists>payload. length payload \<le> 59 \<and> qm_bytes (sq_sent_queue sq ! i) = Some (frame (seq_byte (sq_receive_seq sq + of_nat i)) payload)"
    if "i < length (sq_sent_queue sq)" for i using assms that by (simp add: link_ok_def)
  have m: "map qm_bytes (sq_sent_queue sq) = map Some blks"
    by (rule nth_equalityI) (use f in \<open>fastforce simp: blks_def\<close>)+
  have b: "\<exists>payload. length payload \<le> 59 \<and> blks ! i = frame (seq_byte (sq_receive_seq sq + of_nat i)) payload" if "i < length blks" for i
    using f [of i] that by (auto simp: blks_def)
  have "length b \<le> 64" if "b \<in> set blks" for b using that b by (fastforce simp: in_set_conv_nth)
  then have "length (concat blks) \<le> length blks * 64" by (rule length_concat_le)
  moreover have "length blks \<le> 12" using assms by (simp add: blks_def link_ok_def MAX_PENDING_BLOCKS_def)
  ultimately show ?thesis using that [OF m _ b] by (simp add: MAX_PENDING_BLOCKS_def)
qed

lemma retransmit_sends:
  assumes "link_ok sq"
  obtains blks w sq' where "map qm_bytes (sq_sent_queue sq) = map Some blks"
    "retransmit_event F wr now t sq = Some (w, sq')" "same_link sq sq'"
    "sq_output sq' = sq_output (do_write F wr now (MESSAGE_SYNC # concat blks) sq)"
proof -
  obtain blks where b: "map qm_bytes (sq_sent_queue sq) = map Some blks" "length (concat blks) \<le> MESSAGE_MAX * MAX_PENDING_BLOCKS"
    using link_ok_blocks [OF assms] by metis
  have c: "copy_sent (sq_sent_queue sq) [MESSAGE_SYNC] = Some (MESSAGE_SYNC # concat blks)"
    using copy_sent_all [OF b(1), of "[MESSAGE_SYNC]"] b(2) by simp
  have k: "same_link sq (do_write F wr now (MESSAGE_SYNC # concat blks) sq)" by (rule do_write_keeps)
  obtain w sq' where r: "retransmit_event F wr now t sq = Some (w, sq')"
    by (cases "retransmit_event F wr now t sq") (auto simp: retransmit_event_def c [unfolded MESSAGE_SYNC_def] Let_def)
  show ?thesis by (rule that [OF b(1) r]) (use r k in \<open>auto simp: retransmit_event_def c [unfolded MESSAGE_SYNC_def] Let_def same_link_def\<close>)
qed

end
