(* ===== verification/Stepcompress_Lib.thy ===== *)
theory Stepcompress_Lib
  imports Stepcompress
begin

text \<open>
  The compression search of \<open>klippy/chelper/stepcompress.c\<close>: the points of the queue and their bounds, the sequences
  that fit them, the invariant of the bisecting search, and the test of a move.
\<close>

section \<open>The points of a queue\<close>

text \<open>The time of queue entry \<open>i\<close> in ticks after the last step, and a queue in order of time.\<close>

definition pts :: "'d stepcompress \<Rightarrow> nat \<Rightarrow> nat" where
  "pts sc i = unat (sc_queue sc ! i - ucast (sc_last_step_clock sc))"

definition gap_error :: "'d stepcompress \<Rightarrow> nat \<Rightarrow> nat" where
  "gap_error sc i = min (unat (sc_max_error sc)) ((pts sc i - (if i = 0 then 0 else pts sc (i - 1))) div 2)"

definition queue_ok :: "'d stepcompress \<Rightarrow> bool" where
  "queue_ok sc \<longleftrightarrow> sc_queue sc \<noteq> [] \<and> 0 < pts sc 0 \<and> (\<forall>i. Suc i < length (sc_queue sc) \<longrightarrow> pts sc i \<le> pts sc (Suc i))
     \<and> (\<forall>i < length (sc_queue sc). pts sc i < 2 ^ 31)"

definition minp :: "'d stepcompress \<Rightarrow> nat \<Rightarrow> int" where
  "minp sc i = int (pts sc i) - int (gap_error sc i)"

definition maxp :: "'d stepcompress \<Rightarrow> nat \<Rightarrow> int" where
  "maxp sc i = int (pts sc i)"

lemma pts_prev: "queue_ok sc \<Longrightarrow> 0 < i \<Longrightarrow> i < length (sc_queue sc) \<Longrightarrow> pts sc (i - 1) \<le> pts sc i"
  by (cases i) (auto simp: queue_ok_def)

lemma sint_small: "unat (x :: u32) < 2 ^ 31 \<Longrightarrow> sint x = int (unat x)"
proof -
  assume "unat x < 2 ^ 31"
  then have "int (unat x) < 2 ^ 31" by (metis of_nat_less_iff of_nat_numeral of_nat_power)
  moreover have "- (2 ^ 31) \<le> int (unat x)" by (rule order_trans [OF _ of_nat_0_le_iff]) simp
  ultimately show ?thesis by (simp only: sint_uint uint_nat) (simp add: signed_take_bit_int_eq_self)
qed

lemma point_bounds:
  assumes "queue_ok sc" "i < length (sc_queue sc)"
  shows "0 \<le> minp sc i" "minp sc i \<le> maxp sc i" "maxp sc i < 2 ^ 31" "0 < i \<Longrightarrow> maxp sc (i - 1) \<le> minp sc i"
    "maxp sc i - minp sc i \<le> int (unat (sc_max_error sc))"
proof -
  let ?g = "pts sc i - (if i = 0 then 0 else pts sc (i - 1))"
  have g: "gap_error sc i \<le> ?g div 2" "gap_error sc i \<le> unat (sc_max_error sc)" by (simp_all add: gap_error_def)
  then have "gap_error sc i \<le> pts sc i" by (simp split: if_splits)
  then show "0 \<le> minp sc i" by (simp add: minp_def)
  show "minp sc i \<le> maxp sc i" by (simp add: minp_def maxp_def)
  show "maxp sc i < 2 ^ 31" using assms by (simp add: maxp_def queue_ok_def)
  show "maxp sc i - minp sc i \<le> int (unat (sc_max_error sc))"
    using g(2) [THEN iffD2 [OF of_nat_le_iff [where ?'a = int]]] by (simp add: maxp_def minp_def)
  show "maxp sc (i - 1) \<le> minp sc i" if "0 < i"
    using g(1) pts_prev [OF assms(1) that assms(2)] that by (simp add: maxp_def minp_def)
qed

lemma minmax_point_eq:
  assumes "queue_ok sc" "i < length (sc_queue sc)"
  shows "minmax_point sc i = Some (minp sc i, maxp sc i)"
proof -
  let ?l = "ucast (sc_last_step_clock sc) :: u32" and ?q = "sc_queue sc"
  define prev where "prev = (if i > 0 then ?q ! (i - 1) - ?l else 0)"
  define err where "err = (if (?q ! i - ?l - prev) div 2 > sc_max_error sc then sc_max_error sc else (?q ! i - ?l - prev) div 2)"
  have p31: "pts sc i < 2 ^ 31" using assms by (simp add: queue_ok_def)
  have m: "minmax_point sc i = Some (sint (?q ! i - ?l - err), sint (?q ! i - ?l))"
    using assms(2) by (auto simp: minmax_point_def rd_def prev_def err_def Let_def)
  have up: "unat prev = (if i = 0 then 0 else pts sc (i - 1))" by (simp add: prev_def pts_def)
  have le: "unat prev \<le> pts sc i" using pts_prev [OF assms(1) _ assms(2)] up by auto
  have "unat (?q ! i - ?l - prev) = pts sc i - unat prev"
    using le unfolding pts_def by (simp add: unat_sub_if')
  then have e: "unat err = gap_error sc i"
    by (auto simp: err_def gap_error_def up word_less_nat_alt unat_div_distrib)
  have b: "gap_error sc i \<le> pts sc i" using point_bounds(1) [OF assms] by (simp add: minp_def)
  have "unat (?q ! i - ?l - err) = pts sc i - gap_error sc i"
    using b e unfolding pts_def by (simp add: unat_sub_if')
  then have "sint (?q ! i - ?l - err) = minp sc i"
    using b p31 by (subst sint_small) (auto simp: minp_def)
  moreover have "sint (?q ! i - ?l) = maxp sc i"
    using p31 by (subst sint_small) (auto simp: maxp_def pts_def)
  ultimately show ?thesis using m by simp
qed

section \<open>Valid sequences\<close>

text \<open>Step \<open>k\<close> of a move comes \<open>step_at i a k\<close> ticks after the last step.\<close>

definition step_at :: "int \<Rightarrow> int \<Rightarrow> nat \<Rightarrow> int" where
  "step_at interval add k = interval * int k + add * (int k * (int k - 1) div 2)"

definition seq_valid :: "'d stepcompress \<Rightarrow> int \<Rightarrow> int \<Rightarrow> nat \<Rightarrow> bool" where
  "seq_valid sc interval add n \<longleftrightarrow> n \<le> length (sc_queue sc) \<and> (\<forall>k < n. minp sc k \<le> step_at interval add (Suc k) \<and> step_at interval add (Suc k) \<le> maxp sc k)"

lemma narrow_bounds:
  assumes "narrow add (int n + 1) (mn, mx) lo hi = Some (lo', hi')" "0 < n"
  shows "lo \<le> lo'" "hi' \<le> hi" "lo' \<le> i \<Longrightarrow> i \<le> hi' \<Longrightarrow> mn \<le> step_at i add (Suc n) \<and> step_at i add (Suc n) \<le> mx"
    "mn \<le> step_at hi add (Suc n) \<Longrightarrow> lo \<le> hi \<Longrightarrow> lo' \<le> hi" "step_at hi add (Suc n) < mn \<Longrightarrow> mn \<le> mx \<Longrightarrow> hi' = hi"
proof -
  let ?n = "int n + 1"
  from assms(1) obtain f where f: "addfactor ?n = Some f"
    and l: "lo * ?n < mn - add * f \<and> idiv_up (mn - add * f) ?n = Some lo' \<or> \<not> lo * ?n < mn - add * f \<and> lo' = lo"
    and h: "hi * ?n > mx - add * f \<and> idiv_down (mx - add * f) ?n = Some hi' \<or> \<not> hi * ?n > mx - add * f \<and> hi' = hi"
    by (auto simp: narrow_def i32_Some bind_eq_Some_conv split: if_splits)
  have s: "step_at i add (Suc n) = i * ?n + add * f" for i
    using addfactor_Some [OF f] assms(2) by (simp add: step_at_def algebra_simps)
  have n: "0 < ?n" by simp
  have lo': "mn - add * f \<le> lo' * ?n" using l idiv_up_ceil [OF _ n] by auto
  have hi': "hi' * ?n \<le> mx - add * f" using h idiv_down_floor [OF _ n] by auto
  show "lo \<le> lo'"
  proof (rule ccontr)
    assume "\<not> lo \<le> lo'"
    then have "lo' * ?n \<le> lo * ?n" by (intro mult_right_mono) auto
    then show False using l lo' \<open>\<not> lo \<le> lo'\<close> by linarith
  qed
  show "hi' \<le> hi"
  proof (rule ccontr)
    assume "\<not> hi' \<le> hi"
    then have "hi * ?n \<le> hi' * ?n" by (intro mult_right_mono) auto
    then show False using h hi' \<open>\<not> hi' \<le> hi\<close> by linarith
  qed
  show "mn \<le> step_at i add (Suc n) \<and> step_at i add (Suc n) \<le> mx" if "lo' \<le> i" "i \<le> hi'"
  proof -
    have "lo' * ?n \<le> i * ?n" "i * ?n \<le> hi' * ?n" using that by (simp_all add: mult_right_mono)
    then show ?thesis unfolding s using lo' hi' by linarith
  qed
  show "lo' \<le> hi" if a: "mn \<le> step_at hi add (Suc n)" "lo \<le> hi"
  proof (rule ccontr)
    assume "\<not> lo' \<le> hi"
    then have "hi * ?n \<le> (lo' - 1) * ?n" by (intro mult_right_mono) auto
    moreover have "(lo' - 1) * ?n < mn - add * f" using l idiv_up_ceil [OF _ n, of "mn - add * f" lo'] a(2) \<open>\<not> lo' \<le> hi\<close> by auto
    ultimately show False using a(1) unfolding s by linarith
  qed
  show "hi' = hi" if "step_at hi add (Suc n) < mn" "mn \<le> mx"
    using h that unfolding s by linarith
qed

lemma seq_valid_Suc:
  "seq_valid sc i add (Suc n) \<longleftrightarrow> seq_valid sc i add n \<and> Suc n \<le> length (sc_queue sc)
     \<and> minp sc n \<le> step_at i add (Suc n) \<and> step_at i add (Suc n) \<le> maxp sc n"
  by (auto simp: seq_valid_def less_Suc_eq)

text \<open>The result of the inner loop.\<close>

lemma extend_seq_valid:
  assumes "queue_ok sc" "qlast \<le> length (sc_queue sc)" "0 < n" "n \<le> qlast" "lo \<le> hi" "i = hi"
    and "\<And>x. lo \<le> x \<Longrightarrow> x \<le> hi \<Longrightarrow> seq_valid sc x add n"
    and "extend_seq sc qlast add n lo hi i = Some r"
  shows "case r of
      Inl (i', c) \<Rightarrow> c = int qlast \<and> seq_valid sc i' add qlast
    | Inr (nc, (lo', hi'), i', pt) \<Rightarrow> (\<exists>m. nc = int m + 1 \<and> 0 < m \<and> m < qlast \<and> seq_valid sc i' add m \<and> pt = (minp sc m, maxp sc m)
        \<and> lo \<le> i' \<and> i' \<le> hi \<and> lo \<le> lo' \<and> hi' \<le> i' \<and> lo' > hi'
        \<and> (if step_at i' add (Suc m) < minp sc m then hi' = i' else lo' \<le> i'))"
  using assms
proof (induction sc qlast add n lo hi i rule: extend_seq.induct)
  case (1 sc qlast add n lo hi i)
  show ?case
  proof (cases "n \<ge> qlast")
    case True
    then have "r = Inl (i, int n)" using "1.prems"(8) by (subst (asm) extend_seq.simps) simp
    then show ?thesis using True "1.prems"(4-7) by simp
  next
    case False
    then have nl: "n < length (sc_queue sc)" using "1.prems"(2) by simp
    note mm = minmax_point_eq [OF "1.prems"(1) nl]
    from "1.prems"(8) False obtain lo' hi' where nr: "narrow add (int n + 1) (minp sc n, maxp sc n) lo hi = Some (lo', hi')"
      by (subst (asm) extend_seq.simps) (auto simp: mm split: option.splits)
    note nb = narrow_bounds [OF nr "1.prems"(3)]
    show ?thesis
    proof (cases "lo' > hi'")
      case True
      then have "r = Inr (int n + 1, (lo', hi'), i, (minp sc n, maxp sc n))"
        using "1.prems"(8) False by (subst (asm) extend_seq.simps) (simp add: mm nr)
      moreover have "if step_at i add (Suc n) < minp sc n then hi' = i else lo' \<le> i"
        using nb(4,5) "1.prems"(5,6) point_bounds(2) [OF "1.prems"(1) nl] by auto
      ultimately show ?thesis using True False "1.prems"(3-7) nb(1,2) by auto
    next
      case le: False
      have e: "extend_seq sc qlast add (n + 1) lo' hi' hi' = Some r"
        using "1.prems"(8) False le by (subst (asm) extend_seq.simps) (simp add: mm nr)
      have "seq_valid sc x add (n + 1)" if "lo' \<le> x" "x \<le> hi'" for x
        using "1.prems"(7) [of x] nb(1,2) nb(3) [OF that] that nl by (simp add: seq_valid_Suc)
      then have "case r of
        Inl (i', c) \<Rightarrow> c = int qlast \<and> seq_valid sc i' add qlast
      | Inr (nc, (lo'', hi''), i', pt) \<Rightarrow> (\<exists>m. nc = int m + 1 \<and> 0 < m \<and> m < qlast \<and> seq_valid sc i' add m \<and> pt = (minp sc m, maxp sc m)
        \<and> lo' \<le> i' \<and> i' \<le> hi' \<and> lo' \<le> lo'' \<and> hi'' \<le> i' \<and> lo'' > hi''
        \<and> (if step_at i' add (Suc m) < minp sc m then hi'' = i' else lo'' \<le> i'))"
        using False le e "1.prems"(1,2) by (intro "1.IH" [OF False mm nr refl le]) auto
      then show ?thesis using nb(1,2) by (fastforce split: sum.splits)
    qed
  qed
qed

section \<open>The search for the best sequence\<close>

definition good_move :: "'d stepcompress \<Rightarrow> step_move \<Rightarrow> bool" where
  "good_move sc move \<longleftrightarrow> (\<exists>i a n. 0 < n \<and> n \<le> 65535 \<and> seq_valid sc i a n \<and> - 0x8000 \<le> a \<and> a \<le> 0x7fff
     \<and> move = \<lparr>sm_interval = word_of_int i, sm_count = word_of_int (int n), sm_add = word_of_int a\<rparr>)"

definition bounds_inv :: "'d stepcompress \<Rightarrow> bisect \<Rightarrow> bool" where
  "bounds_inv sc b \<longleftrightarrow> minp sc 0 \<le> bi_outer_mininterval b \<and> bi_outer_mininterval b \<le> bi_outer_maxinterval b
     \<and> bi_outer_maxinterval b \<le> maxp sc 0 \<and> - 0x8000 \<le> bi_minadd b \<and> bi_maxadd b \<le> 0x7fff"

definition best_inv :: "'d stepcompress \<Rightarrow> nat \<Rightarrow> bisect \<Rightarrow> bool" where
  "best_inv sc qlast b \<longleftrightarrow> (\<exists>n. 0 < n \<and> n \<le> qlast \<and> bi_bestcount b = int n \<and> seq_valid sc (bi_bestinterval b) (bi_bestadd b) n)
     \<and> - 0x8000 \<le> bi_bestadd b \<and> bi_bestadd b \<le> 0x7fff
     \<and> (\<exists>n. 0 < n \<and> n \<le> qlast \<and> bi_zerocount b = int n \<and> seq_valid sc (bi_zerointerval b) 0 n)"

lemma seq_valid_one: "seq_valid sc i a (Suc 0) \<longleftrightarrow> sc_queue sc \<noteq> [] \<and> minp sc 0 \<le> i \<and> i \<le> maxp sc 0"
  by (cases "sc_queue sc") (auto simp: seq_valid_def step_at_def)

lemma step_at_factor: "addfactor (int n) = Some f \<Longrightarrow> step_at i a n = a * f + i * int n"
proof -
  assume "addfactor (int n) = Some f"
  moreover have "0 \<le> int n * (int n - 1)" by (cases n) auto
  ultimately have "f = int n * (int n - 1) div 2" by (auto simp: addfactor_def i32_Some sdiv_nonneg bind_eq_Some_conv)
  then show ?thesis by (simp add: step_at_def)
qed

lemma bisect_best_cases:
  assumes "bisect_best add i n b = Some (stop, b')"
  obtains f where "addfactor n = Some f" "add * f + i * n \<le> bi_bestreach b" "b' = b"
  | f z where "addfactor n = Some f" "z = (if add = 0 then b\<lparr>bi_zerointerval := i, bi_zerocount := n\<rparr> else b)"
      "b' = z\<lparr>bi_bestinterval := i, bi_bestcount := n, bi_bestadd := add, bi_bestreach := add * f + i * n\<rparr>"
proof -
  from assms obtain f where f: "addfactor n = Some f" by (auto simp: bisect_best_def bind_eq_Some_conv)
  let ?r = "add * f + i * n"
  have r: "i32 (add * f) = Some (add * f)" "i32 (i * n) = Some (i * n)" "i32 ?r = Some ?r"
    using assms f by (auto simp: bisect_best_def bind_eq_Some_conv i32_Some)
  have eq: "(if ?r > bi_bestreach b \<or> (?r = bi_bestreach b \<and> i > bi_bestinterval b) then
         let b = b\<lparr>bi_bestinterval := i, bi_bestcount := n, bi_bestadd := add, bi_bestreach := ?r\<rparr>;
             b = (if add = 0 then b\<lparr>bi_zerointerval := i, bi_zerocount := n\<rparr> else b)
         in Some (n > 0x200, b)
       else Some (False, b)) = Some (stop, b')"
    using assms unfolding bisect_best_def f r bind.bind_lunit .
  show thesis
  proof (cases "?r > bi_bestreach b \<or> (?r = bi_bestreach b \<and> i > bi_bestinterval b)")
    case True
    have "b' = (if add = 0 then b\<lparr>bi_zerointerval := i, bi_zerocount := n\<rparr> else b)
        \<lparr>bi_bestinterval := i, bi_bestcount := n, bi_bestadd := add, bi_bestreach := ?r\<rparr>"
      using eq True by (cases "add = 0") (auto simp: Let_def)
    then show thesis using that(2) [OF f refl] by blast
  next
    case False
    have "b' = b" using eq unfolding if_not_P [OF False] by simp
    then show thesis using False that(1) [OF f] by linarith
  qed
qed

lemma best_kept:
  assumes "bisect_best add i (int m) b = Some (stop, b')" "0 < m" "m \<le> qlast" "seq_valid sc i add m" "- 0x8000 \<le> add" "add \<le> 0x7fff"
    and "best_inv sc qlast b \<or> add = 0 \<and> bi_bestreach b = - (2 ^ 31) \<and> queue_ok sc"
  shows "best_inv sc qlast b' \<and> bi_minadd b' = bi_minadd b \<and> bi_maxadd b' = bi_maxadd b
    \<and> bi_outer_mininterval b' = bi_outer_mininterval b \<and> bi_outer_maxinterval b' = bi_outer_maxinterval b"
  using assms(1)
proof (cases rule: bisect_best_cases)
  case (1 f)
  have "best_inv sc qlast b"
  proof (rule ccontr)
    assume "\<not> best_inv sc qlast b"
    then have q: "queue_ok sc" "bi_bestreach b = - (2 ^ 31)" using assms(7) by auto
    obtain k where k: "m = Suc k" using assms(2) by (cases m) auto
    then have "minp sc k \<le> step_at i add m" "k < length (sc_queue sc)" using assms(4) by (auto simp: seq_valid_def)
    then have "0 \<le> add * f + i * int m" using point_bounds(1) [OF q(1), of k] step_at_factor [OF 1(1), of i add] by linarith
    then show False using 1(2) q(2) by simp
  qed
  then show ?thesis using 1(3) by simp
next
  case (2 f z)
  have "bi_minadd z = bi_minadd b \<and> bi_maxadd z = bi_maxadd b
    \<and> bi_outer_mininterval z = bi_outer_mininterval b \<and> bi_outer_maxinterval z = bi_outer_maxinterval b" by (simp add: 2(2))
  moreover have "\<exists>n. 0 < n \<and> n \<le> qlast \<and> bi_zerocount z = int n \<and> seq_valid sc (bi_zerointerval z) 0 n"
  proof (cases "add = 0")
    case True
    then show ?thesis using assms(2-4) by (auto simp: 2(2))
  next
    case False
    then show ?thesis using assms(7) by (simp add: 2(2) best_inv_def)
  qed
  ultimately show ?thesis using assms(2-6) by (simp add: 2(3) best_inv_def)
qed

lemma best_inv_range [simp]:
  "best_inv sc qlast (b\<lparr>bi_minadd := x, bi_maxadd := y\<rparr>) = best_inv sc qlast b"
  "best_inv sc qlast (b\<lparr>bi_minadd := x\<rparr>) = best_inv sc qlast b" "best_inv sc qlast (b\<lparr>bi_maxadd := y\<rparr>) = best_inv sc qlast b"
  "best_inv sc qlast (b\<lparr>bi_outer_maxinterval := u\<rparr>) = best_inv sc qlast b" "best_inv sc qlast (b\<lparr>bi_outer_mininterval := u\<rparr>) = best_inv sc qlast b"
  by (simp_all add: best_inv_def)

lemma deviation_kept:
  assumes "bisect_deviation me add n b = Some b'"
  shows "\<exists>x y. b' = b\<lparr>bi_minadd := x, bi_maxadd := y\<rparr>"
proof (cases "n > 1")
  case True
  then obtain lo hi where "b' = (let b = (if bi_minadd b < lo then b\<lparr>bi_minadd := lo\<rparr> else b) in if bi_maxadd b > hi then b\<lparr>bi_maxadd := hi\<rparr> else b)"
    using assms by (auto simp: bisect_deviation_def Let_def bind_eq_Some_conv)
  then have "b' = b\<lparr>bi_minadd := (if bi_minadd b < lo then lo else bi_minadd b), bi_maxadd := (if bi_maxadd b > hi then hi else bi_maxadd b)\<rparr>"
    by (simp add: Let_def)
  then show ?thesis by blast
next
  case False
  then have "b' = b\<lparr>bi_minadd := bi_minadd b, bi_maxadd := bi_maxadd b\<rparr>" using assms by (simp add: bisect_deviation_def)
  then show ?thesis by blast
qed

lemma next_kept:
  assumes "bisect_next nc pt b = Some b'"
  shows "\<exists>x y. b' = b\<lparr>bi_minadd := x, bi_maxadd := y\<rparr>"
  using assms by (auto simp: bisect_next_def Let_def bind_eq_Some_conv)

lemma side_kept:
  assumes "bisect_side add i (int m + 1) (lo, hi) (mn, mx) b = Some b'"
  shows "best_inv sc qlast b' = best_inv sc qlast b"
    "if step_at i add (Suc m) < mn then b' = b\<lparr>bi_minadd := add + 1, bi_outer_maxinterval := hi\<rparr>
     else b' = b\<lparr>bi_maxadd := add - 1, bi_outer_mininterval := lo\<rparr>"
proof -
  from assms obtain f where f: "addfactor (int (Suc m)) = Some f"
    by (auto simp: bisect_side_def bind_eq_Some_conv add.commute)
  then show "if step_at i add (Suc m) < mn then b' = b\<lparr>bi_minadd := add + 1, bi_outer_maxinterval := hi\<rparr>
     else b' = b\<lparr>bi_maxadd := add - 1, bi_outer_mininterval := lo\<rparr>"
    using assms step_at_factor [OF f, of i add]
    by (auto simp: bisect_side_def bind_eq_Some_conv i32_Some add.commute split: if_splits)
  then show "best_inv sc qlast b' = best_inv sc qlast b"
    by (cases "step_at i add (Suc m) < mn") (simp_all add: best_inv_def)
qed

lemma bisect_step_inv:
  assumes "queue_ok sc" "qlast \<le> length (sc_queue sc)" "0 < qlast" "qlast \<le> 65535" "bounds_inv sc b"
    and "bi_minadd b \<le> add" "add \<le> bi_maxadd b"
    and "best_inv sc qlast b \<or> add = 0 \<and> bi_bestreach b = - (2 ^ 31)"
    and "bisect_step sc qlast add b = Some r"
  shows "case r of Inl move \<Rightarrow> good_move sc move | Inr (stop, b') \<Rightarrow> best_inv sc qlast b' \<and> (stop \<or> bounds_inv sc b')"
proof -
  let ?lo = "bi_outer_mininterval b" and ?hi = "bi_outer_maxinterval b"
  have a: "- 0x8000 \<le> add" "add \<le> 0x7fff" using assms(5-7) by (auto simp: bounds_inv_def)
  obtain e where e: "extend_seq sc qlast add 1 ?lo ?hi ?hi = Some e"
    using assms(9) by (auto simp: bisect_step_def bind_eq_Some_conv)
  have one: "seq_valid sc x add 1" if "?lo \<le> x" "x \<le> ?hi" for x
    using that assms(1,5) by (auto simp: seq_valid_one bounds_inv_def queue_ok_def)
  have ev: "case e of
      Inl (i', c) \<Rightarrow> c = int qlast \<and> seq_valid sc i' add qlast
    | Inr (nc, (lo', hi'), i', pt) \<Rightarrow> (\<exists>m. nc = int m + 1 \<and> 0 < m \<and> m < qlast \<and> seq_valid sc i' add m \<and> pt = (minp sc m, maxp sc m)
        \<and> ?lo \<le> i' \<and> i' \<le> ?hi \<and> ?lo \<le> lo' \<and> hi' \<le> i' \<and> lo' > hi'
        \<and> (if step_at i' add (Suc m) < minp sc m then hi' = i' else lo' \<le> i'))"
    using assms(3,5) one e by (intro extend_seq_valid [OF assms(1,2)]) (auto simp: bounds_inv_def)
  show ?thesis
  proof (cases e)
    case (Inl p)
    then obtain i where "r = Inl \<lparr>sm_interval = word_of_int i, sm_count = word_of_int (int qlast), sm_add = word_of_int add\<rparr>"
      "seq_valid sc i add qlast" using ev assms(9) by (cases p) (auto simp: bisect_step_def e [unfolded One_nat_def])
    then show ?thesis using assms(3,4) a by (auto simp: good_move_def)
  next
    case (Inr p)
    then obtain m lo' hi' i where p: "p = (int m + 1, (lo', hi'), i, (minp sc m, maxp sc m))" "0 < m" "m < qlast" "seq_valid sc i add m"
      "?lo \<le> i" "i \<le> ?hi" "?lo \<le> lo'" "hi' \<le> i" "if step_at i add (Suc m) < minp sc m then hi' = i else lo' \<le> i"
      using ev by (cases p) auto
    note e' = e [unfolded Inr p(1) One_nat_def]
    obtain stop b1 where b1: "bisect_best add i (int m) b = Some (stop, b1)"
      using assms(9) by (auto simp: bisect_step_def e' bind_eq_Some_conv)
    have bk: "best_inv sc qlast b \<or> add = 0 \<and> bi_bestreach b = - (2 ^ 31) \<and> queue_ok sc" using assms(1,8) by auto
    have k1: "best_inv sc qlast b1" "bi_minadd b1 = bi_minadd b" "bi_maxadd b1 = bi_maxadd b"
      "bi_outer_mininterval b1 = ?lo" "bi_outer_maxinterval b1 = ?hi"
      using best_kept [OF b1 p(2) less_imp_le [OF p(3)] p(4) a bk] by blast+
    show ?thesis
    proof (cases stop)
      case True
      then show ?thesis using assms(9) k1(1) by (auto simp: bisect_step_def e' b1)
    next
      case False
      then obtain b2 b3 b4 where s: "bisect_side add i (int m + 1) (lo', hi') (minp sc m, maxp sc m) b1 = Some b2"
        "bisect_deviation (sc_max_error sc) add (int m) b2 = Some b3" "bisect_next (int m + 1) (minp sc m, maxp sc m) b3 = Some b4"
        "r = Inr (False, b4)"
        using assms(9) by (auto simp: bisect_step_def e' b1 bind_eq_Some_conv)
      have inv2: "bounds_inv sc b2"
        using side_kept(2) [OF s(1)] assms(5-7) p(5-9) k1(2-5) by (auto simp: bounds_inv_def split: if_splits)
      obtain x y x' y' where k: "b3 = b2\<lparr>bi_minadd := x, bi_maxadd := y\<rparr>" "b4 = b3\<lparr>bi_minadd := x', bi_maxadd := y'\<rparr>"
        using deviation_kept [OF s(2)] next_kept [OF s(3)] by blast
      have "bounds_inv sc b4"
        using inv2 bisect_deviation_range [OF s(2)] bisect_next_range [OF s(3)] p(2) by (simp add: bounds_inv_def k)
      moreover have "best_inv sc qlast b4" using k1(1) side_kept(1) [OF s(1), of sc qlast] by (simp add: k)
      ultimately show ?thesis using s(4) by simp
    qed
  qed
qed

lemma best_result_good:
  assumes "best_inv sc qlast b" "qlast \<le> 65535"
  shows "good_move sc (bisect_result b)"
proof -
  from assms obtain n k where n: "0 < n" "n \<le> 65535" "bi_bestcount b = int n" "seq_valid sc (bi_bestinterval b) (bi_bestadd b) n"
      "- 0x8000 \<le> bi_bestadd b" "bi_bestadd b \<le> 0x7fff"
    and k: "0 < k" "k \<le> 65535" "bi_zerocount b = int k" "seq_valid sc (bi_zerointerval b) 0 k"
    by (auto simp: best_inv_def)
  show ?thesis
  proof (cases "bi_zerocount b + bi_zerocount b sdiv 16 \<ge> bi_bestcount b")
    case True
    then show ?thesis unfolding good_move_def bisect_result_def using k
      by (intro exI [of _ "bi_zerointerval b"] exI [of _ 0] exI [of _ k]) simp
  next
    case False
    then show ?thesis unfolding good_move_def bisect_result_def using n
      by (intro exI [of _ "bi_bestinterval b"] exI [of _ "bi_bestadd b"] exI [of _ n]) simp
  qed
qed

lemma bisect_loop_good:
  assumes "queue_ok sc" "qlast \<le> length (sc_queue sc)" "0 < qlast" "qlast \<le> 65535" "bounds_inv sc b" "best_inv sc qlast b"
    and "bisect_loop sc qlast b = Some move"
  shows "good_move sc move"
  using assms
proof (induction sc qlast b rule: bisect_loop.induct)
  case (1 sc qlast b)
  let ?add = "bi_maxadd b - (bi_maxadd b - bi_minadd b) sdiv 4"
  show ?case
  proof (cases "bi_minadd b > bi_maxadd b")
    case True
    then have "move = bisect_result b" using "1.prems"(7) by (subst (asm) bisect_loop.simps) simp
    then show ?thesis using best_result_good "1.prems" by blast
  next
    case False
    then have add: "bi_minadd b \<le> ?add" "?add \<le> bi_maxadd b" by (simp_all add: sdiv_nonneg)
    obtain r where r: "bisect_step sc qlast ?add b = Some r"
      using "1.prems"(7) False by (subst (asm) bisect_loop.simps) (auto split: option.splits)
    note si = bisect_step_inv [OF "1.prems"(1-5) add disjI1 [OF "1.prems"(6)] r]
    show ?thesis
    proof (cases r)
      case (Inl m)
      then show ?thesis using si "1.prems"(7) False r by (subst (asm) bisect_loop.simps) auto
    next
      case (Inr p)
      obtain stop b' where p: "p = (stop, b')" by (cases p)
      show ?thesis
      proof (cases stop)
        case True
        then show ?thesis using si Inr p "1.prems"(4,7) False r best_result_good
          by (subst (asm) bisect_loop.simps) auto
      next
        case ns: False
        have l: "bisect_loop sc qlast b' = Some move"
          using Inr p "1.prems"(7) False r ns by (subst (asm) bisect_loop.simps) auto
        show ?thesis
          using "1.IH" [OF False r Inr p [symmetric] ns "1.prems"(1-4) _ _ l] si Inr p ns by simp
      qed
    qed
  qed
qed

lemma compress_good:
  assumes "queue_ok sc" "compress_bisect_add sc = Some move"
  shows "good_move sc move"
proof -
  let ?q = "if length (sc_queue sc) > 65535 then 65535 else length (sc_queue sc)"
  let ?b = "\<lparr>bi_minadd = - 0x8000, bi_maxadd = 0x7fff, bi_outer_mininterval = minp sc 0, bi_outer_maxinterval = maxp sc 0,
                bi_bestinterval = 0, bi_bestcount = 1, bi_bestadd = 1, bi_bestreach = - (2 ^ 31), bi_zerointerval = 0,
                bi_zerocount = 0\<rparr>"
  have l: "0 < length (sc_queue sc)" using assms(1) by (simp add: queue_ok_def)
  note mm = minmax_point_eq [OF assms(1) l]
  have q: "?q \<le> length (sc_queue sc)" "0 < ?q" "?q \<le> 65535" using l by auto
  have b: "bounds_inv sc ?b" using point_bounds(2) [OF assms(1) l] by (simp add: bounds_inv_def)
  obtain r where r: "bisect_step sc ?q 0 ?b = Some r"
    using assms(2) by (auto simp: compress_bisect_add_def mm Let_def bind_eq_Some_conv)
  note si = bisect_step_inv [OF assms(1) q b _ _ disjI2 r]
  have si: "case r of Inl move \<Rightarrow> good_move sc move | Inr (stop, b') \<Rightarrow> best_inv sc ?q b' \<and> (stop \<or> bounds_inv sc b')"
    by (rule si) simp_all
  show ?thesis
  proof (cases r)
    case (Inl m)
    then show ?thesis using si assms(2) r by (simp add: compress_bisect_add_def mm Let_def)
  next
    case (Inr p)
    obtain stop b' where p: "p = (stop, b')" by (cases p)
    have "(if stop then Some (bisect_result b') else bisect_loop sc ?q b') = Some move"
      using assms(2) r Inr p by (simp add: compress_bisect_add_def mm Let_def)
    then show ?thesis
      using si Inr p best_result_good [OF _ q(3)] bisect_loop_good [OF assms(1) q] by (auto split: if_splits)
  qed
qed

section \<open>The check of a move\<close>

text \<open>Step \<open>k\<close> of a move in the 32 bit arithmetic of the clock, and its interval before that step.\<close>

definition step_off :: "step_move \<Rightarrow> nat \<Rightarrow> u32" where
  "step_off m k = of_nat k * sm_interval m + of_nat (k * (k - 1) div 2) * scast (sm_add m)"

lemma tri_next: "Suc k * k div 2 = k * (k - 1) div 2 + k"
proof (cases k)
  case (Suc j)
  have "even (Suc j * j)" by simp
  then show ?thesis unfolding Suc by (auto simp: algebra_simps elim!: evenE)
qed simp

lemma step_off_Suc: "step_off m (Suc k) = step_off m k + (sm_interval m + of_nat k * scast (sm_add m))"
  unfolding step_off_def diff_Suc_1 tri_next by (simp add: algebra_simps)

lemma check_points_iff:
  "check_points sc i n (step_off m i) (sm_interval m + of_nat i * scast (sm_add m)) (sm_add m) = Some 0 \<longleftrightarrow>
   (\<forall>j. i \<le> j \<and> j < i + n \<longrightarrow> (\<exists>pt. minmax_point sc j = Some pt \<and> word_of_int (fst pt) \<le> step_off m (Suc j)
       \<and> step_off m (Suc j) \<le> word_of_int (snd pt) \<and> sm_interval m + of_nat j * scast (sm_add m) < 0x80000000))"
proof (induction n arbitrary: i)
  case (Suc n)
  let ?iv = "sm_interval m + of_nat i * scast (sm_add m)"
  have iv: "?iv + scast (sm_add m) = sm_interval m + of_nat (Suc i) * scast (sm_add m)" by (simp add: algebra_simps)
  have st: "step_off m i + ?iv = step_off m (Suc i)" by (simp add: step_off_Suc)
  have all: "(\<forall>j. i \<le> j \<and> j < i + Suc n \<longrightarrow> P j) \<longleftrightarrow> P i \<and> (\<forall>j. Suc i \<le> j \<and> j < Suc i + n \<longrightarrow> P j)" for P
  proof -
    have "{j. i \<le> j \<and> j < i + Suc n} = insert i {j. Suc i \<le> j \<and> j < Suc i + n}" by auto
    then show ?thesis by (metis (mono_tags, lifting) insert_iff mem_Collect_eq)
  qed
  show ?case
  proof (cases "minmax_point sc i")
    case None
    then show ?thesis unfolding all by simp
  next
    case (Some pt)
    show ?thesis
      unfolding all check_points.simps Some option.case Let_def st iv Suc.IH [symmetric] Suc_eq_plus1 [symmetric]
      by (auto simp: ERROR_RET_def not_less not_le)
  qed
qed auto

lemma check_line_iff:
  "check_line sc m = Some 0 \<longleftrightarrow> sm_count m \<noteq> 0 \<and> \<not> (sm_interval m = 0 \<and> sm_add m = 0 \<and> sm_count m > 1) \<and> sm_interval m < 0x80000000
    \<and> (\<forall>j < unat (sm_count m). \<exists>pt. minmax_point sc j = Some pt \<and> word_of_int (fst pt) \<le> step_off m (Suc j)
       \<and> step_off m (Suc j) \<le> word_of_int (snd pt) \<and> sm_interval m + of_nat j * scast (sm_add m) < 0x80000000)"
  using check_points_iff [of sc 0 "unat (sm_count m)" m]
  by (auto simp: check_line_def step_off_def ERROR_RET_def not_le)

lemma step_off_step_at:
  assumes "m = \<lparr>sm_interval = word_of_int i, sm_count = c, sm_add = word_of_int a\<rparr>" "- 0x8000 \<le> a" "a \<le> 0x7fff"
  shows "step_off m k = word_of_int (step_at i a k)" "scast (sm_add m) = (word_of_int a :: u32)"
proof -
  have "sint (word_of_int a :: u16) = a" using assms(2,3) by (simp add: signed_of_int signed_take_bit_int_eq_self)
  then show sc: "scast (sm_add m) = (word_of_int a :: u32)" by (simp add: assms(1) scast_eq)
  have t: "of_nat (k * (k - 1) div 2) = (word_of_int (int k * (int k - 1) div 2) :: u32)"
  proof -
    have "int (k * (k - 1) div 2) = int k * (int k - 1) div 2" by (cases k) (simp_all add: zdiv_int algebra_simps)
    then show ?thesis by (metis of_int_of_nat_eq)
  qed
  show "step_off m k = word_of_int (step_at i a k)"
    unfolding step_off_def sc t step_at_def by (simp add: assms(1) mult.commute)
qed

lemma word_of_int_le:
  assumes "0 \<le> x" "x \<le> y" "y < 2 ^ 32"
  shows "(word_of_int x :: u32) \<le> word_of_int y"
  using assms by (simp only: word_le_def unsigned_of_int) (simp add: take_bit_int_eq_self)

lemma word_of_int_less_31: "0 \<le> x \<Longrightarrow> x < 2 ^ 31 \<Longrightarrow> (word_of_int x :: u32) < 0x80000000"
  by (simp only: word_less_def unsigned_of_int) (simp add: take_bit_int_eq_self)

lemma good_move_passes:
  assumes "queue_ok sc" "good_move sc m"
  shows "check_line sc m = Some 0"
proof -
  from assms(2) obtain i a n where v: "0 < n" "n \<le> 65535" "seq_valid sc i a n" "- 0x8000 \<le> a" "a \<le> 0x7fff"
    and m: "m = \<lparr>sm_interval = word_of_int i, sm_count = word_of_int (int n), sm_add = word_of_int a\<rparr>"
    by (auto simp: good_move_def)
  note so = step_off_step_at [OF m v(4,5)]
  have c: "unat (sm_count m) = n" using v(2) by (simp add: m unat_of_nat)
  have nl: "n \<le> length (sc_queue sc)" using v(3) by (simp add: seq_valid_def)
  have pt: "minp sc k \<le> step_at i a (Suc k)" "step_at i a (Suc k) \<le> maxp sc k" "0 \<le> minp sc k" "maxp sc k < 2 ^ 31" if "k < n" for k
    using v(3) that point_bounds [OF assms(1), of k] nl by (auto simp: seq_valid_def)
  have iv: "0 \<le> i + int k * a \<and> i + int k * a < 2 ^ 31" if "k < n" for k
  proof -
    have s: "i + int k * a = step_at i a (Suc k) - step_at i a k"
    proof -
      have "int (Suc k) * (int (Suc k) - 1) div 2 = int k * (int k - 1) div 2 + int k"
        using arg_cong [OF tri_next [of k], of int] by (cases k) (simp_all add: algebra_simps zdiv_int)
      then show ?thesis unfolding step_at_def by (simp add: algebra_simps)
    qed
    show ?thesis
    proof (cases k)
      case 0
      then show ?thesis using s pt [OF that] by (simp add: step_at_def)
    next
      case (Suc j)
      then have "step_at i a k \<le> maxp sc j" "minp sc j \<le> step_at i a k" "0 \<le> minp sc j" using pt [of j] that by auto
      moreover have "maxp sc j \<le> minp sc k" using point_bounds(4) [OF assms(1), of k] Suc that nl by auto
      ultimately show ?thesis using s pt [OF that] by linarith
    qed
  qed
  have pos: "0 < maxp sc 0" using assms(1) by (simp add: maxp_def queue_ok_def)
  have nz: "\<not> (i = 0 \<and> a = 0 \<and> n > 1)"
  proof
    assume z: "i = 0 \<and> a = 0 \<and> n > 1"
    then have "minp sc 1 \<le> 0" using pt(1) [of 1] by (simp add: step_at_def)
    moreover have "maxp sc 0 \<le> minp sc 1" using point_bounds(4) [OF assms(1), of 1] z nl by auto
    ultimately show False using pos by simp
  qed
  have i: "0 \<le> i" "i < 2 ^ 31" using iv [of 0] v(1) by auto
  have "uint (sm_interval m) = i" using i by (simp add: m unsigned_of_int take_bit_int_eq_self)
  moreover have "sint (sm_add m) = a" using v(4,5) by (simp add: m signed_of_int signed_take_bit_int_eq_self)
  ultimately have z: "sm_interval m = 0 \<Longrightarrow> i = 0" "sm_add m = 0 \<Longrightarrow> a = 0" by auto
  show ?thesis
    unfolding check_line_iff c
  proof (intro conjI allI impI)
    show "sm_count m \<noteq> 0" using c v(1) by auto
    show "\<not> (sm_interval m = 0 \<and> sm_add m = 0 \<and> sm_count m > 1)" using nz z c by (auto simp: word_less_nat_alt)
    show "sm_interval m < 0x80000000" using i word_of_int_less_31 [of i] by (simp add: m)
    fix k assume k: "k < n"
    have kl: "k < length (sc_queue sc)" using k nl by simp
    have ivk: "sm_interval m + of_nat k * scast (sm_add m) = word_of_int (i + int k * a)" unfolding so(2) by (simp add: m)
    have le: "word_of_int (minp sc k) \<le> step_off m (Suc k)" "step_off m (Suc k) \<le> word_of_int (maxp sc k)"
      unfolding so(1) using pt [OF k] by (auto intro!: word_of_int_le)
    show "\<exists>pt. minmax_point sc k = Some pt \<and> word_of_int (fst pt) \<le> step_off m (Suc k) \<and> step_off m (Suc k) \<le> word_of_int (snd pt)
        \<and> sm_interval m + of_nat k * scast (sm_add m) < 0x80000000"
      unfolding minmax_point_eq [OF assms(1) kl] ivk using le word_of_int_less_31 [of "i + int k * a"] iv [OF k] by auto
  qed
qed


lemma minmax_point_shape:
  assumes "minmax_point sc j = Some pt"
  shows "j < length (sc_queue sc)"
    and "\<exists>e \<le> sc_max_error sc. pt = (sint (sc_queue sc ! j - ucast (sc_last_step_clock sc) - e), sint (sc_queue sc ! j - ucast (sc_last_step_clock sc)))"
proof -
  show j: "j < length (sc_queue sc)"
    by (rule ccontr) (use assms in \<open>simp add: minmax_point_def rd_def\<close>)
  let ?p = "sc_queue sc ! j - ucast (sc_last_step_clock sc)"
  define e where "e = (?p - (if j > 0 then sc_queue sc ! (j - 1) - ucast (sc_last_step_clock sc) else 0)) div 2"
  have "minmax_point sc j = Some (sint (?p - (if e > sc_max_error sc then sc_max_error sc else e)), sint ?p)"
    using j less_imp_diff_less [OF j, of 1] by (simp add: minmax_point_def rd_def Let_def e_def)
  then have "pt = (sint (?p - (if e > sc_max_error sc then sc_max_error sc else e)), sint ?p)" using assms by simp
  then show "\<exists>e \<le> sc_max_error sc. pt = (sint (sc_queue sc ! j - ucast (sc_last_step_clock sc) - e), sint (sc_queue sc ! j - ucast (sc_last_step_clock sc)))"
    by (intro exI [of _ "if e > sc_max_error sc then sc_max_error sc else e"]) (simp add: not_less)
qed

lemma check_line_error:
  assumes "check_line sc m = Some 0" "j < unat (sm_count m)"
  shows "j < length (sc_queue sc)
     \<and> unat (sc_queue sc ! j - (ucast (sc_last_step_clock sc) + step_off m (Suc j))) \<le> unat (sc_max_error sc)"
proof -
  let ?p = "sc_queue sc ! j - ucast (sc_last_step_clock sc)" and ?s = "step_off m (Suc j)"
  from assms obtain pt where pt: "minmax_point sc j = Some pt" "word_of_int (fst pt) \<le> ?s" "?s \<le> word_of_int (snd pt)"
    by (auto simp: check_line_iff)
  obtain e where e: "e \<le> sc_max_error sc" "pt = (sint (?p - e), sint ?p)" using minmax_point_shape(2) [OF pt(1)] by blast
  have le: "unat (?p - e) \<le> unat ?s" "unat ?s \<le> unat ?p" using pt(2,3) e(2) by (simp_all add: word_le_nat_alt)
  have "unat ((?p - e) + e) \<le> unat (?p - e) + unat e" by (simp only: unat_word_ariths(1) mod_less_eq_dividend)
  then have p: "unat ?p \<le> unat (?p - e) + unat e" by (simp only: diff_add_cancel)
  have "?s \<le> ?p" using le(2) by (simp add: word_le_nat_alt)
  then have d: "unat (?p - ?s) = unat ?p - unat ?s" by (rule unat_sub)
  have "unat (?p - ?s) \<le> unat (sc_max_error sc)" using d le p e(1) unfolding word_le_nat_alt by linarith
  then show ?thesis using minmax_point_shape(1) [OF pt(1)] by (simp only: diff_diff_eq)
qed

end
