(* ===== verification/Stepcompress_Props.thy ===== *)
theory Stepcompress_Props
  imports Stepcompress_Lib Msgblock_Props
begin

text \<open>
  The flush of the step queue of \<open>klippy/chelper/stepcompress.c\<close>: which moves it sends, that the search and the flush
  return, and what the code does at the limits of its arithmetic.
\<close>

section \<open>Flushing the queue\<close>

text \<open>The clocks of the steps of a sequence of moves that starts after clock \<open>t\<close>, and the clock after the last.\<close>

fun move_times :: "u32 \<Rightarrow> step_move list \<Rightarrow> u32 list" where
  "move_times t [] = []"
| "move_times t (m # ms) =
     map (\<lambda>k. t + step_off m (Suc k)) [0..<unat (sm_count m)] @ move_times (t + step_off m (unat (sm_count m))) ms"

fun move_end :: "u32 \<Rightarrow> step_move list \<Rightarrow> u32" where
  "move_end t [] = t"
| "move_end t (m # ms) = move_end (t + step_off m (unat (sm_count m))) ms"

text \<open>The message of a move, as the command data that goes to the micro-controller.\<close>

definition step_data :: "'d stepcompress \<Rightarrow> step_move \<Rightarrow> u8 list" where
  "step_data sc m = concat (map encode_int [sc_queue_step_msgtag sc, sc_oid sc, sm_interval m, ucast (sm_count m), scast (sm_add m)])"

definition qm_data :: "'d queue_message \<Rightarrow> u8 list" where
  "qm_data qm = take (qm_len qm) (qm_msg qm)"

lemma encode_int_le: "length (encode_int v) \<le> 5"
  using encode_int_length [of v] by simp

lemma step_data_le: "length (step_data sc m) \<le> MESSAGE_PAYLOAD_MAX"
  using encode_int_le [of "sc_queue_step_msgtag sc"] encode_int_le [of "sc_oid sc"] encode_int_le [of "sm_interval m"]
    encode_int_le [of "ucast (sm_count m)"] encode_int_le [of "scast (sm_add m)"]
  by (simp add: step_data_def)

lemma ucast_add_down: "ucast (x + y :: u64) = (ucast x + ucast y :: u32)"
proof -
  have "(word_of_int (uint (x + y)) :: u32) = word_of_int (take_bit 64 (uint x + uint y))" by (simp add: uint_word_ariths take_bit_eq_mod)
  also have "\<dots> = word_of_int (uint x + uint y)" by (rule word_of_int_eq_iff [THEN iffD2]) simp
  finally show ?thesis by (simp only: ucast_eq of_int_add)
qed

lemma ucast_up_down: "ucast (ucast (x :: u32) :: u64) = x"
proof -
  have "uint (ucast x :: u64) = uint x" by (rule uint_up_ucast) (simp add: is_up)
  then show ?thesis by (simp only: ucast_eq word_of_int_uint)
qed

lemma addfactor_exact: "addfactor n = Some f \<Longrightarrow> 1 \<le> n \<Longrightarrow> f = n * (n - 1) div 2"
  by (auto simp: addfactor_def i32_Some sdiv_nonneg bind_eq_Some_conv)

lemma move_ticks_off:
  assumes "move_ticks m = Some ticks" "0 < unat (sm_count m)"
  shows "sm_interval m + ticks = step_off m (unat (sm_count m))"
proof -
  obtain k where k: "unat (sm_count m) = Suc k" using assms(2) by (cases "unat (sm_count m)") auto
  have t: "ticks = word_of_int (sint (sm_add m) * (int (Suc k) * int k div 2)) + sm_interval m * word_of_int (int k)"
    using assms(1) by (auto simp: move_ticks_def k Let_def bind_eq_Some_conv i32_Some dest!: addfactor_exact)
  have "int (Suc k) * int k div 2 = int (Suc k * k div 2)" by (simp add: zdiv_int algebra_simps)
  then have "ticks = scast (sm_add m) * of_nat (Suc k * k div 2) + sm_interval m * of_nat k"
    unfolding t by (simp only: of_int_mult of_int_of_nat_eq scast_eq)
  then show ?thesis unfolding k step_off_def by (simp add: algebra_simps)
qed

lemma add_move_effect:
  assumes "add_move F (sc_last_step_clock sc + ucast (sm_interval m)) m sc = Some sc'" "0 < unat (sm_count m)"
  shows "\<exists>qm. sc_msg_queue sc' = sc_msg_queue sc @ [qm] \<and> qm_data qm = step_data sc m"
    and "ucast (sc_last_step_clock sc') = (ucast (sc_last_step_clock sc) + step_off m (unat (sm_count m)) :: u32)"
    and "sc_max_error sc' = sc_max_error sc \<and> sc_queue_step_msgtag sc' = sc_queue_step_msgtag sc \<and> sc_oid sc' = sc_oid sc"
proof -
  from assms(1) obtain ticks qm where t: "move_ticks m = Some ticks"
    and qm: "message_alloc_and_encode F [sc_queue_step_msgtag sc, sc_oid sc, sm_interval m, ucast (sm_count m), scast (sm_add m)] = Some qm"
    by (auto simp: add_move_def bind_eq_Some_conv Let_def)
  have sc': "\<exists>qm'. qm_msg qm' = qm_msg qm \<and> qm_len qm' = qm_len qm \<and> sc_msg_queue sc' = sc_msg_queue sc @ [qm']"
    "sc_last_step_clock sc' = sc_last_step_clock sc + ucast (sm_interval m) + ucast ticks"
    "sc_max_error sc' = sc_max_error sc" "sc_queue_step_msgtag sc' = sc_queue_step_msgtag sc" "sc_oid sc' = sc_oid sc"
    using assms(1) unfolding add_move_def t qm by (auto simp: Let_def split: if_splits)
  have "qm_data qm = step_data sc m"
    using message_encode [of "[sc_queue_step_msgtag sc, sc_oid sc, sm_interval m, ucast (sm_count m), scast (sm_add m)]" F] qm step_data_le [of sc m]
    unfolding qm_data_def step_data_def by (auto split: if_splits)
  then show "\<exists>qm. sc_msg_queue sc' = sc_msg_queue sc @ [qm] \<and> qm_data qm = step_data sc m"
    using sc'(1) by (auto simp: qm_data_def)
  show "ucast (sc_last_step_clock sc') = (ucast (sc_last_step_clock sc) + step_off m (unat (sm_count m)) :: u32)"
    unfolding sc'(2) move_ticks_off [OF t assms(2), symmetric] unfolding ucast_add_down ucast_up_down by simp
  show "sc_max_error sc' = sc_max_error sc \<and> sc_queue_step_msgtag sc' = sc_queue_step_msgtag sc \<and> sc_oid sc' = sc_oid sc"
    using sc' by simp
qed

text \<open>
  \<open>ms\<close> are the moves a flush has sent: one message each, their steps are those of the head of the queue, each at most
  \<open>max_error\<close> clock ticks before the clock that was asked for.
\<close>

definition moves_sent :: "'d stepcompress \<Rightarrow> step_move list \<Rightarrow> 'd stepcompress \<Rightarrow> bool" where
  "moves_sent sc ms sc' \<longleftrightarrow>
     (\<exists>qms. sc_msg_queue sc' = sc_msg_queue sc @ qms \<and> map qm_data qms = map (step_data sc) ms)
     \<and> (let ts = move_times (ucast (sc_last_step_clock sc)) ms in
        length ts \<le> length (sc_queue sc) \<and> sc_queue sc' = drop (length ts) (sc_queue sc)
        \<and> (\<forall>j < length ts. unat (sc_queue sc ! j - ts ! j) \<le> unat (sc_max_error sc)))
     \<and> ucast (sc_last_step_clock sc') = move_end (ucast (sc_last_step_clock sc)) ms
     \<and> sc_max_error sc' = sc_max_error sc \<and> sc_queue_step_msgtag sc' = sc_queue_step_msgtag sc \<and> sc_oid sc' = sc_oid sc"

lemma moves_sent_none: "moves_sent sc [] sc"
  by (simp add: moves_sent_def)

lemma print_time_keeps [simp]:
  "sc_queue (calc_last_step_print_time F sc) = sc_queue sc"
  "sc_last_step_clock (calc_last_step_print_time F sc) = sc_last_step_clock sc"
  by (simp_all add: calc_last_step_print_time_def Let_def)

lemma moves_sent_print_time: "moves_sent sc ms (calc_last_step_print_time F sc') \<longleftrightarrow> moves_sent sc ms sc'"
  by (simp add: moves_sent_def calc_last_step_print_time_def Let_def)

lemma moves_sent_one:
  assumes "check_line sc m = Some 0" "add_move F (sc_last_step_clock sc + ucast (sm_interval m)) m sc = Some sc'"
  shows "unat (sm_count m) \<le> length (sc_queue sc)" "0 < unat (sm_count m)"
    and "moves_sent sc [m] (sc'\<lparr>sc_queue := drop (unat (sm_count m)) (sc_queue sc), sc_queue_pos := p\<rparr>)"
proof -
  show pos: "0 < unat (sm_count m)" using assms(1) by (auto simp: check_line_iff unat_gt_0)
  note e = check_line_error [OF assms(1)]
  show le: "unat (sm_count m) \<le> length (sc_queue sc)"
    using e [of "unat (sm_count m) - 1"] pos by auto
  obtain qm where qm: "sc_msg_queue sc' = sc_msg_queue sc @ [qm]" "qm_data qm = step_data sc m"
    using add_move_effect(1) [OF assms(2) pos] by blast
  show "moves_sent sc [m] (sc'\<lparr>sc_queue := drop (unat (sm_count m)) (sc_queue sc), sc_queue_pos := p\<rparr>)"
    using le e add_move_effect(2,3) [OF assms(2) pos] qm by (auto simp: moves_sent_def intro!: exI [of _ "[qm]"])
qed

lemma moves_sent_trans:
  assumes "moves_sent sc [m] sc1" "moves_sent sc1 ms sc2"
  shows "moves_sent sc (m # ms) sc2"
proof -
  let ?t = "ucast (sc_last_step_clock sc) :: u32" and ?n = "unat (sm_count m)"
  obtain qm where qm: "sc_msg_queue sc1 = sc_msg_queue sc @ [qm]" "qm_data qm = step_data sc m"
    using assms(1) by (auto simp: moves_sent_def map_eq_Cons_conv)
  have one: "?n \<le> length (sc_queue sc)" "sc_queue sc1 = drop ?n (sc_queue sc)"
    "\<And>j. j < ?n \<Longrightarrow> unat (sc_queue sc ! j - (?t + step_off m (Suc j))) \<le> unat (sc_max_error sc)"
    "ucast (sc_last_step_clock sc1) = ?t + step_off m ?n"
    "sc_max_error sc1 = sc_max_error sc" "sc_queue_step_msgtag sc1 = sc_queue_step_msgtag sc" "sc_oid sc1 = sc_oid sc"
    using assms(1) by (auto simp: moves_sent_def Let_def)
  have sd: "step_data sc1 = step_data sc" by (simp add: fun_eq_iff step_data_def one)
  let ?ts = "move_times (?t + step_off m ?n) ms"
  obtain qms where qms: "sc_msg_queue sc2 = sc_msg_queue sc1 @ qms" "map qm_data qms = map (step_data sc) ms"
    using assms(2) by (auto simp: moves_sent_def sd)
  have two: "length ?ts \<le> length (sc_queue sc) - ?n" "sc_queue sc2 = drop (length ?ts) (drop ?n (sc_queue sc))"
    "\<And>j. j < length ?ts \<Longrightarrow> unat (drop ?n (sc_queue sc) ! j - ?ts ! j) \<le> unat (sc_max_error sc)"
    "ucast (sc_last_step_clock sc2) = move_end (?t + step_off m ?n) ms"
    "sc_max_error sc2 = sc_max_error sc" "sc_queue_step_msgtag sc2 = sc_queue_step_msgtag sc" "sc_oid sc2 = sc_oid sc"
    using assms(2) by (auto simp: moves_sent_def Let_def one)
  have err: "unat (sc_queue sc ! j - move_times ?t (m # ms) ! j) \<le> unat (sc_max_error sc)" if "j < ?n + length ?ts" for j
  proof (cases "j < ?n")
    case True
    then show ?thesis using one(3) [OF True] by (simp add: nth_append)
  next
    case False
    then have "j - ?n < length ?ts" "?n + (j - ?n) = j" using that by auto
    then show ?thesis using two(3) [of "j - ?n"] one(1) False by (simp add: nth_append)
  qed
  show ?thesis
    unfolding moves_sent_def Let_def
    using qm qms one(1) two err
    by (auto simp: add.commute intro!: exI [of _ "qm # qms"])
qed

lemma flush_loop_sent:
  "flush_loop F c sc = Some (0, sc') \<Longrightarrow> \<exists>ms. moves_sent sc ms sc' \<and> (sc_queue sc' = [] \<or> c \<le> sc_last_step_clock sc')"
proof (induction F c sc arbitrary: sc' rule: flush_loop.induct)
  case (1 F c sc)
  show ?case
  proof (cases "sc_last_step_clock sc < c")
    case False
    then have "sc' = calc_last_step_print_time F sc" using 1(2) by (simp add: flush_loop.simps)
    then show ?thesis using False moves_sent_none [of sc]
      by (auto simp: moves_sent_print_time intro!: exI [of _ "[]"])
  next
    case True
    obtain m where m: "compress_bisect_add sc = Some m" "check_line sc m = Some 0"
      using 1(2) True by (auto simp: flush_loop.simps split: option.splits if_splits)
    then obtain sc1 where sc1: "add_move F (sc_last_step_clock sc + ucast (sm_interval m)) m sc = Some sc1"
      using 1(2) True by (auto simp: flush_loop.simps split: option.splits if_splits)
    note one = moves_sent_one [OF m(2) sc1]
    let ?n = "unat (sm_count m)"
    show ?thesis
    proof (cases "length (sc_queue sc) \<le> ?n")
      case True2: True
      then have d: "drop ?n (sc_queue sc) = []" by simp
      have "sc' = calc_last_step_print_time F (sc1\<lparr>sc_queue := drop ?n (sc_queue sc), sc_queue_pos := 0\<rparr>)"
        using 1(2) True m sc1 True2 by (simp add: flush_loop.simps)
      then show ?thesis using one(3) [of 0] d
        by (auto simp: moves_sent_print_time intro!: exI [of _ "[m]"])
    next
      case False
      have "flush_loop F c (sc1\<lparr>sc_queue := drop ?n (sc_queue sc), sc_queue_pos := sc_queue_pos sc + ?n\<rparr>) = Some (0, sc')"
        using 1(2) True m sc1 False by (simp add: flush_loop.simps [of F c sc])
      from 1(1) [OF True m(1) m(2) _ sc1 False this]
      obtain ms where "moves_sent (sc1\<lparr>sc_queue := drop ?n (sc_queue sc), sc_queue_pos := sc_queue_pos sc + ?n\<rparr>) ms sc'"
        "sc_queue sc' = [] \<or> c \<le> sc_last_step_clock sc'" by auto
      then show ?thesis using moves_sent_trans [OF one(3)] by blast
    qed
  qed
qed

text \<open>The clocks in the queue grow, within half the range of the clock.\<close>

definition queue_strict :: "'d stepcompress \<Rightarrow> bool" where
  "queue_strict sc \<longleftrightarrow> sc_queue sc \<noteq> [] \<and> 0 < pts sc 0 \<and> (\<forall>i. Suc i < length (sc_queue sc) \<longrightarrow> pts sc i < pts sc (Suc i))
     \<and> (\<forall>i < length (sc_queue sc). pts sc i < 2 ^ 31)"

lemma queue_strict_ok: "queue_strict sc \<Longrightarrow> queue_ok sc"
  by (auto simp: queue_strict_def queue_ok_def intro: less_imp_le)

lemma queue_strict_less: "queue_strict sc \<Longrightarrow> i < j \<Longrightarrow> j < length (sc_queue sc) \<Longrightarrow> pts sc i < pts sc j"
proof (induction j)
  case (Suc j)
  then have "pts sc j < pts sc (Suc j)" by (auto simp: queue_strict_def)
  then show ?case using Suc by (cases "i = j") auto
qed simp

lemma pts_after:
  assumes "queue_strict sc" "check_line sc m = Some 0" "n = unat (sm_count m)"
    and "ucast (sc_last_step_clock sc') = (ucast (sc_last_step_clock sc) + step_off m n :: u32)" "sc_queue sc' = drop n (sc_queue sc)"
    and "n + j < length (sc_queue sc)"
  shows "pts sc' j = pts sc (n + j) - unat (step_off m n) \<and> unat (step_off m n) < pts sc (n + j)"
proof -
  have n: "0 < n" using assms(2,3) by (auto simp: check_line_iff unat_gt_0)
  then have k: "n - 1 < length (sc_queue sc)" "n - 1 < n + j" using assms(6) by auto
  let ?x = "sc_queue sc ! (n + j) - ucast (sc_last_step_clock sc)" and ?s = "step_off m n"
  have "n - 1 < unat (sm_count m)" "Suc (n - 1) = n" using n assms(3) by auto
  then obtain pt where "minmax_point sc (n - 1) = Some pt" "?s \<le> word_of_int (snd pt)"
    using assms(2) unfolding check_line_iff by metis
  then have "?s \<le> word_of_int (maxp sc (n - 1))"
    using minmax_point_eq [OF queue_strict_ok [OF assms(1)] k(1)] by (metis option.inject snd_conv)
  then have "?s \<le> sc_queue sc ! (n - 1) - ucast (sc_last_step_clock sc)" by (simp add: maxp_def pts_def)
  then have s: "unat ?s < pts sc (n + j)"
    using queue_strict_less [OF assms(1) k(2) assms(6)] unfolding pts_def word_le_nat_alt by linarith
  then have "unat (?x - ?s) = unat ?x - unat ?s" by (intro unat_sub) (simp add: word_le_nat_alt pts_def)
  then show ?thesis using s assms(6) by (simp add: pts_def assms(4,5) diff_diff_eq)
qed

lemma queue_strict_after:
  assumes "queue_strict sc" "check_line sc m = Some 0" "n = unat (sm_count m)" "n < length (sc_queue sc)"
    and "ucast (sc_last_step_clock sc') = (ucast (sc_last_step_clock sc) + step_off m n :: u32)" "sc_queue sc' = drop n (sc_queue sc)"
  shows "queue_strict sc'"
proof -
  note p = pts_after [OF assms(1-3,5,6)]
  show ?thesis
    unfolding queue_strict_def
  proof (intro conjI allI impI)
    show "sc_queue sc' \<noteq> []" "0 < pts sc' 0" using assms(4,6) p [of 0] by auto
    fix i
    show "pts sc' i < pts sc' (Suc i)" if "Suc i < length (sc_queue sc')"
    proof -
      have l: "n + i < length (sc_queue sc)" "n + Suc i < length (sc_queue sc)" using that assms(6) by auto
      then show ?thesis using p [OF l(1)] p [OF l(2)] queue_strict_less [OF assms(1) _ l(2), of "n + i"] by (simp add: diff_less_mono)
    qed
    show "pts sc' i < 2 ^ 31" if "i < length (sc_queue sc')"
    proof -
      have "pts sc (n + i) < 2 ^ 31" using assms(1,6) that by (simp add: queue_strict_def)
      then show ?thesis using p [of i] assms(6) that by simp
    qed
  qed
qed

lemma flush_loop_ok:
  "flush_loop F c sc = Some (r, sc') \<Longrightarrow> queue_strict sc \<Longrightarrow> r = 0 \<and> (sc_queue sc' = [] \<or> queue_strict sc')"
proof (induction F c sc arbitrary: sc' rule: flush_loop.induct)
  case (1 F c sc)
  have pt: "pts (calc_last_step_print_time F x) = pts x" for x by (simp add: fun_eq_iff pts_def)
  show ?case
  proof (cases "sc_last_step_clock sc < c")
    case False
    then have "r = 0" "sc' = calc_last_step_print_time F sc" using 1(2) by (simp_all add: flush_loop.simps)
    then show ?thesis using 1(3) by (simp add: queue_strict_def pt)
  next
    case True
    obtain m where m: "compress_bisect_add sc = Some m" using 1(2) True by (auto simp: flush_loop.simps split: option.splits)
    have g: "check_line sc m = Some 0"
      using good_move_passes [OF queue_strict_ok compress_good [OF queue_strict_ok m]] 1(3) by blast
    obtain sc1 where sc1: "add_move F (sc_last_step_clock sc + ucast (sm_interval m)) m sc = Some sc1"
      using 1(2) True m g by (auto simp: flush_loop.simps split: option.splits)
    let ?n = "unat (sm_count m)"
    show ?thesis
    proof (cases "length (sc_queue sc) \<le> ?n")
      case le: True
      then show ?thesis using 1(2) True m g sc1 by (auto simp: flush_loop.simps)
    next
      case False
      let ?s = "sc1\<lparr>sc_queue := drop ?n (sc_queue sc), sc_queue_pos := sc_queue_pos sc + ?n\<rparr>"
      have f: "flush_loop F c ?s = Some (r, sc')" using 1(2) True m g sc1 False by (simp add: flush_loop.simps [of F c sc])
      have "queue_strict ?s"
        using False add_move_effect(2) [OF sc1 moves_sent_one(2) [OF g sc1]]
        by (intro queue_strict_after [OF 1(3) g refl]) auto
      then show ?thesis using 1(1) [OF True m g _ sc1 False f] by simp
    qed
  qed
qed

section \<open>The search returns\<close>

text \<open>
  A queue for which no product or sum of the search leaves the 32 bits: \<open>n\<close> points, the last at \<open>p\<close> ticks.
\<close>

definition arith_ok :: "int \<Rightarrow> int \<Rightarrow> bool" where
  "arith_ok n p \<longleftrightarrow> 0 < n \<and> 0 < p \<and> 0x8000 * (n * n) + p * n + p < 0x80000000"

lemma arith_ok_dest:
  assumes "arith_ok n p"
  shows "n \<le> p * n" "p \<le> p * n" "n \<le> n * n" "0 < n * n" "0x8000 * (n * n) + p * n + p < 0x80000000" "0 < n" "0 < p"
proof -
  have p: "0 < n" "0 < p" "1 \<le> n" "1 \<le> p" using assms by (auto simp: arith_ok_def)
  show "n \<le> p * n" using mult_right_mono [OF p(4), of n] p(1) by simp
  show "p \<le> p * n" using mult_left_mono [OF p(3), of p] p(2) by simp
  show "n \<le> n * n" using mult_left_mono [OF p(3), of n] p(1) by simp
  show "0 < n * n" "0 < n" "0 < p" "0x8000 * (n * n) + p * n + p < 0x80000000" using assms by (auto simp: arith_ok_def)
qed

lemma i32_total: "- 0x80000000 \<le> x \<Longrightarrow> x < 0x80000000 \<Longrightarrow> i32 x = Some x"
  by (simp add: i32_def)

lemma idiv_total: "0 < d \<Longrightarrow> \<bar>x\<bar> + d < 0x80000000 \<Longrightarrow> (\<exists>q. idiv_up x d = Some q) \<and> (\<exists>q. idiv_down x d = Some q)"
  by (simp add: idiv_up_def idiv_down_def i32_total)

lemma addfactor_total:
  assumes "arith_ok n p" "1 \<le> k" "k \<le> n"
  obtains f where "addfactor k = Some f" "0 \<le> f" "2 * f \<le> n * n" "2 \<le> k \<Longrightarrow> 0 < f"
    "\<And>a. \<bar>a\<bar> \<le> 0x10000 \<Longrightarrow> \<bar>a * f\<bar> \<le> 0x8000 * (n * n)"
proof -
  note d = arith_ok_dest [OF assms(1)]
  have kk: "0 \<le> k * (k - 1)" "k * (k - 1) \<le> n * n" using assms(2,3) by (auto intro!: mult_mono)
  moreover have "n * n < 0x80000000" using d by linarith
  ultimately have "i32 (k * (k - 1)) = Some (k * (k - 1))" by (simp add: i32_def)
  then have f: "addfactor k = Some (k * (k - 1) div 2)" using kk(1) by (simp add: addfactor_def sdiv_nonneg)
  have fb: "0 \<le> k * (k - 1) div 2" "2 * (k * (k - 1) div 2) \<le> n * n" using kk by auto
  show thesis
  proof (rule that [OF f fb])
    show "0 < k * (k - 1) div 2" if "2 \<le> k" using addfactor_Some [OF f that] by simp
    fix a :: int assume a: "\<bar>a\<bar> \<le> 0x10000"
    have "\<bar>a * (k * (k - 1) div 2)\<bar> \<le> 0x10000 * (k * (k - 1) div 2)" using a fb(1) by (simp add: abs_mult mult_right_mono)
    then show "\<bar>a * (k * (k - 1) div 2)\<bar> \<le> 0x8000 * (n * n)" using fb(2) by linarith
  qed
qed

lemma interval_total:
  assumes "0 \<le> i" "i \<le> p" "1 \<le> k" "k \<le> n"
  shows "0 \<le> i * k" "i * k \<le> (p * n :: int)"
  using assms by (auto intro!: mult_mono)

lemma narrow_total:
  assumes "arith_ok n p" "1 \<le> k" "k \<le> n" "\<bar>add\<bar> \<le> 0x10000" "0 \<le> mn" "mn \<le> mx" "mx \<le> p" "0 \<le> lo" "lo \<le> p" "0 \<le> hi" "hi \<le> p"
  shows "\<exists>r. narrow add k (mn, mx) lo hi = Some r"
proof -
  note d = arith_ok_dest [OF assms(1)]
  obtain f where f: "addfactor k = Some f" "\<bar>add * f\<bar> \<le> 0x8000 * (n * n)"
    using addfactor_total [OF assms(1-3)] assms(4) by metis
  note l = interval_total [OF assms(8,9,2,3)] and h = interval_total [OF assms(10,11,2,3)]
  have i: "i32 (add * f) = Some (add * f)" "i32 (lo * k) = Some (lo * k)" "i32 (hi * k) = Some (hi * k)"
      "i32 (mn - add * f) = Some (mn - add * f)" "i32 (mx - add * f) = Some (mx - add * f)"
    using f(2) l h d assms(5-7) by (intro i32_total; linarith)+
  have ab: "\<bar>mn - add * f\<bar> + k < 0x80000000" "\<bar>mx - add * f\<bar> + k < 0x80000000" "0 < k"
    using f(2) d assms(2,3,5-7) by linarith+
  obtain q1 q2 where q: "idiv_up (mn - add * f) k = Some q1" "idiv_down (mx - add * f) k = Some q2"
    using idiv_total [OF ab(3,1)] idiv_total [OF ab(3,2)] by auto
  show ?thesis by (simp add: narrow_def f(1) i q)
qed

lemma best_total:
  assumes "arith_ok n p" "1 \<le> k" "k \<le> n" "\<bar>add\<bar> \<le> 0x10000" "0 \<le> i" "i \<le> p"
  shows "\<exists>r. bisect_best add i k b = Some r" "\<exists>r. bisect_side add i k bounds pt b = Some r"
proof -
  note d = arith_ok_dest [OF assms(1)] and l = interval_total [OF assms(5,6,2,3)]
  obtain f where f: "addfactor k = Some f" "\<bar>add * f\<bar> \<le> 0x8000 * (n * n)"
    using addfactor_total [OF assms(1-3)] assms(4) by metis
  have i: "i32 (add * f) = Some (add * f)" "i32 (i * k) = Some (i * k)" "i32 (add * f + i * k) = Some (add * f + i * k)"
    using f(2) l d by (intro i32_total; linarith)+
  show "\<exists>r. bisect_best add i k b = Some r"
    by (cases "add * f + i * k > bi_bestreach b \<or> add * f + i * k = bi_bestreach b \<and> i > bi_bestinterval b")
      (auto simp: bisect_best_def f(1) i Let_def intro: exI [of _ False])
  show "\<exists>r. bisect_side add i k bounds pt b = Some r" by (simp add: bisect_side_def f(1) i)
qed

lemma sint_quarter: "uint (x :: u32) < 0x40000000 \<Longrightarrow> sint x = uint x"
  unfolding sint_uint using uint_ge_0 [of x] by (intro signed_take_bit_int_eq_self) (auto simp del: uint_ge_0 unsigned_greater_eq)

lemma deviation_total:
  assumes "arith_ok n p" "k \<le> n" "\<bar>add\<bar> \<le> 0x10000"
  shows "\<exists>b'. bisect_deviation me add k b = Some b'
    \<and> bi_minadd b' \<le> max (bi_minadd b) add \<and> min (bi_maxadd b) add \<le> bi_maxadd b'"
proof (cases "k > 1")
  case True
  note d = arith_ok_dest [OF assms(1)]
  have kk: "2 * 2 \<le> k * k" "k * k \<le> n * n" using True assms(2) by (intro mult_mono; simp)+
  moreover have nn: "n * n < 0x80000000" using d by linarith
  ultimately have i: "i32 (k * k) = Some (k * k)" by (simp add: i32_def)
  define e where "e = sint ((me * QUADRATIC_DEV) div word_of_int (k * k))"
  have u: "uint (word_of_int (k * k) :: u32) = k * k" unfolding unsigned_of_int using kk nn by (simp add: take_bit_int_eq_self)
  have "uint ((me * QUADRATIC_DEV) div word_of_int (k * k)) \<le> uint (me * QUADRATIC_DEV) div 4"
    unfolding uint_div u using kk(1) by (intro zdiv_mono2) auto
  also have "\<dots> < 0x40000000" using uint_lt2p [of "me * QUADRATIC_DEV"] by simp
  finally have e: "0 \<le> e" "e < 0x40000000" unfolding e_def by (simp_all only: sint_quarter uint_ge_0)
  have s: "i32 (add - e) = Some (add - e)" "i32 (add + e) = Some (add + e)" using e assms(3) by (intro i32_total; linarith)+
  show ?thesis
    unfolding bisect_deviation_def Let_def i bind.bind_lunit e_def [symmetric] s if_P [OF True] using e(1) by auto
next
  case False
  then show ?thesis by (simp add: bisect_deviation_def)
qed

lemma next_total:
  assumes "arith_ok n p" "2 \<le> k" "k \<le> n" "0 \<le> mn" "mn \<le> mx" "mx \<le> p"
    and "\<bar>bi_minadd b\<bar> \<le> 0x10000" "\<bar>bi_maxadd b\<bar> \<le> 0x10000"
    and "0 \<le> bi_outer_mininterval b" "bi_outer_mininterval b \<le> p" "0 \<le> bi_outer_maxinterval b" "bi_outer_maxinterval b \<le> p"
  shows "\<exists>b'. bisect_next k (mn, mx) b = Some b'"
proof -
  note d = arith_ok_dest [OF assms(1)]
  have k1: "1 \<le> k" using assms(2) by simp
  obtain f where f: "addfactor k = Some f" "2 * f \<le> n * n" "0 < f"
      "\<And>a. \<bar>a\<bar> \<le> 0x10000 \<Longrightarrow> \<bar>a * f\<bar> \<le> 0x8000 * (n * n)"
    using addfactor_total [OF assms(1) k1 assms(3)] assms(2) by metis
  note l = interval_total [OF assms(9,10) k1 assms(3)] and h = interval_total [OF assms(11,12) k1 assms(3)]
  let ?lo = "mn - bi_outer_maxinterval b * k" and ?hi = "mx - bi_outer_mininterval b * k"
  have i: "i32 (bi_outer_maxinterval b * k) = Some (bi_outer_maxinterval b * k)"
      "i32 (bi_outer_mininterval b * k) = Some (bi_outer_mininterval b * k)"
      "i32 (bi_minadd b * f) = Some (bi_minadd b * f)" "i32 (bi_maxadd b * f) = Some (bi_maxadd b * f)"
      "i32 ?lo = Some ?lo" "i32 ?hi = Some ?hi"
    using f(4) [OF assms(7)] f(4) [OF assms(8)] l h d assms(4-6) by (intro i32_total; linarith)+
  have ab: "\<bar>?lo\<bar> + f < 0x80000000" "\<bar>?hi\<bar> + f < 0x80000000" using l h f(2) d assms(4-6) by linarith+
  obtain q1 q2 where q: "idiv_up ?lo f = Some q1" "idiv_down ?hi f = Some q2"
    using idiv_total [OF f(3) ab(1)] idiv_total [OF f(3) ab(2)] by auto
  show ?thesis by (simp add: bisect_next_def f(1) i q Let_def)
qed

text \<open>The bound for the queue of a state.\<close>

definition queue_small :: "'d stepcompress \<Rightarrow> bool" where
  "queue_small sc \<longleftrightarrow> queue_ok sc \<and> arith_ok (int (length (sc_queue sc))) (maxp sc (length (sc_queue sc) - 1))"

lemma maxp_mono: "queue_ok sc \<Longrightarrow> i \<le> j \<Longrightarrow> j < length (sc_queue sc) \<Longrightarrow> maxp sc i \<le> maxp sc j"
proof (induction j)
  case (Suc j)
  then have "maxp sc j \<le> maxp sc (Suc j)" by (auto simp: queue_ok_def maxp_def)
  then show ?case using Suc by (cases "i = Suc j") auto
qed simp

lemma queue_small_point:
  assumes "queue_small sc" "i < length (sc_queue sc)"
  shows "minmax_point sc i = Some (minp sc i, maxp sc i)" "0 \<le> minp sc i" "minp sc i \<le> maxp sc i"
    "maxp sc i \<le> maxp sc (length (sc_queue sc) - 1)"
  using assms minmax_point_eq [of sc i] point_bounds(1,2) [of sc i] maxp_mono [of sc i "length (sc_queue sc) - 1"]
  by (auto simp: queue_small_def)

lemma extend_total:
  assumes "queue_small sc" "qlast \<le> length (sc_queue sc)" "\<bar>add\<bar> \<le> 0x10000"
    and "0 \<le> lo" "lo \<le> hi" "hi \<le> maxp sc 0" "0 < n"
  shows "\<exists>r. extend_seq sc qlast add n lo hi i = Some r"
  using assms
proof (induction sc qlast add n lo hi i rule: extend_seq.induct)
  case (1 sc qlast add n lo hi i)
  let ?p = "maxp sc (length (sc_queue sc) - 1)"
  show ?case
  proof (cases "n \<ge> qlast")
    case True
    then show ?thesis by (simp add: extend_seq.simps)
  next
    case False
    then have l: "n < length (sc_queue sc)" "0 < length (sc_queue sc)" using 1(3) by auto
    note pt = queue_small_point [OF 1(2) l(1)]
    have p0: "maxp sc 0 \<le> ?p" using queue_small_point(4) [OF 1(2) l(2)] by simp
    have ok: "arith_ok (int (length (sc_queue sc))) ?p" using 1(2) by (simp add: queue_small_def)
    have "\<exists>r. narrow add (int n + 1) (minp sc n, maxp sc n) lo hi = Some r"
      using l 1(5-7) p0 by (intro narrow_total [OF ok _ _ 1(4) pt(2-4) 1(5)]) linarith+
    then obtain lo' hi' where r: "narrow add (int n + 1) (minp sc n, maxp sc n) lo hi = Some (lo', hi')" by force
    have b: "lo \<le> lo'" "hi' \<le> hi" using narrow_bounds(1,2) [OF r 1(8)] by auto
    show ?thesis
    proof (cases "lo' > hi'")
      case True
      then show ?thesis using False by (simp add: extend_seq.simps [of sc qlast add n] pt(1) r)
    next
      case le: False
      then have "\<exists>r. extend_seq sc qlast add (n + 1) lo' hi' hi' = Some r"
        using 1(1) [OF False pt(1) r refl le 1(2-4)] 1(5-8) b by auto
      then show ?thesis using False le by (simp add: extend_seq.simps [of sc qlast add n] pt(1) r)
    qed
  qed
qed


lemma step_total:
  assumes "queue_small sc" "qlast \<le> length (sc_queue sc)" "0 < qlast" "bounds_inv sc b" "bi_minadd b \<le> add" "add \<le> bi_maxadd b"
  shows "\<exists>r. bisect_step sc qlast add b = Some r"
proof -
  let ?lo = "bi_outer_mininterval b" and ?hi = "bi_outer_maxinterval b" and ?n = "int (length (sc_queue sc))"
  let ?p = "maxp sc (length (sc_queue sc) - 1)"
  have ok: "arith_ok ?n ?p" "queue_ok sc" using assms(1) by (auto simp: queue_small_def)
  have l0: "0 < length (sc_queue sc)" using assms(2,3) by linarith
  note p0 = queue_small_point [OF assms(1) l0]
  have bi: "0 \<le> ?lo" "?lo \<le> ?hi" "?hi \<le> maxp sc 0" "?hi \<le> ?p" "- 0x8000 \<le> bi_minadd b" "bi_maxadd b \<le> 0x7fff"
    using assms(4) p0 by (auto simp: bounds_inv_def)
  have a: "\<bar>add\<bar> \<le> 0x10000" "\<bar>add\<bar> \<le> 0x8000" using assms(5,6) bi(5,6) by auto
  obtain e where e: "extend_seq sc qlast add 1 ?lo ?hi ?hi = Some e"
    using extend_total [OF assms(1,2) a(1) bi(1-3) zero_less_one] by blast
  have one: "seq_valid sc x add 1" if "?lo \<le> x" "x \<le> ?hi" for x
    using that ok(2) assms(4) by (auto simp: seq_valid_one bounds_inv_def queue_ok_def)
  have ev: "case e of
      Inl (i', c) \<Rightarrow> c = int qlast \<and> seq_valid sc i' add qlast
    | Inr (nc, (lo', hi'), i', pt) \<Rightarrow> (\<exists>m. nc = int m + 1 \<and> 0 < m \<and> m < qlast \<and> seq_valid sc i' add m \<and> pt = (minp sc m, maxp sc m)
        \<and> ?lo \<le> i' \<and> i' \<le> ?hi \<and> ?lo \<le> lo' \<and> hi' \<le> i' \<and> lo' > hi'
        \<and> (if step_at i' add (Suc m) < minp sc m then hi' = i' else lo' \<le> i'))"
    using assms(3) bi(2) one e by (intro extend_seq_valid [OF ok(2) assms(2)]) auto
  show ?thesis
  proof (cases e)
    case (Inl p)
    then show ?thesis by (cases p) (simp add: bisect_step_def e [unfolded One_nat_def])
  next
    case (Inr q)
    then obtain m lo' hi' i where p: "q = (int m + 1, (lo', hi'), i, (minp sc m, maxp sc m))" "0 < m" "m < qlast"
      "?lo \<le> i" "i \<le> ?hi" "?lo \<le> lo'" "hi' \<le> i" "if step_at i add (Suc m) < minp sc m then hi' = i else lo' \<le> i"
      using ev by (cases q) auto
    note e' = e [unfolded Inr p(1) One_nat_def]
    have m: "1 \<le> int m" "int m \<le> ?n" "1 \<le> int m + 1" "2 \<le> int m + 1" "int m + 1 \<le> ?n" "m < length (sc_queue sc)"
      using p(2,3) assms(2) by auto
    have i: "0 \<le> i" "i \<le> ?p" using p(4,5) bi by auto
    obtain stop b1 where b1: "bisect_best add i (int m) b = Some (stop, b1)"
      using best_total(1) [OF ok(1) m(1,2) a(1) i] by force
    have fr: "bi_minadd b1 = bi_minadd b" "bi_maxadd b1 = bi_maxadd b" "bi_outer_mininterval b1 = ?lo" "bi_outer_maxinterval b1 = ?hi"
      using b1 by (cases rule: bisect_best_cases; simp)+
    obtain b2 where b2: "bisect_side add i (int m + 1) (lo', hi') (minp sc m, maxp sc m) b1 = Some b2"
      using best_total(2) [OF ok(1) m(3,5) a(1) i] by blast
    obtain b3 where b3: "bisect_deviation (sc_max_error sc) add (int m) b2 = Some b3"
        "bi_minadd b3 \<le> max (bi_minadd b2) add" "min (bi_maxadd b2) add \<le> bi_maxadd b3"
      using deviation_total [OF ok(1) m(2) a(1)] by blast
    have r3: "bi_minadd b2 \<le> bi_minadd b3" "bi_maxadd b3 \<le> bi_maxadd b2" using bisect_deviation_range [OF b3(1)] by auto
    obtain x y where b3': "b3 = b2\<lparr>bi_minadd := x, bi_maxadd := y\<rparr>" using deviation_kept [OF b3(1)] by blast
    have s2: "bi_outer_mininterval b2 \<in> {?lo, lo'} \<and> bi_outer_maxinterval b2 \<in> {?hi, hi'}"
      "- 0x8000 \<le> bi_minadd b2" "bi_minadd b2 \<le> 0x8000" "- 0x8001 \<le> bi_maxadd b2" "bi_maxadd b2 \<le> 0x7fff"
      "0 \<le> bi_outer_mininterval b2" "bi_outer_mininterval b2 \<le> ?p" "0 \<le> bi_outer_maxinterval b2" "bi_outer_maxinterval b2 \<le> ?p"
      using side_kept(2) [OF b2] fr bi a assms(5,6) p(4-8) i by (auto split: if_splits)
    have "\<exists>b'. bisect_next (int m + 1) (minp sc m, maxp sc m) b3 = Some b'"
      using s2 b3(2,3) r3 a by (intro next_total [OF ok(1) m(4,5) queue_small_point(2-4) [OF assms(1) m(6)]]) (auto simp: b3')
    then show ?thesis using b1 b2 b3(1) by (cases stop) (auto simp: bisect_step_def e')
  qed
qed

lemma loop_total:
  assumes "queue_small sc" "qlast \<le> length (sc_queue sc)" "0 < qlast" "qlast \<le> 65535" "bounds_inv sc b" "best_inv sc qlast b"
  shows "\<exists>m. bisect_loop sc qlast b = Some m"
  using assms
proof (induction sc qlast b rule: bisect_loop.induct)
  case (1 sc qlast b)
  let ?add = "bi_maxadd b - (bi_maxadd b - bi_minadd b) sdiv 4"
  show ?case
  proof (cases "bi_minadd b > bi_maxadd b")
    case True
    then show ?thesis by (subst bisect_loop.simps) simp
  next
    case False
    then have add: "bi_minadd b \<le> ?add" "?add \<le> bi_maxadd b" by (simp_all add: sdiv_nonneg)
    obtain r where r: "bisect_step sc qlast ?add b = Some r" using step_total [OF "1.prems"(1-3,5) add] by blast
    have ok: "queue_ok sc" using "1.prems"(1) by (simp add: queue_small_def)
    note si = bisect_step_inv [OF ok "1.prems"(2-5) add disjI1 [OF "1.prems"(6)] r]
    show ?thesis
    proof (cases r)
      case (Inl m)
      then show ?thesis using False r by (subst bisect_loop.simps) simp
    next
      case (Inr p)
      obtain stop b' where p: "p = (stop, b')" by (cases p)
      have "\<exists>m. bisect_loop sc qlast b' = Some m" if "\<not> stop"
        using "1.IH" [OF False r Inr p [symmetric] that "1.prems"(1-4)] si Inr p that by simp
      then show ?thesis using False r Inr p by (subst bisect_loop.simps) auto
    qed
  qed
qed

lemma compress_total:
  assumes "queue_small sc"
  shows "\<exists>m. compress_bisect_add sc = Some m"
proof -
  let ?q = "if length (sc_queue sc) > 65535 then 65535 else length (sc_queue sc)"
  let ?b = "\<lparr>bi_minadd = - 0x8000, bi_maxadd = 0x7fff, bi_outer_mininterval = minp sc 0, bi_outer_maxinterval = maxp sc 0,
                bi_bestinterval = 0, bi_bestcount = 1, bi_bestadd = 1, bi_bestreach = - (2 ^ 31), bi_zerointerval = 0,
                bi_zerocount = 0\<rparr>"
  have ok: "queue_ok sc" using assms by (simp add: queue_small_def)
  have l: "0 < length (sc_queue sc)" using ok by (simp add: queue_ok_def)
  note mm = minmax_point_eq [OF ok l]
  have q: "?q \<le> length (sc_queue sc)" "0 < ?q" "?q \<le> 65535" using l by auto
  have b: "bounds_inv sc ?b" using point_bounds(2) [OF ok l] by (simp add: bounds_inv_def)
  obtain r where r: "bisect_step sc ?q 0 ?b = Some r" using step_total [OF assms q(1,2) b, of 0] by auto
  note si = bisect_step_inv [OF ok q b _ _ disjI2 r]
  have si: "case r of Inl move \<Rightarrow> good_move sc move | Inr (stop, b') \<Rightarrow> best_inv sc ?q b' \<and> (stop \<or> bounds_inv sc b')"
    by (rule si) simp_all
  show ?thesis
  proof (cases r)
    case (Inl m)
    then show ?thesis using r by (simp add: compress_bisect_add_def mm Let_def)
  next
    case (Inr p)
    obtain stop b' where p: "p = (stop, b')" by (cases p)
    have "\<exists>m. bisect_loop sc ?q b' = Some m" if "\<not> stop"
      using loop_total [OF assms q] si Inr p that by simp
    then show ?thesis using r Inr p by (cases stop) (simp_all add: compress_bisect_add_def mm Let_def)
  qed
qed

lemma add_move_total:
  assumes "queue_small sc" "check_line sc m = Some 0"
  shows "\<exists>sc'. add_move F c m sc = Some sc'"
proof -
  have n: "0 < unat (sm_count m)" using assms(2) by (auto simp: check_line_iff unat_gt_0)
  then have "unat (sm_count m) \<le> length (sc_queue sc)" using check_line_error [OF assms(2), of "unat (sm_count m) - 1"] by auto
  then have k: "1 \<le> int (unat (sm_count m))" "int (unat (sm_count m)) \<le> int (length (sc_queue sc))" using n by linarith+
  have ok: "arith_ok (int (length (sc_queue sc))) (maxp sc (length (sc_queue sc) - 1))" using assms(1) by (simp add: queue_small_def)
  have "\<bar>sint (sm_add m)\<bar> \<le> 0x10000" using sint_lt [of "sm_add m"] sint_ge [of "sm_add m"] by simp
  then obtain f where f: "addfactor (int (unat (sm_count m))) = Some f"
      "\<bar>sint (sm_add m) * f\<bar> \<le> 0x8000 * (int (length (sc_queue sc)) * int (length (sc_queue sc)))"
    using addfactor_total [OF ok k] by metis
  have "i32 (sint (sm_add m) * f) = Some (sint (sm_add m) * f)"
    using f(2) arith_ok_dest [OF ok] by (intro i32_total; linarith)
  then have t: "\<exists>t. move_ticks m = Some t" using f(1) by (simp only: move_ticks_def Let_def bind.bind_lunit) blast
  obtain qm where "message_alloc_and_encode F [sc_queue_step_msgtag sc, sc_oid sc, sm_interval m, ucast (sm_count m), scast (sm_add m)] = Some qm"
    using message_encode [of "[sc_queue_step_msgtag sc, sc_oid sc, sm_interval m, ucast (sm_count m), scast (sm_add m)]" F]
    by (auto split: if_splits)
  then show ?thesis using t by (auto simp: add_move_def Let_def)
qed

lemma queue_small_after:
  assumes "queue_strict sc" "queue_small sc" "check_line sc m = Some 0" "n = unat (sm_count m)" "n < length (sc_queue sc)"
    and "ucast (sc_last_step_clock sc') = (ucast (sc_last_step_clock sc) + step_off m n :: u32)" "sc_queue sc' = drop n (sc_queue sc)"
  shows "queue_small sc'"
proof -
  let ?l = "length (sc_queue sc)" and ?l' = "length (sc_queue sc')"
  have s: "queue_strict sc'" by (rule queue_strict_after [OF assms(1,3-7)])
  have l: "?l' = ?l - n" "0 < ?l'" "n + (?l' - 1) = ?l - 1" "?l - 1 < ?l" using assms(5,7) by auto
  have m: "maxp sc' (?l' - 1) \<le> maxp sc (?l - 1)"
    using pts_after [OF assms(1,3,4,6,7), of "?l' - 1"] l by (simp add: maxp_def)
  have "0 < pts sc' (?l' - 1)" using s queue_strict_less [OF s, of 0 "?l' - 1"] l(2) by (cases "?l' - 1 = 0") (auto simp: queue_strict_def)
  then have p: "0 < maxp sc' (?l' - 1)" by (simp add: maxp_def)
  have ok: "arith_ok (int ?l) (maxp sc (?l - 1))" using assms(2) by (simp add: queue_small_def)
  have "int ?l' * int ?l' \<le> int ?l * int ?l" "maxp sc' (?l' - 1) * int ?l' \<le> maxp sc (?l - 1) * int ?l"
    using l(1) m p by (intro mult_mono; simp)+
  then have "arith_ok (int ?l') (maxp sc' (?l' - 1))"
    using arith_ok_dest(5) [OF ok] m p l(2) unfolding arith_ok_def by linarith
  then show ?thesis using queue_strict_ok [OF s] by (simp add: queue_small_def)
qed

lemma flush_loop_total:
  "queue_strict sc \<Longrightarrow> queue_small sc \<Longrightarrow> \<exists>sc'. flush_loop F c sc = Some (0, sc')"
proof (induction F c sc rule: flush_loop.induct)
  case (1 F c sc)
  show ?case
  proof (cases "sc_last_step_clock sc < c")
    case False
    then show ?thesis by (simp add: flush_loop.simps)
  next
    case True
    obtain m where m: "compress_bisect_add sc = Some m" using compress_total [OF 1(3)] by blast
    have g: "check_line sc m = Some 0"
      using good_move_passes [OF queue_strict_ok compress_good [OF queue_strict_ok m]] 1(2) by blast
    obtain sc1 where sc1: "add_move F (sc_last_step_clock sc + ucast (sm_interval m)) m sc = Some sc1"
      using add_move_total [OF 1(3) g] by blast
    let ?n = "unat (sm_count m)"
    show ?thesis
    proof (cases "length (sc_queue sc) \<le> ?n")
      case le: True
      then show ?thesis using True m g sc1 by (simp add: flush_loop.simps)
    next
      case False
      let ?s = "sc1\<lparr>sc_queue := drop ?n (sc_queue sc), sc_queue_pos := sc_queue_pos sc + ?n\<rparr>"
      note e = add_move_effect(2) [OF sc1 moves_sent_one(2) [OF g sc1]]
      have "queue_strict ?s" using False e by (intro queue_strict_after [OF 1(2) g refl]) auto
      moreover have "queue_small ?s" using False e by (intro queue_small_after [OF 1(2,3) g refl]) auto
      ultimately have "\<exists>sc'. flush_loop F c ?s = Some (0, sc')" using 1(1) [OF True m g _ sc1 False] by simp
      then show ?thesis using True m g sc1 False by (simp add: flush_loop.simps [of F c sc])
    qed
  qed
qed

definition demo_fops :: "int fops" where
  "demo_fops = \<lparr>f_add = (+), f_sub = (-), f_mul = (*), f_div = (div), f_less = (<), f_le = (\<le>), f_eq = (=), f_abs = abs, f_sqrt = id, f_int = id,
     f_frac = (\<lambda>a b. a div b), f_trunc = id, f_ceil = id\<rparr>"

definition demo_stepcompress :: "int stepcompress" where
  "demo_stepcompress = (stepcompress_fill 5 25 7 8 (stepcompress_alloc demo_fops []))
     \<lparr>sc_queue := [100, 210, 300], sc_queue_alloc := 1024\<rparr>"

lemma demo_stepcompress_strict: "queue_strict demo_stepcompress"
  by (auto simp: queue_strict_def demo_stepcompress_def stepcompress_fill_def stepcompress_alloc_def pts_def less_Suc_eq nth_Cons
      split: nat.splits)

lemma demo_stepcompress_small: "queue_small demo_stepcompress"
  using queue_strict_ok [OF demo_stepcompress_strict]
  by (simp add: queue_small_def demo_stepcompress_def stepcompress_fill_def stepcompress_alloc_def arith_ok_def maxp_def pts_def)

section \<open>Properties\<close>





section \<open>The limits of the code\<close>

text \<open>
  \<open>queue_append_far\<close> stores the step without a test for room: when the storage is used up to its end and the flush
  leaves steps behind, the store is outside the allocation.
\<close>

theorem append_far_overrun:
  assumes "queue_flush F (sc_next_step_clock sc - CLOCK_DIFF_MAX + 1) (sc\<lparr>sc_next_step_clock := 0\<rparr>) = Some (0, sc')"
    and "sc_queue_pos sc' + length (sc_queue sc') = sc_queue_alloc sc'"
    and "sc_next_step_clock sc < sc_last_step_clock sc' + CLOCK_DIFF_MAX"
  shows "queue_append_far F sc = None"
proof -
  have "\<not> sc_next_step_clock sc \<ge> sc_last_step_clock sc' + CLOCK_DIFF_MAX" using assms(3) by (simp add: not_le)
  then show ?thesis using assms(1,2) by (simp add: queue_append_far_def queue_store_def Let_def)
qed

text \<open>
  A run of evenly spaced steps longer than 46341: \<open>nextcount*(nextcount-1)\<close> leaves the range of \<open>int32_t\<close>.
\<close>

lemma narrow_keeps:
  assumes "narrow 0 k (mn, mx) lo hi = Some (lo', hi')" "0 < k" "lo \<le> i" "i \<le> hi" "mn \<le> i * k" "i * k \<le> mx"
  shows "lo' \<le> i \<and> i \<le> hi'"
proof -
  have l: "idiv_up mn k = Some lo' \<or> lo' = lo" and h: "idiv_down mx k = Some hi' \<or> hi' = hi"
    using assms(1) by (auto simp: narrow_def i32_Some bind_eq_Some_conv split: if_splits)
  have "lo' \<le> i" if "idiv_up mn k = Some lo'"
  proof -
    have "(lo' - 1) * k < i * k" using idiv_up_ceil [OF that assms(2)] assms(5) by linarith
    then show ?thesis using assms(2) by (simp add: mult_less_cancel_right)
  qed
  moreover have "i \<le> hi'" if "idiv_down mx k = Some hi'"
  proof -
    have "i * k < (hi' + 1) * k" using idiv_down_floor [OF that assms(2)] assms(6) by linarith
    then show ?thesis using assms(2) by (simp add: mult_less_cancel_right)
  qed
  ultimately show ?thesis using l h assms(3,4) by blast
qed

lemma addfactor_overflow: "46342 \<le> k \<Longrightarrow> addfactor k = None"
proof -
  assume "46342 \<le> k"
  then have "46342 * 46341 \<le> k * (k - 1)" by (intro mult_mono) auto
  then show ?thesis by (simp add: addfactor_def i32_def)
qed

lemma extend_seq_overflow:
  assumes "46342 \<le> qlast" "n < 46342" "lo \<le> i" "i \<le> hi"
    and "\<And>j mn mx. minmax_point sc j = Some (mn, mx) \<Longrightarrow> j < 46342 \<Longrightarrow> mn \<le> i * (int j + 1) \<and> i * (int j + 1) \<le> mx"
  shows "extend_seq sc qlast 0 n lo hi h = None"
  using assms
proof (induction "46341 - n" arbitrary: n lo hi h)
  case 0
  then have "n = 46341" by simp
  then show ?case using 0(2)
    by (subst extend_seq.simps) (auto simp: narrow_def addfactor_overflow split: option.splits)
next
  case (Suc d)
  show ?case
  proof (cases "minmax_point sc n")
    case None
    then show ?thesis using Suc.prems(1,2) by (subst extend_seq.simps) simp
  next
    case (Some p)
    obtain mn mx where p: "p = (mn, mx)" by (cases p)
    show ?thesis
    proof (cases "narrow 0 (int n + 1) p lo hi")
      case None
      then show ?thesis using Suc.prems(1,2) Some by (subst extend_seq.simps) simp
    next
      case (Some r)
      obtain lo' hi' where r: "r = (lo', hi')" by (cases r)
      have k: "lo' \<le> i" "i \<le> hi'"
        using narrow_keeps [of "int n + 1" mn mx lo hi lo' hi' i] Some r p Suc.prems(3,4) Suc.prems(5) [of n mn mx] \<open>minmax_point sc n = Some p\<close> Suc.prems(2)
        by auto
      have "extend_seq sc qlast 0 (n + 1) lo' hi' hi' = None"
        using Suc.hyps(2) by (intro Suc.hyps(1) Suc.prems(1,5) k) auto
      then show ?thesis using Suc.prems(1,2) \<open>minmax_point sc n = Some p\<close> Some r k by (subst extend_seq.simps) simp
    qed
  qed
qed

theorem compress_overflow:
  assumes "46342 \<le> length (sc_queue sc)"
    and "\<And>j mn mx. minmax_point sc j = Some (mn, mx) \<Longrightarrow> j < 46342 \<Longrightarrow> mn \<le> i * (int j + 1) \<and> i * (int j + 1) \<le> mx"
  shows "compress_bisect_add sc = None"
proof (cases "minmax_point sc 0")
  case (Some p)
  obtain mn mx where p: "p = (mn, mx)" by (cases p)
  then have "extend_seq sc (if length (sc_queue sc) > 65535 then 65535 else length (sc_queue sc)) 0 1 mn mx mx = None"
    using assms(1) assms(2) [of 0 mn mx] Some by (intro extend_seq_overflow [where i = i] assms(2)) auto
  then show ?thesis using Some p by (simp add: compress_bisect_add_def bisect_step_def)
qed (simp add: compress_bisect_add_def)

end
