(* ===== verification/Serialqueue_Props.thy ===== *)
theory Serialqueue_Props
  imports Serialqueue_Lib Stepcompress_Props
begin

text \<open>
  The serial port queue under any input: the window of unacknowledged blocks, the queues of pending messages with their
  order, and the absence of null pointers and buffer overruns in the callbacks of its thread.
\<close>

section \<open>Any input keeps the window\<close>

lemma ack_seq_ahead:
  obtains d where "d < 16" "ack_seq q r = r + of_nat d"
proof -
  have "unat ((ucast q - r) AND ucast MESSAGE_SEQ_MASK) < 16"
  proof -
    have "(ucast q - r) AND ucast MESSAGE_SEQ_MASK = take_bit 4 (ucast q - r)" by (simp only: seq_mask take_bit_eq_mask)
    then have "unat ((ucast q - r) AND ucast MESSAGE_SEQ_MASK) = take_bit 4 (unat (ucast q - r))" by (simp only: unsigned_take_bit_eq)
    also have "\<dots> < 2 ^ 4" by (rule take_bit_nat_less_exp)
    finally show ?thesis by simp
  qed
  then show ?thesis by (rule that) (simp add: ack_seq_def)
qed

lemma ack_sent_past:
  "length ms < k \<Longrightarrow> unat r + k < 2 ^ 64 \<Longrightarrow>
     sq_sent_queue (ack_sent F (r + of_nat k) r ms sq) = [] \<and> sq_send_seq (ack_sent F (r + of_nat k) r ms sq) = r + of_nat k"
proof (induction ms arbitrary: k r sq)
  case (Cons m ms)
  then obtain j where k: "k = Suc j" "length ms < j" by (cases k) auto
  have "of_nat j \<noteq> (0 :: u64)" using Cons.prems(2) k by (auto simp: word_of_nat_eq_0_iff dest!: dvd_imp_le)
  then have n: "r + of_nat k \<noteq> r + 1" by (simp add: k)
  have e: "r + of_nat k = (r + 1) + of_nat j" by (simp add: k)
  have "unat (r + 1) + j < 2 ^ 64" using Cons.prems(2) k by (simp add: unat_word_ariths)
  then show ?case using Cons.IH [of j "r + 1"] n k by (simp add: Let_def e add.assoc)
qed simp

lemma handle_message_keeps:
  assumes "handle_message F t now len sq = Some sq'" "link_ok sq" "unat (sq_receive_seq sq) + 16 < 2 ^ 64"
  shows "link_ok sq' \<and> unat (sq_receive_seq sq') < unat (sq_receive_seq sq) + 16"
proof -
  obtain q where q: "rd (sq_input_buf sq) MESSAGE_POS_SEQ = Some q"
    using assms(1) by (cases "rd (sq_input_buf sq) MESSAGE_POS_SEQ") (simp_all add: handle_message_def)
  obtain d where d: "d < 16" "ack_seq q (sq_receive_seq sq) = sq_receive_seq sq + of_nat d" by (rule ack_seq_ahead)
  define r where "r = sq_receive_seq sq + of_nat d"
  note h = handle_message_link [OF assms(1) q r_def [folded d(2)] refl, folded r_def]
  have u: "unat r = unat (sq_receive_seq sq) + d" using d(1) assms(3) by (simp add: r_def unat_word_ariths unat_of_nat)
  show ?thesis
  proof (cases "r = sq_receive_seq sq \<or> (sq_send_seq sq < r \<and> sq_receive_seq sq \<noteq> 1)")
    case True
    then have "link_ok sq' = link_ok sq" using h by (simp add: link_ok_def)
    then show ?thesis using True assms(2) h by simp
  next
    case False
    then have h': "sq_sent_queue sq' = sq_sent_queue (ack_sent F r (sq_receive_seq sq) (sq_sent_queue sq) sq)"
      "sq_send_seq sq' = sq_send_seq (ack_sent F r (sq_receive_seq sq) (sq_sent_queue sq) sq)" "sq_receive_seq sq' = r"
      using h by (simp_all only: update_receive_seq_link if_False)
    show ?thesis
    proof (cases "d \<le> length (sq_sent_queue sq)")
      case True
      have "0 < d" using False by (cases d) (simp_all add: r_def)
      then have "sq_sent_queue sq' = drop d (sq_sent_queue sq) \<and> sq_send_seq sq' = sq_send_seq sq"
        using ack_sent_drop [of d "sq_sent_queue sq" "sq_receive_seq sq" F sq] h' True d(1) assms(3) by (simp add: r_def)
      then have "link_ok sq'" using link_ok_drop [OF assms(2) True] h'(3) u by (simp add: r_def)
      then show ?thesis using h'(3) u d(1) by simp
    next
      case past: False
      then show ?thesis using ack_sent_past [of "sq_sent_queue sq" d "sq_receive_seq sq" F sq] h' u d(1) assms(3)
        by (simp add: link_ok_def r_def [symmetric])
    qed
  qed
qed

lemma ack_sent_input: "sq_input_buf (ack_sent F r s ms sq) = sq_input_buf sq"
  by (induction ms arbitrary: s sq) (simp_all add: Let_def)

lemma update_receive_seq_input: "sq_input_buf (update_receive_seq F t r sq) = sq_input_buf sq"
  by (simp add: update_receive_seq_def Let_def update_timer_def update_rto_def ack_sent_input split: list.split)

lemma handle_message_total:
  assumes "MESSAGE_MIN \<le> len" "len \<le> MESSAGE_MAX" "len \<le> length (sq_input_buf sq)"
  shows "\<exists>sq'. handle_message F t now len sq = Some sq'"
proof -
  obtain q where q: "rd (sq_input_buf sq) MESSAGE_POS_SEQ = Some q" using assms by (simp add: rd_def)
  have "\<exists>qm. message_data F now len r s = Some qm" if "sq_input_buf s = sq_input_buf sq" for r s
    using message_fill_total [of len "sq_input_buf sq" F] that assms by (auto simp: message_data_def)
  then show ?thesis
    using q by (auto simp: handle_message_def Let_def notify_received_def update_receive_seq_input bind_eq_Some_conv)
qed

lemma msgblock_check_waits:
  assumes "msgblock_check ns buf n = Some (0, ns')"
  shows "n < 64"
proof -
  have "fst (msgblock_error buf n) \<noteq> 0" if "\<not> n < 5" using that by (auto simp: msgblock_error_def split: option.splits)
  then show ?thesis using assms by (auto simp: msgblock_check_def bind_eq_Some_conv unsigned_eq_0_iff split: if_splits)
qed

lemma block_at_length: "block_at buf n k q \<Longrightarrow> n \<le> length buf \<Longrightarrow> 5 \<le> k \<and> k \<le> 64 \<and> k \<le> n"
  by (auto simp: block_at_def dest!: arg_cong [of "take k buf" _ length])

lemma input_loop_ok:
  "link_ok sq \<Longrightarrow> unat (sq_receive_seq sq) + 16 * length (sq_input_buf sq) < 2 ^ 64 \<Longrightarrow>
     \<exists>sq'. input_loop F t now sq = Some sq' \<and> link_ok sq' \<and> length (sq_input_buf sq') < MESSAGE_MAX"
proof (induction F t now sq rule: input_loop.induct)
  case (1 F t now sq)
  let ?b = "sq_input_buf sq"
  note step = input_loop.simps [of F t now sq]
  show ?case
  proof (rule msgblock_check_cases [OF order_refl, of "sq_need_sync sq" ?b])
    assume "msgblock_check (sq_need_sync sq) ?b (length ?b) = Some (0, sq_need_sync sq)"
    then show ?case using step 1(2) msgblock_check_waits [of "sq_need_sync sq" ?b "length ?b"] by (simp add: link_ok_def)
  next
    fix k ns
    assume k: "msgblock_check (sq_need_sync sq) ?b (length ?b) = Some (- int k, ns)" "0 < k" "k \<le> length ?b"
    let ?sq = "sq\<lparr>sq_need_sync := ns, sq_bytes_invalid := sq_bytes_invalid sq + word_of_int (int k), sq_input_buf := drop k ?b\<rparr>"
    have s: "input_loop F t now sq = input_loop F t now ?sq" using step k by simp
    have "\<exists>sq'. input_loop F t now ?sq = Some sq' \<and> link_ok sq' \<and> length (sq_input_buf sq') < MESSAGE_MAX"
      using 1(1) [OF k(1) refl refl] k(2,3) 1(2,3) by (simp add: link_ok_def)
    then show ?case by (simp only: s)
  next
    fix k q
    assume k: "msgblock_check (sq_need_sync sq) ?b (length ?b) = Some (int k, 0)" "0 < k" "block_at ?b (length ?b) k q"
    have l: "5 \<le> k" "k \<le> 64" "k \<le> length ?b" using block_at_length [OF k(3)] by simp_all
    let ?sq = "sq\<lparr>sq_need_sync := 0\<rparr>"
    obtain sq1 where m: "handle_message F t now k ?sq = Some sq1" using handle_message_total [of k ?sq F t now] l by auto
    have h: "link_ok sq1" "unat (sq_receive_seq sq1) < unat (sq_receive_seq sq) + 16"
      using handle_message_keeps [OF m] 1(2,3) l by (simp_all add: link_ok_def)
    let ?sq1 = "sq1\<lparr>sq_input_buf := drop k ?b\<rparr>"
    have s: "input_loop F t now sq = input_loop F t now ?sq1" using step k(1,2) m by simp
    have "\<exists>sq'. input_loop F t now ?sq1 = Some sq' \<and> link_ok sq' \<and> length (sq_input_buf sq') < MESSAGE_MAX"
      using 1(1) [OF k(1) refl refl, of sq1] k(2) m h l 1(3) by (simp add: link_ok_def)
    then show ?case by (simp only: s)
  qed
qed

section \<open>The queues of pending messages\<close>

definition msg_ok :: "'d queue_message \<Rightarrow> bool" where
  "msg_ok qm \<longleftrightarrow> qm_len qm \<le> length (qm_msg qm) \<and> qm_len qm \<le> MESSAGE_PAYLOAD_MAX \<and> qm_req_clock qm < MAX_CLOCK"

definition msgs_bytes :: "'d queue_message list \<Rightarrow> int" where
  "msgs_bytes ms = int (sum_list (map qm_len ms))"

text \<open>A list of command queues names exactly those with messages, and \<open>bytes\<close> is the sum of their lengths.\<close>

definition index_ok :: "nat list \<Rightarrow> (nat \<Rightarrow> 'd queue_message list) \<Rightarrow> int \<Rightarrow> bool" where
  "index_ok qs msgs bytes \<longleftrightarrow> distinct qs \<and> (\<forall>q. q \<in> set qs \<longleftrightarrow> msgs q \<noteq> []) \<and> bytes = (\<Sum>q \<in> set qs. msgs_bytes (msgs q))
     \<and> (\<forall>q. \<forall>m \<in> set (msgs q). msg_ok m)"

definition queues_ok :: "'d serialqueue \<Rightarrow> bool" where
  "queues_ok sq \<longleftrightarrow> index_ok (sq_ready_queues sq) (cq_ready sq) (sq_ready_bytes sq)
     \<and> index_ok (sq_upcoming_queues sq) (cq_upcoming sq) (sq_upcoming_bytes sq)"

lemma msgs_bytes_simps [simp]: "msgs_bytes [] = 0" "msgs_bytes (m # ms) = int (qm_len m) + msgs_bytes ms" "msgs_bytes (ms @ ms') = msgs_bytes ms + msgs_bytes ms'"
  by (simp_all add: msgs_bytes_def)

lemma msgs_bytes_nonneg: "0 \<le> msgs_bytes ms"
  by (simp add: msgs_bytes_def)

lemma index_ok_bytes: "index_ok qs msgs bytes \<Longrightarrow> bytes \<noteq> 0 \<Longrightarrow> qs \<noteq> []"
  by (auto simp: index_ok_def)

lemma sum_upd_mem: "q \<in> set qs \<Longrightarrow> (\<Sum>p \<in> set qs. msgs_bytes ((msgs(q := ms)) p)) = (\<Sum>p \<in> set qs. msgs_bytes (msgs p)) - msgs_bytes (msgs q) + msgs_bytes ms"
  by (simp add: sum.remove [of _ q])

lemma sum_upd_other: "q \<notin> set qs \<Longrightarrow> (\<Sum>p \<in> set qs. msgs_bytes ((msgs(q := ms)) p)) = (\<Sum>p \<in> set qs. msgs_bytes (msgs p))"
  by (intro sum.cong) auto

lemma index_ok_append:
  assumes "index_ok qs msgs bytes" "\<forall>m \<in> set ms. msg_ok m"
  shows "index_ok (if msgs q = [] \<and> ms \<noteq> [] then qs @ [q] else qs) (msgs(q := msgs q @ ms)) (bytes + msgs_bytes ms)"
proof (cases "q \<in> set qs")
  case True
  then show ?thesis using assms by (auto simp: index_ok_def sum_upd_mem simp del: fun_upd_apply) (auto simp: split: if_splits)
next
  case False
  then have e: "msgs q = []" using assms(1) by (auto simp: index_ok_def)
  show ?thesis
  proof (cases "ms = []")
    case True
    then show ?thesis using assms(1) e by (simp add: fun_upd_idem)
  next
    case ms: False
    then show ?thesis using assms e False by (auto simp: index_ok_def sum_upd_other simp del: fun_upd_apply) (auto split: if_splits)
  qed
qed

lemma index_ok_tl:
  assumes "index_ok qs msgs bytes" "msgs q = m # ms"
  shows "index_ok (if ms = [] then remove1 q qs else qs) (msgs(q := ms)) (bytes - int (qm_len m))"
proof -
  have q: "q \<in> set qs" "distinct qs" using assms by (auto simp: index_ok_def)
  show ?thesis
  proof (cases "ms = []")
    case True
    have "(\<Sum>p \<in> set qs - {q}. msgs_bytes ((msgs(q := [])) p)) = (\<Sum>p \<in> set qs - {q}. msgs_bytes (msgs p))" by (intro sum.cong) auto
    then show ?thesis using assms q True by (auto simp: index_ok_def set_remove1_eq sum.remove [of _ q] simp del: fun_upd_apply) (auto split: if_splits)
  next
    case False
    moreover have "\<forall>x \<in> set ms. msg_ok x" using assms by (auto simp: index_ok_def) (metis list.set_intros(2))
    ultimately show ?thesis using assms q by (auto simp: index_ok_def sum_upd_mem simp del: fun_upd_apply) (auto split: if_splits)
  qed
qed

definition pending_of :: "'d serialqueue \<Rightarrow> nat \<Rightarrow> 'd queue_message list" where
  "pending_of sq q = cq_ready sq q @ cq_upcoming sq q"

definition of_queue :: "nat \<Rightarrow> (nat \<times> 'd queue_message) list \<Rightarrow> 'd queue_message list" where
  "of_queue q taken = map snd (filter (\<lambda>p. fst p = q) taken)"

definition taken_bytes :: "(nat \<times> 'd queue_message) list \<Rightarrow> u8 list" where
  "taken_bytes taken = concat (map (\<lambda>p. take (qm_len (snd p)) (qm_msg (snd p))) taken)"

text \<open>The state after \<open>taken\<close> has left the queues.\<close>

definition sends :: "(nat \<times> 'd queue_message) list \<Rightarrow> 'd serialqueue \<Rightarrow> 'd serialqueue \<Rightarrow> bool" where
  "sends taken sq sq' \<longleftrightarrow> queues_ok sq' \<and> (\<forall>q. pending_of sq q = of_queue q taken @ pending_of sq' q)"

lemma of_queue_simps [simp]: "of_queue q [] = []" "of_queue q ((p, m) # ts) = (if p = q then [m] else []) @ of_queue q ts"
    "of_queue q (ts @ ts') = of_queue q ts @ of_queue q ts'"
  by (simp_all add: of_queue_def)

lemma taken_bytes_simps [simp]: "taken_bytes [] = []" "taken_bytes ((p, m) # ts) = take (qm_len m) (qm_msg m) @ taken_bytes ts"
    "taken_bytes (ts @ ts') = taken_bytes ts @ taken_bytes ts'"
  by (simp_all add: taken_bytes_def)

lemma sends_trans: "sends ts sq sq1 \<Longrightarrow> sends ts' sq1 sq2 \<Longrightarrow> sends (ts @ ts') sq sq2"
  by (simp add: sends_def)

section \<open>Release\<close>

lemma release_queue_ok:
  assumes "release_queue c q m sq = (k, st, sq')" "index_ok (sq_ready_queues sq) (cq_ready sq) (sq_ready_bytes sq)" "\<forall>p. \<forall>m \<in> set (cq_upcoming sq p). msg_ok m"
  shows "index_ok (sq_ready_queues sq') (cq_ready sq') (sq_ready_bytes sq')" "k = (cq_upcoming sq' q \<noteq> [])" "\<And>p. p \<noteq> q \<Longrightarrow> cq_upcoming sq' p = cq_upcoming sq p"
    "\<And>p. pending_of sq' p = pending_of sq p" "\<forall>p. \<forall>m \<in> set (cq_upcoming sq' p). msg_ok m"
    "sq_upcoming_bytes sq' = sq_upcoming_bytes sq - msgs_bytes (cq_upcoming sq q) + msgs_bytes (cq_upcoming sq' q)"
proof -
  define moved rest where "moved = takeWhile (\<lambda>qm. \<not> c < qm_min_clock qm) (cq_upcoming sq q)" and "rest = dropWhile (\<lambda>qm. \<not> c < qm_min_clock qm) (cq_upcoming sq q)"
  have u: "cq_upcoming sq q = moved @ rest" by (simp add: moved_def rest_def)
  have f: "k = (rest \<noteq> [])" "cq_upcoming sq' = (cq_upcoming sq)(q := rest)" "cq_ready sq' = (cq_ready sq)(q := cq_ready sq q @ moved)"
    "sq_ready_queues sq' = (if cq_ready sq q = [] \<and> moved \<noteq> [] then sq_ready_queues sq @ [q] else sq_ready_queues sq)"
    "sq_ready_bytes sq' = sq_ready_bytes sq + msgs_bytes moved" "sq_upcoming_bytes sq' = sq_upcoming_bytes sq - msgs_bytes moved"
    using assms(1) by (auto simp: release_queue_def Let_def moved_def rest_def msgs_bytes_def)
  have "\<forall>m \<in> set moved. msg_ok m" using assms(3) u by (metis UnCI set_append)
  from index_ok_append [OF assms(2) this, of q] show "index_ok (sq_ready_queues sq') (cq_ready sq') (sq_ready_bytes sq')" by (simp add: f)
  show "k = (cq_upcoming sq' q \<noteq> [])" "\<And>p. p \<noteq> q \<Longrightarrow> cq_upcoming sq' p = cq_upcoming sq p" by (simp_all add: f)
  show "pending_of sq' p = pending_of sq p" for p using u by (simp add: pending_of_def f)
  show "\<forall>p. \<forall>m \<in> set (cq_upcoming sq' p). msg_ok m" using assms(3) u by (auto simp: f) (metis UnCI set_append)
  show "sq_upcoming_bytes sq' = sq_upcoming_bytes sq - msgs_bytes (cq_upcoming sq q) + msgs_bytes (cq_upcoming sq' q)" using u by (simp add: f)
qed

lemma release_queues_ok:
  "release_queues c qs m sq = (kept, st, sq') \<Longrightarrow> distinct qs \<Longrightarrow> index_ok (sq_ready_queues sq) (cq_ready sq) (sq_ready_bytes sq) \<Longrightarrow>
     \<forall>p. \<forall>m \<in> set (cq_upcoming sq p). msg_ok m \<Longrightarrow>
     index_ok (sq_ready_queues sq') (cq_ready sq') (sq_ready_bytes sq') \<and> kept = filter (\<lambda>q. cq_upcoming sq' q \<noteq> []) qs
     \<and> (\<forall>p. p \<notin> set qs \<longrightarrow> cq_upcoming sq' p = cq_upcoming sq p) \<and> (\<forall>p. pending_of sq' p = pending_of sq p) \<and> (\<forall>p. \<forall>m \<in> set (cq_upcoming sq' p). msg_ok m)
     \<and> sq_upcoming_bytes sq' = sq_upcoming_bytes sq - (\<Sum>q \<in> set qs. msgs_bytes (cq_upcoming sq q)) + (\<Sum>q \<in> set qs. msgs_bytes (cq_upcoming sq' q))"
proof (induction qs arbitrary: m sq kept st sq')
  case (Cons q qs)
  obtain k1 st1 sq1 where r: "release_queue c q m sq = (k1, st1, sq1)" by (cases "release_queue c q m sq")
  obtain ks st2 sq2 where rs: "release_queues c qs st1 sq1 = (ks, st2, sq2)" by (cases "release_queues c qs st1 sq1")
  have e: "sq2 = sq'" "kept = (if k1 then q # ks else ks)" using Cons.prems(1) r rs by (auto simp: Let_def)
  have n: "q \<notin> set qs" "distinct qs" using Cons.prems(2) by auto
  note o = release_queue_ok [OF r Cons.prems(3,4)]
  note i = Cons.IH [OF rs n(2) o(1,5)]
  have k: "cq_upcoming sq2 q = cq_upcoming sq1 q" using i n(1) by blast
  have "(\<Sum>p \<in> set qs. msgs_bytes (cq_upcoming sq1 p)) = (\<Sum>p \<in> set qs. msgs_bytes (cq_upcoming sq p))" using o(3) n(1) by (intro sum.cong refl arg_cong [of _ _ msgs_bytes]) metis
  then show ?case using i o k n(1) e by auto
qed simp

lemma check_upcoming_ok:
  assumes "check_upcoming_queues c sq = (st, sq')" "queues_ok sq"
  shows "sends [] sq sq'"
proof -
  let ?sq = "sq\<lparr>sq_need_kick_clock := 0\<rparr>"
  obtain kept s2 sq2 where r: "release_queues c (sq_upcoming_queues sq) MAX_CLOCK ?sq = (kept, s2, sq2)"
    by (cases "release_queues c (sq_upcoming_queues sq) MAX_CLOCK ?sq")
  have e: "sq' = (if c < sq_min_release_clock sq then ?sq else sq2\<lparr>sq_upcoming_queues := kept, sq_min_release_clock := s2\<rparr>)"
    using arg_cong [OF assms(1), of snd] by (simp add: check_upcoming_queues_def r Let_def split: if_splits)
  have q: "distinct (sq_upcoming_queues sq)" "index_ok (sq_ready_queues ?sq) (cq_ready ?sq) (sq_ready_bytes ?sq)" "\<forall>p. \<forall>m \<in> set (cq_upcoming ?sq p). msg_ok m"
    "sq_upcoming_bytes sq = (\<Sum>q \<in> set (sq_upcoming_queues sq). msgs_bytes (cq_upcoming sq q))" "\<And>q. q \<in> set (sq_upcoming_queues sq) \<longleftrightarrow> cq_upcoming sq q \<noteq> []"
    using assms(2) by (auto simp: queues_ok_def index_ok_def)
  note o = release_queues_ok [OF r q(1-3)]
  have z: "cq_upcoming sq2 p = []" if "p \<notin> set (sq_upcoming_queues sq)" for p using that o q(5) by simp
  have "index_ok kept (cq_upcoming sq2) (sq_upcoming_bytes sq2)"
  proof -
    have "(\<Sum>q \<in> set (sq_upcoming_queues sq). msgs_bytes (cq_upcoming sq2 q)) = (\<Sum>q \<in> set kept. msgs_bytes (cq_upcoming sq2 q))"
      using o by (intro sum.mono_neutral_right) auto
    then show ?thesis using o q z by (auto simp: index_ok_def)
  qed
  then show ?thesis using o e assms(2) by (auto simp: sends_def queues_ok_def pending_of_def)
qed

section \<open>Blocks\<close>

lemma lowest_ready_total:
  assumes "\<And>q. q \<in> set qs \<Longrightarrow> ready q \<noteq> []" "best \<noteq> None \<or> (\<exists>q \<in> set qs. qm_req_clock (hd (ready q)) < c)"
  shows "\<exists>q m. lowest_ready ready qs c best = Some (Some (q, m))"
  using assms
proof (induction qs arbitrary: c best)
  case (Cons q qs)
  obtain m ms where q: "ready q = m # ms" using Cons.prems(1) by (metis list.set_intros(1) neq_Nil_conv)
  show ?case
  proof (cases "qm_req_clock m < c")
    case True
    then show ?thesis using Cons.IH [of "Some (q, m)" "qm_req_clock m"] Cons.prems(1) q by simp
  next
    case False
    then show ?thesis using Cons.IH [of best c] Cons.prems q by auto
  qed
qed auto

lemma take_ready_sends:
  assumes "queues_ok sq" "cq_ready sq q = m # ms"
  shows "sends [(q, m)] sq (take_ready q m sq)"
proof -
  have "index_ok (if ms = [] then remove1 q (sq_ready_queues sq) else sq_ready_queues sq) ((cq_ready sq)(q := ms)) (sq_ready_bytes sq - int (qm_len m))"
    by (intro index_ok_tl) (use assms in \<open>simp_all add: queues_ok_def\<close>)
  then show ?thesis using assms by (auto simp: sends_def queues_ok_def take_ready_def pending_of_def Let_def)
qed

lemma build_payload_sends:
  "queues_ok sq \<Longrightarrow> \<exists>payload' sq' taken. build_payload payload sq = Some (payload', sq') \<and> sends taken sq sq' \<and> payload' = payload @ taken_bytes taken"
proof (induction payload sq rule: build_payload.induct)
  case (1 payload sq)
  note step = build_payload.simps [of payload sq]
  show ?case
  proof (cases "sq_ready_bytes sq = 0")
    case True
    then show ?thesis using step 1(2) by (auto simp: sends_def intro!: exI [of _ "[]"])
  next
    case False
    have i: "index_ok (sq_ready_queues sq) (cq_ready sq) (sq_ready_bytes sq)" using 1(2) by (simp add: queues_ok_def)
    then have n: "sq_ready_queues sq \<noteq> []" "\<And>q. q \<in> set (sq_ready_queues sq) \<Longrightarrow> cq_ready sq q \<noteq> []" "\<And>q m. m \<in> set (cq_ready sq q) \<Longrightarrow> msg_ok m"
      using index_ok_bytes [OF i False] by (auto simp: index_ok_def)
    have h: "hd (sq_ready_queues sq) \<in> set (sq_ready_queues sq)" using n(1) by simp
    have "msg_ok (hd (cq_ready sq (hd (sq_ready_queues sq))))" by (rule n(3) [OF hd_in_set [OF n(2) [OF h]]])
    then have "\<exists>q \<in> set (sq_ready_queues sq). qm_req_clock (hd (cq_ready sq q)) < MAX_CLOCK" using h by (auto simp: msg_ok_def)
    then obtain q m where l: "lowest_ready (cq_ready sq) (sq_ready_queues sq) MAX_CLOCK None = Some (Some (q, m))"
      using lowest_ready_total n(2) by metis
    then obtain ms where q: "cq_ready sq q = m # ms" using lowest_ready_Some by fastforce
    show ?thesis
    proof (cases "MESSAGE_HEADER_SIZE + length payload + qm_len m > MESSAGE_MAX - MESSAGE_TRAILER_SIZE")
      case True
      then show ?thesis using step l False 1(2) by (auto simp: sends_def intro!: exI [of _ "[]"])
    next
      case fits: False
      have b: "qm_bytes m = Some (take (qm_len m) (qm_msg m))" using n(3) [of m q] q by (simp add: qm_bytes_def msg_ok_def)
      have s: "build_payload payload sq = build_payload (payload @ take (qm_len m) (qm_msg m)) (take_ready q m sq)"
        using step l False fits b by simp
      note t = take_ready_sends [OF 1(2) q]
      then have "queues_ok (take_ready q m sq)" by (simp add: sends_def)
      from 1(1) [OF False l refl refl fits b this]
      obtain payload' sq' taken where r: "build_payload (payload @ take (qm_len m) (qm_msg m)) (take_ready q m sq) = Some (payload', sq')"
        "sends taken (take_ready q m sq) sq'" "payload' = (payload @ take (qm_len m) (qm_msg m)) @ taken_bytes taken" by blast
      have "sends ((q, m) # taken) sq sq'" using sends_trans [OF t r(2)] by simp
      then show ?thesis using r(1,3) s by (intro exI [of _ payload'] exI [of _ sq'] exI [of _ "(q, m) # taken"]) simp
    qed
  qed
qed

lemma store_block_queues [simp]:
  "queues_ok (store_block F it out sq) = queues_ok sq" "pending_of (store_block F it out sq) = pending_of sq"
  by (simp_all add: store_block_def update_timer_def queues_ok_def pending_of_def Let_def fun_eq_iff)

lemma build_sends:
  assumes "queues_ok sq"
  obtains taken sq' where "build_and_send_command F n t sq = Some (frame (seq_byte (sq_send_seq sq)) (taken_bytes taken), sq')"
    "sends taken sq sq'" "length (taken_bytes taken) \<le> 59"
proof -
  obtain payload sq1 taken where b: "build_payload [] sq = Some (payload, sq1)" "sends taken sq sq1" "payload = taken_bytes taken"
    using build_payload_sends [OF assms, of "[]"] by auto
  obtain it out where o: "build_and_send_command F n t sq = Some (frame (seq_byte (sq_send_seq sq)) payload, store_block F it out sq1)" "length payload \<le> 59"
    by (rule build_block [OF b(1)])
  show thesis by (rule that [of taken "store_block F it out sq1"]) (use o b in \<open>simp_all add: sends_def\<close>)
qed

section \<open>Sending\<close>

lemma need_kick_sends: "update_need_kick_clock c sq = (b, sq') \<Longrightarrow> queues_ok sq \<Longrightarrow> sends [] sq sq'"
  by (auto simp: update_need_kick_clock_def sends_def queues_ok_def pending_of_def split: if_splits)

lemma min_ready_clock_total: "(\<And>q. q \<in> set qs \<Longrightarrow> cq_ready sq q \<noteq> []) \<Longrightarrow> \<exists>c'. min_ready_clock F t sq qs c = Some c'"
proof (induction qs arbitrary: c)
  case (Cons q qs)
  then obtain m ms where "cq_ready sq q = m # ms" by (metis list.set_intros(1) neq_Nil_conv)
  then show ?case using Cons by (auto simp: Let_def)
qed simp

lemma check_ready_sends:
  assumes "queues_ok sq"
  shows "\<exists>w sq'. check_ready F p t it c st sq = Some (w, sq') \<and> sends [] sq sq'"
proof -
  have s: "sends [] sq sq" using assms by (simp add: sends_def)
  have k: "sends [] sq (snd (update_need_kick_clock wc sq))" for wc using need_kick_sends [of wc sq _ _, OF surjective_pairing] assms by simp
  obtain c' where m: "min_ready_clock F (if p \<noteq> 0 then it else sq_idle_time sq) sq (sq_ready_queues sq) MAX_CLOCK = Some c'"
    using min_ready_clock_total [of "sq_ready_queues sq" sq F] assms unfolding queues_ok_def index_ok_def by metis
  show ?thesis unfolding check_ready_def m sleep_until_def Let_def case_prod_beta using s k by auto
qed

lemma check_send_sends:
  assumes "queues_ok sq"
  shows "\<exists>w sq'. check_send_command F p t sq = Some (w, sq') \<and> sends [] sq sq'"
proof -
  define it where "it = f_add F (if f_less F (sq_idle_time sq) t then t else sq_idle_time sq) (calculate_bittime F sq (of_nat (p + MESSAGE_MIN)))"
  obtain st sq1 where c: "check_upcoming_queues (clock_from_time F (sq_ce sq) it) sq = (st, sq1)" by fastforce
  note s = check_upcoming_ok [OF c assms]
  have "queues_ok sq1" using s by (simp add: sends_def)
  from check_ready_sends [OF this, of F p t it "clock_from_time F (sq_ce sq) it" st]
  obtain w sq' where r: "check_ready F p t it (clock_from_time F (sq_ce sq) it) st sq1 = Some (w, sq')" "sends [] sq1 sq'" by blast
  show ?thesis unfolding check_send_command_def Let_def it_def [symmetric] c split_conv using s r sends_trans [OF s r(2)] by auto
qed

text \<open>The blocks with the commands \<open>tss\<close>, numbered from \<open>n\<close> on.\<close>

fun blocks_of :: "u64 \<Rightarrow> (nat \<times> 'd queue_message) list list \<Rightarrow> u8 list list" where
  "blocks_of n [] = []"
| "blocks_of n (ts # tss) = frame (seq_byte n) (taken_bytes ts) # blocks_of (n + 1) tss"

lemma command_loop_sends:
  "queues_ok sq \<Longrightarrow> length buf + MESSAGE_MAX \<le> MESSAGE_MAX * MAX_PENDING_BLOCKS \<Longrightarrow>
     \<exists>w sq' tss. command_loop F t buf sq = Some (w, buf @ concat (blocks_of (sq_send_seq sq) tss), sq') \<and> sends (concat tss) sq sq'
       \<and> length (buf @ concat (blocks_of (sq_send_seq sq) tss)) \<le> MESSAGE_MAX * MAX_PENDING_BLOCKS"
proof (induction F t buf sq rule: command_loop.induct)
  case (1 F t buf sq)
  note step = command_loop.simps [of F t buf sq]
  obtain w1 sq1 where c: "check_send_command F (length buf) t sq = Some (w1, sq1)" "sends [] sq sq1" using check_send_sends [OF 1(2)] by blast
  have q1: "queues_ok sq1" "sq_send_seq sq1 = sq_send_seq sq" using c(2) check_send_keeps [OF c(1)] by (simp_all add: sends_def same_link_def)
  show ?case
  proof (cases "f_eq F w1 (PR_NOW F)")
    case False
    then have "command_loop F t buf sq = Some (w1, buf, sq1)" using step c(1) by simp
    then show ?thesis using c(2) 1(3) by (intro exI [of _ w1] exI [of _ sq1] exI [of _ "[]"]) simp
  next
    case now: True
    obtain ts sq2 where b: "build_and_send_command F (length buf) t sq1 = Some (frame (seq_byte (sq_send_seq sq)) (taken_bytes ts), sq2)"
      "sends ts sq1 sq2" "length (taken_bytes ts) \<le> 59" using build_sends [OF q1(1), of F "length buf" t] q1(2) by metis
    let ?f = "frame (seq_byte (sq_send_seq sq)) (taken_bytes ts)"
    have n: "sq_send_seq sq2 = sq_send_seq sq + 1" using build_command_block [OF b(1)] q1(2) by metis
    have s: "sends ts sq sq2" using sends_trans [OF c(2) b(2)] by simp
    have l: "length (buf @ ?f) \<le> MESSAGE_MAX * MAX_PENDING_BLOCKS" using b(3) 1(3) by simp
    show ?thesis
    proof (cases "length (buf @ ?f) + MESSAGE_MAX > MESSAGE_MAX * MAX_PENDING_BLOCKS")
      case True
      then have "command_loop F t buf sq = Some (w1, buf @ ?f, sq2)" using step c(1) now b(1) by simp
      then show ?thesis using s l by (intro exI [of _ w1] exI [of _ sq2] exI [of _ "[ts]"]) simp
    next
      case False
      then have r: "command_loop F t buf sq = command_loop F t (buf @ ?f) sq2" using step c(1) now b(1) by simp
      have "\<exists>w sq' tss. command_loop F t (buf @ ?f) sq2 = Some (w, (buf @ ?f) @ concat (blocks_of (sq_send_seq sq2) tss), sq') \<and> sends (concat tss) sq2 sq'
         \<and> length ((buf @ ?f) @ concat (blocks_of (sq_send_seq sq2) tss)) \<le> MESSAGE_MAX * MAX_PENDING_BLOCKS"
        by (rule 1(1) [OF c(1) refl _ b(1) refl]) (use now False s in \<open>simp_all add: sends_def\<close>)
      then obtain w sq' tss where o: "command_loop F t buf sq = Some (w, (buf @ ?f) @ concat (blocks_of (sq_send_seq sq + 1) tss), sq')" "sends (concat tss) sq2 sq'"
        "length ((buf @ ?f) @ concat (blocks_of (sq_send_seq sq + 1) tss)) \<le> MESSAGE_MAX * MAX_PENDING_BLOCKS" unfolding n r by blast
      show ?thesis using o sends_trans [OF s o(2)] by (intro exI [of _ w] exI [of _ sq'] exI [of _ "ts # tss"]) simp
    qed
  qed
qed

lemma can_write_queues: "queues_ok (can_write F wr now buf sq) = queues_ok sq \<and> pending_of (can_write F wr now buf sq) = pending_of sq"
proof (induction F wr now buf sq rule: can_write.induct)
  case (1 F wr now buf sq)
  show ?case
  proof (cases "buf = [] \<or> wr (length (sq_output sq)) < 0")
    case True
    then show ?thesis by (elim disjE) (simp_all add: can_write.simps [of F wr now buf] can_write.simps [of F wr now "[]"] queues_ok_def pending_of_def fun_eq_iff)
  next
    case False
    then show ?thesis using 1 by (simp add: can_write.simps [of F wr now buf sq] queues_ok_def pending_of_def fun_eq_iff)
  qed
qed

lemma do_write_queues: "queues_ok (do_write F wr now buf sq) = queues_ok sq" "pending_of (do_write F wr now buf sq) = pending_of sq"
  using can_write_queues [of F wr now buf sq] by (simp_all add: do_write_def queues_ok_def pending_of_def fun_eq_iff)

section \<open>Properties of the queue\<close>


text \<open>
  C17. The receiving half of the host: whatever bytes arrive, as long as they fit into the input buffer, they are processed
  without an access outside it, less than one block stays in the buffer, and the window stays well-formed: the sent queue
  holds the frames from \<open>receive_seq\<close> up to \<open>send_seq\<close>, at most \<open>MAX_PENDING_BLOCKS\<close>.
\<close>

theorem input_event_safe:
  assumes "link_ok sq" "length (sq_input_buf sq) + length bytes \<le> 4096" "unat (sq_receive_seq sq) < 0x8000000000000000"
    and "length (sq_input_buf sq) < MESSAGE_MAX"
  shows "\<exists>sq'. input_event F t now (Some (can_id, bytes)) sq = Some sq' \<and> link_ok sq' \<and> length (sq_input_buf sq') < MESSAGE_MAX"
proof (cases "sq_serial_fd_type sq = SQT_CAN \<and> can_id \<noteq> sq_client_id sq + 1")
  case True
  then show ?thesis using assms by (simp add: input_event_def)
next
  case False
  have "link_ok (sq\<lparr>sq_input_buf := sq_input_buf sq @ bytes\<rparr>)" using assms(1) by (simp add: link_ok_def)
  from input_loop_ok [OF this, of F t now] show ?thesis using False assms(2,3) by (auto simp: input_event_def)
qed

text \<open>
  C18. A retransmission never writes behind its buffer and hands the port one sync byte and every unacknowledged block in
  order; the window does not change.
\<close>

theorem retransmit_resends:
  assumes "link_ok sq" "sq_serial_fd_type sq \<noteq> SQT_CAN" "0 \<le> wr (length (sq_output sq))"
  shows "\<exists>w sq' blks. retransmit_event F wr now t sq = Some (w, sq') \<and> map qm_bytes (sq_sent_queue sq) = map Some blks
     \<and> sq_output sq' = sq_output sq @ [MESSAGE_SYNC # concat blks] \<and> sq_sent_queue sq' = sq_sent_queue sq \<and> link_ok sq'"
proof -
  obtain blks w sq' where "map qm_bytes (sq_sent_queue sq) = map Some blks" "retransmit_event F wr now t sq = Some (w, sq')" "same_link sq sq'"
    "sq_output sq' = sq_output (do_write F wr now (MESSAGE_SYNC # concat blks) sq)" by (rule retransmit_sends [OF assms(1)])
  then show ?thesis using assms link_ok_cong [of sq sq'] by (auto simp: do_write_def same_link_def)
qed

lemma send_batch_pending:
  assumes "queues_ok sq" "\<forall>m \<in> set msgs. msg_ok m" "\<exists>m \<in> set msgs. 0 < qm_len m"
  shows "queues_ok (serialqueue_send_batch cq msgs sq)
     \<and> pending_of (serialqueue_send_batch cq msgs sq) = (pending_of sq)(cq := pending_of sq cq @ map limit_min_clock msgs)"
proof -
  define ms where "ms = map limit_min_clock msgs"
  have l: "qm_len (limit_min_clock m) = qm_len m" "qm_msg (limit_min_clock m) = qm_msg m" "qm_req_clock (limit_min_clock m) = qm_req_clock m" for m
    by (simp_all add: limit_min_clock_def)
  have ok: "\<forall>m \<in> set ms. msg_ok m" using assms(2) by (auto simp: ms_def msg_ok_def l)
  have n: "sum_list (map qm_len ms) \<noteq> 0" "ms \<noteq> []" using assms(3) by (auto simp: ms_def l)
  let ?sq = "serialqueue_send_batch cq msgs sq"
  have f: "sq_upcoming_queues ?sq = (if cq_upcoming sq cq = [] \<and> ms \<noteq> [] then sq_upcoming_queues sq @ [cq] else sq_upcoming_queues sq)"
    "cq_upcoming ?sq = (cq_upcoming sq)(cq := cq_upcoming sq cq @ ms)" "sq_upcoming_bytes ?sq = sq_upcoming_bytes sq + msgs_bytes ms"
    "sq_ready_queues ?sq = sq_ready_queues sq" "cq_ready ?sq = cq_ready sq" "sq_ready_bytes ?sq = sq_ready_bytes sq"
    using n unfolding serialqueue_send_batch_def Let_def ms_def [symmetric] by (simp_all add: kick_bg_thread_def msgs_bytes_def del: sum_list_eq_0_iff)
  have "index_ok (sq_upcoming_queues ?sq) (cq_upcoming ?sq) (sq_upcoming_bytes ?sq)"
    unfolding f by (rule index_ok_append [OF _ ok]) (use assms(1) in \<open>simp add: queues_ok_def\<close>)
  then have "queues_ok ?sq" using assms(1) by (simp add: queues_ok_def f(4-6))
  moreover have "pending_of ?sq = (pending_of sq)(cq := pending_of sq cq @ ms)" by (rule ext) (simp add: pending_of_def f)
  ultimately show ?thesis by (simp add: ms_def)
qed

section \<open>Witnesses\<close>

definition demo_queue :: "int serialqueue" where
  "demo_queue = serialqueue_alloc demo_fops SQT_UART 0"

definition demo_command :: "int queue_message" where
  "demo_command = (message_alloc demo_fops)\<lparr>qm_len := 3, qm_msg := [1, 2, 3]\<rparr>"

lemma demo_queue_fields:
  "sq_ready_queues demo_queue = []" "cq_ready demo_queue = (\<lambda>_. [])" "sq_ready_bytes demo_queue = 0" "sq_upcoming_queues demo_queue = []"
  "cq_upcoming demo_queue = (\<lambda>_. [])" "sq_upcoming_bytes demo_queue = 0" "sq_receive_seq demo_queue = 1" "sq_send_seq demo_queue = 1"
  "sq_sent_queue demo_queue = []" "sq_input_buf demo_queue = []" "sq_serial_fd_type demo_queue = SQT_UART" "sq_output demo_queue = []"
  by (simp_all add: demo_queue_def serialqueue_alloc_def Let_def SQT_UART_def SQT_DEBUGFILE_def)

lemma demo_queue_ok: "queues_ok demo_queue" "link_ok demo_queue" "msg_ok demo_command"
  by (simp_all add: queues_ok_def index_ok_def link_ok_def demo_queue_fields msg_ok_def demo_command_def message_alloc_def MAX_CLOCK_def)

definition demo_loaded :: "int serialqueue" where
  "demo_loaded = demo_queue\<lparr>sq_upcoming_queues := [4], cq_upcoming := (\<lambda>_. [])(4 := [demo_command]), sq_upcoming_bytes := 3\<rparr>"

lemma demo_loaded_ok: "queues_ok demo_loaded"
  using demo_queue_ok by (auto simp: demo_loaded_def queues_ok_def index_ok_def demo_queue_fields demo_command_def)


theorem input_event_safe_witness:
  "\<exists>sq'. input_event demo_fops 1 1 (Some (0, [5, 0x12, 0, 0, 0x7e])) demo_queue = Some sq' \<and> link_ok sq'"
  using input_event_safe [of demo_queue "[5, 0x12, 0, 0, 0x7e]" demo_fops 1 1 0] demo_queue_ok(2) by (auto simp: demo_queue_fields)

definition demo_waiting :: "int serialqueue" where
  "demo_waiting = demo_queue\<lparr>sq_sent_queue := [(message_alloc demo_fops)\<lparr>qm_len := 8, qm_msg := frame 0x11 [1, 2, 3]\<rparr>], sq_send_seq := 2\<rparr>"

lemma demo_waiting_ok: "link_ok demo_waiting"
  by (auto simp: link_ok_def demo_waiting_def demo_queue_fields MAX_PENDING_BLOCKS_def qm_bytes_def seq_byte_def intro!: exI [of _ "[1, 2, 3]"])

theorem retransmit_resends_witness:
  "\<exists>w sq'. retransmit_event demo_fops (\<lambda>_. 769) 1 1 demo_waiting = Some (w, sq') \<and> sq_output sq' = [MESSAGE_SYNC # frame 0x11 [1, 2, 3]]"
  using retransmit_resends [OF demo_waiting_ok, of "\<lambda>_. 769" demo_fops 1 1]
  by (auto simp: demo_waiting_def demo_queue_fields SQT_UART_def SQT_CAN_def qm_bytes_def)

end
