(* ===== verification/Steppersync_Props.thy ===== *)
theory Steppersync_Props
  imports Steppersync Stepcompress_Props "HOL-Library.Multiset"
begin

text \<open>
  The heap of move clocks as a priority queue, the merge of the message queues of the emitters, the capacity of the
  micro-controller's move queue, and the background threads of \<open>klippy/chelper/steppersync.c\<close>.
\<close>

section \<open>The heap of move clocks\<close>

definition is_heap :: "u64 list \<Rightarrow> bool" where
  "is_heap mc \<longleftrightarrow> (\<forall>i. 0 < i \<and> i < length mc \<longrightarrow> mc ! ((i - 1) div 2) \<le> mc ! i)"

text \<open>A heap but for the entry at \<open>pos\<close>, which \<open>v\<close> is to replace.\<close>

definition heap_hole :: "nat \<Rightarrow> u64 \<Rightarrow> u64 list \<Rightarrow> bool" where
  "heap_hole pos v mc \<longleftrightarrow>
     (\<forall>i. 0 < i \<and> i < length mc \<and> i \<noteq> pos \<and> (i - 1) div 2 \<noteq> pos \<longrightarrow> mc ! ((i - 1) div 2) \<le> mc ! i)
     \<and> (0 < pos \<longrightarrow> mc ! ((pos - 1) div 2) \<le> v
          \<and> (\<forall>i. i < length mc \<and> 0 < i \<and> (i - 1) div 2 = pos \<longrightarrow> mc ! ((pos - 1) div 2) \<le> mc ! i))"

lemma parent_cases: "0 < i \<Longrightarrow> (i - 1) div 2 = pos \<longleftrightarrow> i = 2 * pos + 1 \<or> i = 2 * pos + 2" for i pos :: nat
  by auto

lemma is_heap_hole: "is_heap mc \<Longrightarrow> heap_hole 0 v mc"
  by (simp add: is_heap_def heap_hole_def)

lemma heap_min:
  assumes "is_heap mc" "i < length mc"
  shows "mc ! 0 \<le> mc ! i"
  using assms(2)
proof (induction i rule: less_induct)
  case (less i)
  show ?case
  proof (cases "i = 0")
    case False
    then have "mc ! 0 \<le> mc ! ((i - 1) div 2)" using less by (intro less.IH) auto
    also have "\<dots> \<le> mc ! i" using assms(1) False less.prems by (auto simp: is_heap_def)
    finally show ?thesis .
  qed simp
qed

lemma hole_filled:
  assumes "heap_hole pos v mc" "pos < length mc" "v \<le> heap_child mc (2 * pos + 1)" "v \<le> heap_child mc (2 * pos + 2)"
  shows "is_heap (mc[pos := v])"
  unfolding is_heap_def
proof (intro allI impI)
  fix i assume i: "0 < i \<and> i < length (mc[pos := v])"
  let ?p = "(i - 1) div 2"
  have p: "?p < i" using i by auto
  consider "i = pos" | "?p = pos" "i \<noteq> pos" | "i \<noteq> pos" "?p \<noteq> pos" by blast
  then show "mc[pos := v] ! ?p \<le> mc[pos := v] ! i"
  proof cases
    case 1
    then show ?thesis using assms(1,2) i p by (auto simp: heap_hole_def)
  next
    case 2
    then have "i = 2 * pos + 1 \<or> i = 2 * pos + 2" using parent_cases [of i pos] i by blast
    then show ?thesis using assms(2-4) i 2 by (auto simp: heap_child_def split: if_splits)
  next
    case 3
    then show ?thesis using assms(1) i by (auto simp: heap_hole_def)
  qed
qed

lemma hole_moves:
  assumes "heap_hole pos v mc" "pos < length mc" "c < length mc" "0 < c" "(c - 1) div 2 = pos" "mc ! c < v"
    and "\<And>i. i < length mc \<Longrightarrow> 0 < i \<Longrightarrow> (i - 1) div 2 = pos \<Longrightarrow> mc ! c \<le> mc ! i"
  shows "heap_hole c v (mc[pos := mc ! c])"
proof -
  let ?m = "mc[pos := mc ! c]"
  have pc: "pos < c" using assms(4,5) by auto
  have up: "?m ! ((i - 1) div 2) \<le> ?m ! i" if "0 < i" "i < length mc" "i \<noteq> c" "(i - 1) div 2 \<noteq> c" for i
  proof (cases "i = pos")
    case True
    then have "mc ! ((pos - 1) div 2) \<le> mc ! c" using assms(1,3-5) that(1) by (auto simp: heap_hole_def)
    moreover have "(pos - 1) div 2 \<noteq> pos" using that(1) True by auto
    ultimately show ?thesis using True assms(2) by simp
  next
    case False
    show ?thesis
    proof (cases "(i - 1) div 2 = pos")
      case True
      then show ?thesis using False assms(2) assms(7) [OF that(2,1) True] by simp
    next
      case pf: False
      then show ?thesis using False assms(1) that by (auto simp: heap_hole_def)
    qed
  qed
  have kid: "?m ! ((c - 1) div 2) \<le> ?m ! i" if "i < length mc" "0 < i" "(i - 1) div 2 = c" for i
  proof -
    have "i \<noteq> pos" using that pc by auto
    then have "mc ! c \<le> mc ! i" using assms(1) that pc by (auto simp: heap_hole_def)
    then show ?thesis using assms(2,5) \<open>i \<noteq> pos\<close> by simp
  qed
  have "?m ! ((c - 1) div 2) \<le> v" using assms(2,5,6) by simp
  then show ?thesis unfolding heap_hole_def length_list_update using up kid by blast
qed

lemma mset_move: "pos < length mc \<Longrightarrow> c < length mc \<Longrightarrow> c \<noteq> pos \<Longrightarrow>
    mset (mc[pos := mc ! c]) - {#mc ! c#} = mset mc - {#mc ! pos#}"
  by (simp add: mset_update)

lemma heap_sift_ok:
  "heap_hole pos v mc \<Longrightarrow> pos < length mc \<Longrightarrow>
    \<exists>mc'. heap_sift mc pos v = Some mc' \<and> is_heap mc' \<and> mset mc' = add_mset v (mset mc - {#mc ! pos#})"
proof (induction mc pos v rule: heap_sift.induct)
  case (1 mc pos v)
  let ?c1 = "heap_child mc (2 * pos + 1)" and ?c2 = "heap_child mc (2 * pos + 2)"
  show ?case
  proof (cases "v \<le> ?c1 \<and> v \<le> ?c2")
    case True
    then show ?thesis using 1(3,4) hole_filled [of pos v mc] by (simp add: heap_sift.simps mset_update)
  next
    case False
    define c where "c = (if ?c1 < ?c2 then 2 * pos + 1 else 2 * pos + 2)"
    have lt: "heap_child mc c < v" "heap_child mc c \<le> ?c1" "heap_child mc c \<le> ?c2"
      using False by (auto simp: c_def not_le not_less)
    have cl: "c < length mc"
    proof (rule ccontr)
      assume "\<not> c < length mc"
      then have "v > - 1" using lt(1) by (simp add: heap_child_def)
      then show False by (simp add: not_less [symmetric])
    qed
    have c: "0 < c" "(c - 1) div 2 = pos" "c \<noteq> pos" by (auto simp: c_def)
    have hc: "heap_child mc c = mc ! c" using cl by (simp add: heap_child_def)
    have le: "mc ! c \<le> mc ! i" if "i < length mc" "0 < i" "(i - 1) div 2 = pos" for i
      using parent_cases [of i pos] that lt(2,3) hc by (auto simp: heap_child_def)
    have s: "heap_sift mc pos v = heap_sift (mc[pos := mc ! c]) c v"
      using False 1(4) hc by (subst heap_sift.simps) (auto simp: c_def Let_def)
    have h: "heap_hole c v (mc[pos := mc ! c])"
      by (rule hole_moves [OF 1(3,4) cl c(1,2) _ le]) (use lt(1) hc in simp_all)
    have "\<exists>mc'. heap_sift (mc[pos := mc ! c]) c v = Some mc' \<and> is_heap mc'
        \<and> mset mc' = add_mset v (mset (mc[pos := mc ! c]) - {#mc[pos := mc ! c] ! c#})"
      using 1(1) [OF 1(4) refl refl False] 1(2) [OF 1(4) refl refl False] h cl hc
      by (cases "?c1 < ?c2") (simp_all add: c_def)
    then show ?thesis using s mset_move [OF 1(4) cl c(3)] c(3) by simp
  qed
qed

lemma heap_replace_ok:
  assumes "is_heap mc" "mc \<noteq> []"
  shows "\<exists>mc'. heap_replace v mc = Some mc' \<and> is_heap mc' \<and> mset mc' = add_mset v (mset mc - {#mc ! 0#})"
  using heap_sift_ok [OF is_heap_hole [OF assms(1)], of v] assms(2) by (simp add: heap_replace_def)

section \<open>The merge of the message queues\<close>

text \<open>\<open>orig\<close> are the messages as they were queued, \<open>msgs\<close> as they are sent: only \<open>min_clock\<close> differs.\<close>

definition sent_as :: "'d queue_message list \<Rightarrow> 'd queue_message list \<Rightarrow> bool" where
  "sent_as orig msgs \<longleftrightarrow> list_all2 (\<lambda>a b. b = a\<lparr>qm_min_clock := qm_min_clock b\<rparr>) orig msgs"

text \<open>\<open>merged ps os\<close>: the list \<open>os\<close> interleaves the lists \<open>ps\<close>, each in its order.\<close>

inductive merged :: "'a list list \<Rightarrow> 'a list \<Rightarrow> bool" where
  merged_Nil: "\<forall>p \<in> set ps. p = [] \<Longrightarrow> merged ps []"
| merged_Cons: "i < length ps \<Longrightarrow> ps ! i = x # p \<Longrightarrow> merged (ps[i := p]) os \<Longrightarrow> merged ps (x # os)"

lemma lowest_msg_None:
  "lowest_msg ses i c best = None \<longleftrightarrow> best = None \<and> (\<forall>se \<in> set ses. \<forall>m q. emitter_queue se = m # q \<longrightarrow> c \<le> qm_req_clock m)"
proof (induction ses i c best rule: lowest_msg.induct)
  case (2 se ses i c best)
  then show ?case by (cases "emitter_queue se") (auto simp: not_less)
qed simp

lemma lowest_msg_le:
  "lowest_msg ses i c best = Some (k, m) \<Longrightarrow> (best = Some (k', m') \<Longrightarrow> qm_req_clock m' = c) \<Longrightarrow> (best = None \<or> best = Some (k', m'))
    \<Longrightarrow> (\<forall>se \<in> set ses. \<forall>x q. emitter_queue se = x # q \<longrightarrow> qm_req_clock m \<le> qm_req_clock x) \<and> (best \<noteq> None \<longrightarrow> qm_req_clock m \<le> c)"
proof (induction ses i c best arbitrary: k' m' rule: lowest_msg.induct)
  case (2 se ses i c best)
  show ?case
  proof (cases "emitter_queue se")
    case Nil
    then show ?thesis using 2(1) [OF Nil] 2(4-6) by auto
  next
    case (Cons x q)
    show ?thesis
    proof (cases "qm_req_clock x < c")
      case True
      then show ?thesis using 2(2) [OF Cons True, of i x] 2(4-6) Cons by auto
    next
      case False
      show ?thesis
      proof (cases best)
        case None
        then show ?thesis using 2(3) [OF Cons False, of k' m'] 2(4) False Cons lowest_msg_Some [of ses "i+1" c None k m]
          by (auto simp: not_less)
      next
        case (Some b)
        then show ?thesis using 2(3) [OF Cons False, of k' m'] 2(4-6) False Cons by auto
      qed
    qed
  qed
qed auto

lemma lowest_is_lowest:
  assumes "lowest_msg ses 0 MAX_CLOCK None = Some (i, m)"
  shows "i < length ses" "\<exists>q. emitter_queue (ses ! i) = m # q" "qm_req_clock m < MAX_CLOCK"
    "\<forall>se \<in> set ses. \<forall>x q. emitter_queue se = x # q \<longrightarrow> qm_req_clock m \<le> qm_req_clock x"
  using lowest_msg_Some [OF assms] lowest_msg_le [OF assms] by auto

lemma flush_one_effect:
  assumes "flush_one c ses mc = Some (Some (qm, ses', mc'))"
  obtains i m q where "i < length ses" "emitter_queue (ses ! i) = m # q" "ses' = ses[i := set_emitter_queue q (ses ! i)]"
    "qm = m\<lparr>qm_min_clock := mc ! 0\<rparr>" "mc \<noteq> []" "qm_min_clock m = 0 \<or> qm_req_clock m \<le> c"
    "if qm_min_clock m \<noteq> 0 then heap_replace (qm_min_clock m) mc = Some mc' else mc' = mc"
    "\<forall>se \<in> set ses. \<forall>x q. emitter_queue se = x # q \<longrightarrow> qm_req_clock m \<le> qm_req_clock x"
proof -
  obtain i m where l: "lowest_msg ses 0 MAX_CLOCK None = Some (i, m)"
    using assms by (auto simp: flush_one_def split: option.splits)
  note ll = lowest_is_lowest [OF l]
  obtain q where q: "emitter_queue (ses ! i) = m # q" using ll(2) by blast
  have "ses' = ses[i := set_emitter_queue q (ses ! i)]" "qm = m\<lparr>qm_min_clock := mc ! 0\<rparr>" "mc \<noteq> []" "qm_min_clock m = 0 \<or> qm_req_clock m \<le> c"
    "if qm_min_clock m \<noteq> 0 then heap_replace (qm_min_clock m) mc = Some mc' else mc' = mc"
    using assms q by (auto simp: flush_one_def l bind_eq_Some_conv rd_def not_less split: if_splits)
  then show thesis using that ll(1,4) q by blast
qed

text \<open>A flush loses and invents nothing, keeps the order of each queue and of the clocks, and stops only at the limit.\<close>

definition sorted_queues :: "('d, 'k) syncemitter list \<Rightarrow> bool" where
  "sorted_queues ses \<longleftrightarrow> (\<forall>se \<in> set ses. sorted (map qm_req_clock (emitter_queue se)))"

lemma sorted_queues_take:
  assumes "sorted_queues ses" "i < length ses" "emitter_queue (ses ! i) = m # q"
  shows "sorted_queues (ses[i := set_emitter_queue q (ses ! i)])"
proof -
  have "sorted (map qm_req_clock (m # q))" using assms by (metis sorted_queues_def nth_mem)
  then show ?thesis using assms(1) set_update_subset_insert [of ses i "set_emitter_queue q (ses ! i)"]
    by (auto simp: sorted_queues_def)
qed

lemma heads_bound_all:
  assumes "sorted_queues ses" "\<forall>se \<in> set ses. \<forall>x q. emitter_queue se = x # q \<longrightarrow> c \<le> qm_req_clock x" "se \<in> set ses" "x \<in> set (emitter_queue se)"
  shows "c \<le> qm_req_clock x"
proof -
  obtain y q where y: "emitter_queue se = y # q" using assms(4) by (cases "emitter_queue se") auto
  have "sorted (map qm_req_clock (y # q))" using assms(1,3) y by (metis sorted_queues_def)
  then have "qm_req_clock y \<le> qm_req_clock x" using assms(4) y by auto
  moreover have "c \<le> qm_req_clock y" using assms(2,3) y by blast
  ultimately show ?thesis by simp
qed

definition busy :: "u64 list \<Rightarrow> u64 \<Rightarrow> nat" where
  "busy mc t = length (filter (\<lambda>h. t < h) mc)"

text \<open>The moves of a batch that are in the move queue at clock \<open>t\<close>: sent by then and not yet done.\<close>

definition in_flight :: "'d queue_message list \<Rightarrow> 'd queue_message list \<Rightarrow> u64 \<Rightarrow> nat" where
  "in_flight orig msgs t =
     length (filter (\<lambda>(a, b). qm_min_clock a \<noteq> 0 \<and> qm_min_clock b \<le> t \<and> t < qm_min_clock a) (zip orig msgs))"

lemma busy_mset: "busy mc t = size (filter_mset (\<lambda>h. t < h) (mset mc))"
  by (simp add: busy_def flip: mset_filter)

lemma heap_replace_length:
  assumes "is_heap mc" "mc \<noteq> []" "heap_replace v mc = Some mc'"
  shows "is_heap mc' \<and> length mc' = length mc"
proof -
  have m: "is_heap mc'" "mset mc' = add_mset v (mset mc - {#mc ! 0#})" using heap_replace_ok [OF assms(1,2), of v] assms(3) by auto
  have "mset mc = add_mset (mc ! 0) (mset mc - {#mc ! 0#})" using assms(2) by (simp add: nth_mem)
  then show ?thesis using m by (metis size_add_mset size_mset)
qed

lemma busy_replace:
  assumes "is_heap mc" "mc \<noteq> []" "heap_replace v mc = Some mc'" "mc ! 0 \<le> v"
  shows "busy mc' t = busy mc t + (if mc ! 0 \<le> t \<and> t < v then 1 else 0)"
proof -
  have m: "is_heap mc'" "mset mc' = add_mset v (mset mc - {#mc ! 0#})" using heap_replace_ok [OF assms(1,2), of v] assms(3) by auto
  have e: "mset mc = add_mset (mc ! 0) (mset mc - {#mc ! 0#})" using assms(2) by (simp add: nth_mem)
  have "busy mc t = size (filter_mset (\<lambda>h. t < h) (add_mset (mc ! 0) (mset mc - {#mc ! 0#})))" unfolding busy_mset using e by metis
  moreover have "busy mc' t = size (filter_mset (\<lambda>h. t < h) (add_mset v (mset mc - {#mc ! 0#})))" unfolding busy_mset m(2) ..
  ultimately show "busy mc' t = busy mc t + (if mc ! 0 \<le> t \<and> t < v then 1 else 0)" using assms(4) by auto
qed

text \<open>
  \<open>orig\<close> are the messages a flush takes, \<open>parts\<close> those of each emitter, \<open>msgs\<close> what it sends.
\<close>

definition batch_of :: "u64 \<Rightarrow> ('d, 'k) syncemitter list \<Rightarrow> u64 list \<Rightarrow> 'd queue_message list list \<Rightarrow> 'd queue_message list
    \<Rightarrow> 'd queue_message list \<Rightarrow> ('d, 'k) syncemitter list \<Rightarrow> u64 list \<Rightarrow> bool" where
  "batch_of c ses mc parts orig msgs ses' mc' \<longleftrightarrow>
     sent_as orig msgs \<and> length ses' = length ses \<and> length parts = length ses
     \<and> (\<forall>i < length ses. emitter_queue (ses ! i) = parts ! i @ emitter_queue (ses' ! i)) \<and> merged parts orig
     \<and> (\<forall>m \<in> set orig. qm_min_clock m = 0 \<or> qm_req_clock m \<le> c)
     \<and> (\<forall>m \<in> set orig. \<exists>se \<in> set ses. m \<in> set (emitter_queue se))"

lemma batch_of_Nil: "batch_of c ses mc (replicate (length ses) []) [] [] ses mc"
  by (auto simp: batch_of_def sent_as_def intro!: merged_Nil)

lemma queue_take_mem:
  assumes "i < length ses" "emitter_queue (ses ! i) = m # q"
    and "se \<in> set (ses[i := set_emitter_queue q (ses ! i)])" "x \<in> set (emitter_queue se)"
  shows "\<exists>se \<in> set ses. x \<in> set (emitter_queue se)"
proof -
  have "se = set_emitter_queue q (ses ! i) \<or> se \<in> set ses"
    using assms(3) set_update_subset_insert [of ses i "set_emitter_queue q (ses ! i)"] by blast
  moreover have "ses ! i \<in> set ses" "x \<in> set q \<Longrightarrow> x \<in> set (emitter_queue (ses ! i))" using assms(1,2) by auto
  ultimately show ?thesis using assms(4) by (metis emitter_queue_set)
qed

lemma batch_of_Cons:
  assumes "i < length ses" "emitter_queue (ses ! i) = m # q" "qm_min_clock m = 0 \<or> qm_req_clock m \<le> c"
    and "batch_of c (ses[i := set_emitter_queue q (ses ! i)]) mc1 parts orig msgs ses' mc'"
  shows "batch_of c ses mc (parts[i := m # parts ! i]) (m # orig) (m\<lparr>qm_min_clock := a\<rparr> # msgs) ses' mc'"
proof -
  let ?s = "ses[i := set_emitter_queue q (ses ! i)]"
  have b: "sent_as orig msgs" "length ses' = length ses" "length parts = length ses" "merged parts orig"
    "\<forall>m \<in> set orig. qm_min_clock m = 0 \<or> qm_req_clock m \<le> c"
    "\<And>j. j < length ses \<Longrightarrow> emitter_queue (?s ! j) = parts ! j @ emitter_queue (ses' ! j)"
    "\<And>x. x \<in> set orig \<Longrightarrow> \<exists>se \<in> set ?s. x \<in> set (emitter_queue se)"
    using assms(4) by (auto simp: batch_of_def)
  have q: "emitter_queue (ses ! j) = (parts[i := m # parts ! i]) ! j @ emitter_queue (ses' ! j)" if "j < length ses" for j
    using b(6) [OF that] assms(1,2) that b(3) by (cases "j = i") auto
  have mg: "merged (parts[i := m # parts ! i]) (m # orig)"
    by (rule merged_Cons [of i _ m "parts ! i"]) (use assms(1) b(3,4) in auto)
  have mem: "\<exists>se \<in> set ses. x \<in> set (emitter_queue se)" if xs: "x \<in> set (m # orig)" for x
  proof (cases "x = m")
    case True
    then show ?thesis using assms(1,2) by (intro bexI [of _ "ses ! i"]) auto
  next
    case False
    then obtain se where se: "se \<in> set ?s" "x \<in> set (emitter_queue se)" using b(7) xs by auto
    then show ?thesis by (rule queue_take_mem [OF assms(1,2)])
  qed
  have "sent_as (m # orig) (m\<lparr>qm_min_clock := a\<rparr> # msgs)" using b(1) by (simp add: sent_as_def)
  moreover have "\<forall>x \<in> set (m # orig). qm_min_clock x = 0 \<or> qm_req_clock x \<le> c" using b(5) assms(3) by simp
  ultimately show ?thesis unfolding batch_of_def length_list_update using b(2,3) q mg mem by blast
qed

lemma flush_one_total:
  assumes "is_heap mc" "mc \<noteq> []"
  shows "\<exists>r. flush_one c ses mc = Some r"
proof -
  have "\<exists>mc'. heap_replace v mc = Some mc'" for v using heap_replace_ok [OF assms] by blast
  then have "heap_replace v mc \<noteq> None" for v by (metis option.distinct(1))
  then show ?thesis using assms(2) by (auto simp: flush_one_def rd_def bind_eq_Some_conv split: option.splits prod.splits)
qed

lemma flush_batch_ok:
  "is_heap mc \<Longrightarrow> mc \<noteq> [] \<Longrightarrow>
   \<exists>parts orig msgs ses' mc'. flush_batch c ses mc = Some (msgs, ses', mc') \<and> batch_of c ses mc parts orig msgs ses' mc'
     \<and> is_heap mc' \<and> length mc' = length mc \<and> flush_one c ses' mc' = Some None
     \<and> (sorted_queues ses \<longrightarrow> sorted (map qm_req_clock orig))
     \<and> (list_all2 (\<lambda>a b. qm_min_clock a \<noteq> 0 \<longrightarrow> qm_min_clock b \<le> qm_min_clock a) orig msgs
         \<longrightarrow> (\<forall>t. busy mc' t = busy mc t + in_flight orig msgs t))"
proof (induction c ses mc rule: flush_batch.induct)
  case (1 c ses mc)
  obtain r where r: "flush_one c ses mc = Some r" using flush_one_total [OF 1(2,3)] by blast
  show ?case
  proof (cases r)
    case None
    then have "flush_batch c ses mc = Some ([], ses, mc)" using r by (simp add: flush_batch.simps)
    then show ?thesis using batch_of_Nil [of c ses mc] 1(2) r None
      by (intro exI [of _ "replicate (length ses) []"] exI [of _ "[]"] exI [of _ ses] exI [of _ mc]) (simp add: in_flight_def)
  next
    case (Some p)
    obtain qm ses1 mc1 where p: "p = (qm, ses1, mc1)" by (cases p)
    note f1 = r [unfolded Some p]
    from f1 obtain i m q where e: "i < length ses" "emitter_queue (ses ! i) = m # q" "ses1 = ses[i := set_emitter_queue q (ses ! i)]"
      "qm = m\<lparr>qm_min_clock := mc ! 0\<rparr>" "mc \<noteq> []" "qm_min_clock m = 0 \<or> qm_req_clock m \<le> c"
      "if qm_min_clock m \<noteq> 0 then heap_replace (qm_min_clock m) mc = Some mc1 else mc1 = mc"
      "\<forall>se \<in> set ses. \<forall>x q. emitter_queue se = x # q \<longrightarrow> qm_req_clock m \<le> qm_req_clock x"
      by (rule flush_one_effect)
    have h1: "is_heap mc1 \<and> length mc1 = length mc"
    proof (cases "qm_min_clock m = 0")
      case False
      then show ?thesis using heap_replace_length [OF 1(2,3)] e(7) by simp
    qed (use e(7) 1(2) in simp)
    then have "mc1 \<noteq> []" using 1(3) by auto
    then obtain parts orig msgs ses' mc' where b: "flush_batch c ses1 mc1 = Some (msgs, ses', mc')"
        "batch_of c ses1 mc1 parts orig msgs ses' mc'" "is_heap mc'" "length mc' = length mc1" "flush_one c ses' mc' = Some None"
        "sorted_queues ses1 \<longrightarrow> sorted (map qm_req_clock orig)"
        "list_all2 (\<lambda>a b. qm_min_clock a \<noteq> 0 \<longrightarrow> qm_min_clock b \<le> qm_min_clock a) orig msgs
           \<longrightarrow> (\<forall>t. busy mc' t = busy mc1 t + in_flight orig msgs t)"
      using 1(1) [OF f1 refl refl refl conjunct1 [OF h1]] by blast
    have a1: "flush_batch c ses mc = Some (qm # msgs, ses', mc')" using f1 b(1) by (subst flush_batch.simps) simp
    have a2: "batch_of c ses mc (parts[i := m # parts ! i]) (m # orig) (qm # msgs) ses' mc'"
      unfolding e(4) by (rule batch_of_Cons [OF e(1,2,6)]) (use b(2) e(3) in simp)
    have a3: "sorted (map qm_req_clock (m # orig))" if s: "sorted_queues ses"
    proof -
      have s1: "sorted_queues ses1" unfolding e(3) by (rule sorted_queues_take [OF s e(1,2)])
      have "qm_req_clock m \<le> qm_req_clock x" if x: "x \<in> set orig" for x
      proof -
        obtain se where "se \<in> set ses1" "x \<in> set (emitter_queue se)" using b(2) x by (auto simp: batch_of_def)
        then have "\<exists>se \<in> set ses. x \<in> set (emitter_queue se)" unfolding e(3) by (rule queue_take_mem [OF e(1,2)])
        then show ?thesis using heads_bound_all [OF s e(8)] by blast
      qed
      then show ?thesis using b(6) s1 by simp
    qed
    have a4: "busy mc' t = busy mc t + in_flight (m # orig) (qm # msgs) t"
      if l: "list_all2 (\<lambda>a b. qm_min_clock a \<noteq> 0 \<longrightarrow> qm_min_clock b \<le> qm_min_clock a) (m # orig) (qm # msgs)" for t
    proof -
      have l1: "busy mc' t = busy mc1 t + in_flight orig msgs t" "qm_min_clock m \<noteq> 0 \<Longrightarrow> mc ! 0 \<le> qm_min_clock m"
        using b(7) l e(4) by auto
      have fl: "in_flight (m # orig) (qm # msgs) t
          = (if qm_min_clock m \<noteq> 0 \<and> mc ! 0 \<le> t \<and> t < qm_min_clock m then 1 else 0) + in_flight orig msgs t"
        by (simp add: in_flight_def e(4))
      show ?thesis
      proof (cases "qm_min_clock m = 0")
        case True
        then show ?thesis using l1(1) e(7) fl by simp
      next
        case False
        then have "busy mc1 t = busy mc t + (if mc ! 0 \<le> t \<and> t < qm_min_clock m then 1 else 0)"
          using busy_replace [OF 1(2,3)] e(7) l1(2) by simp
        then show ?thesis using l1(1) fl False by simp
      qed
    qed
    have len: "length mc' = length mc" using b(4) h1 by simp
    show ?thesis using a1 a2 b(3,5) len a3 a4 by blast
  qed
qed

section \<open>The background threads\<close>

lemma run_all_nth:
  "run_all F gen ses = Some ses' \<longleftrightarrow>
     length ses' = length ses \<and> (\<forall>i < length ses. se_background_pass F gen (ses ! i) = Some (ses' ! i))"
proof (induction ses arbitrary: ses')
  case (Cons se ses)
  show ?case
  proof (cases ses')
    case (Cons x xs)
    then show ?thesis using Cons.IH [of xs] by (auto simp: bind_eq_Some_conv less_Suc_eq_0_disj)
  qed (auto simp: bind_eq_Some_conv)
qed auto

lemma pass_done: "se_background_pass F gen se = Some se' \<Longrightarrow> se_have_work se' \<le> 0"
  by (auto simp: se_background_pass_def bind_eq_Some_conv split: if_splits)

definition working :: "('d, 'k) syncemitter list \<Rightarrow> nat" where
  "working ses = length (filter (\<lambda>se. se_have_work se > 0) ses)"

lemma working_update: "j < length ses \<Longrightarrow> se_have_work (ses ! j) > 0 \<Longrightarrow> se_have_work se \<le> 0 \<Longrightarrow> working ses = Suc (working (ses[j := se]))"
proof (induction ses arbitrary: j)
  case (Cons x ses)
  then show ?case by (cases j) (auto simp: working_def)
qed simp

lemma thread_step_effect:
  assumes "thread_step F gen ses ses1" "run_all F gen ses = Some ses'"
  shows "run_all F gen ses1 = Some ses' \<and> working ses = Suc (working ses1)"
  using assms(1)
proof cases
  case (run j se)
  have d: "se_have_work se \<le> 0" by (rule pass_done [OF run(4)])
  then have "se_background_pass F gen se = Some se" by (simp add: se_background_pass_def)
  then have "run_all F gen ses1 = Some ses'"
    using assms(2) run by (auto simp: run_all_nth nth_list_update)
  then show ?thesis using working_update [OF run(2,3) d] run(1) by simp
qed

lemma working_none: "working ses = 0 \<Longrightarrow> run_all F gen ses = Some ses' \<Longrightarrow> ses' = ses"
proof -
  assume w: "working ses = 0" and r: "run_all F gen ses = Some ses'"
  have "se_background_pass F gen (ses ! i) = Some (ses ! i)" if "i < length ses" for i
    using w that by (auto simp: working_def se_background_pass_def filter_empty_conv not_less)
  then show ?thesis using r by (intro nth_equalityI) (auto simp: run_all_nth)
qed

lemma working_enabled:
  assumes "0 < working ses" "run_all F gen ses = Some ses'"
  shows "\<exists>ses1. thread_step F gen ses ses1"
proof -
  obtain j where j: "j < length ses" "se_have_work (ses ! j) > 0"
    using assms(1) by (auto simp: working_def filter_empty_conv in_set_conv_nth)
  moreover have "se_background_pass F gen (ses ! j) = Some (ses' ! j)" using assms(2) j(1) by (simp add: run_all_nth)
  ultimately show ?thesis by (blast intro: thread_step.run)
qed

lemma threads_run:
  "(thread_step F gen ^^ n) ses ses1 \<Longrightarrow> run_all F gen ses = Some ses' \<Longrightarrow>
     run_all F gen ses1 = Some ses' \<and> n + working ses1 = working ses"
proof (induction n arbitrary: ses)
  case (Suc n)
  then obtain s where "thread_step F gen ses s" "(thread_step F gen ^^ n) s ses1" by (meson relpowp_Suc_D2)
  then show ?case using Suc.IH thread_step_effect [of F gen ses s ses'] Suc.prems(2) by fastforce
qed simp

lemma run_all_finalize:
  assumes "run_all F gen ses = Some ses'" "\<forall>se \<in> set ses. se_have_work se \<ge> 0" "i < length ses"
  shows "se_finalize_gen_steps (ses' ! i) \<noteq> None"
proof -
  have p: "se_background_pass F gen (ses ! i) = Some (ses' ! i)" using assms(1,3) by (simp add: run_all_nth)
  have "se_have_work (ses ! i) \<ge> 0" using assms(2,3) by simp
  then have "se_have_work (ses' ! i) = 0"
    using p pass_done [OF p] by (auto simp: se_background_pass_def bind_eq_Some_conv split: if_splits dest: sym)
  then show ?thesis by (simp add: se_finalize_gen_steps_def)
qed

section \<open>Properties\<close>

definition demo_message :: "u64 \<Rightarrow> u64 \<Rightarrow> int queue_message" where
  "demo_message min_clock req_clock = (message_alloc demo_fops)\<lparr>qm_min_clock := min_clock, qm_req_clock := req_clock\<rparr>"

definition demo_emitters :: "(int, unit) syncemitter list" where
  "demo_emitters = map (\<lambda>q. (syncemitter_alloc demo_fops ''stepper_x'' 0)\<lparr>se_msg_queue := q\<rparr>)
     [[demo_message 100 100, demo_message 300 300], [demo_message 200 200]]"

lemma demo_emitters_queues: "map emitter_queue demo_emitters = [[demo_message 100 100, demo_message 300 300], [demo_message 200 200]]"
  by (simp add: demo_emitters_def emitter_queue_def syncemitter_alloc_def)

text \<open>
  C13. The order of the step commands of a micro-controller: when the pending commands of each stepper are in the order of
  their clocks, \<open>steppersync_flush\<close> merges them into one batch in the order of their clocks. It takes a prefix of each
  queue, keeps the order within it, changes only \<open>min_clock\<close>, takes no command of the move queue beyond \<open>move_clock\<close>, and
  what it leaves at the head of a queue is beyond \<open>move_clock\<close> or at \<open>MAX_CLOCK\<close>. The heap of move clocks stays a heap of
  the same size.
\<close>

theorem flush_merges_queues:
  assumes "is_heap (ss_move_clocks ss)" "ss_move_clocks ss \<noteq> []" "sorted_queues (ss_se_list ss)"
  shows "\<exists>msgs ss' parts orig. steppersync_flush move_clock ss = Some (msgs, ss')
     \<and> length (ss_se_list ss') = length (ss_se_list ss) \<and> length parts = length (ss_se_list ss)
     \<and> (\<forall>i < length parts. emitter_queue (ss_se_list ss ! i) = parts ! i @ emitter_queue (ss_se_list ss' ! i))
     \<and> merged parts orig \<and> sorted (map qm_req_clock orig) \<and> sent_as orig msgs
     \<and> (\<forall>m \<in> set orig. qm_min_clock m = 0 \<or> qm_req_clock m \<le> move_clock)
     \<and> (\<forall>se \<in> set (ss_se_list ss'). \<forall>m q. emitter_queue se = m # q \<longrightarrow>
          MAX_CLOCK \<le> qm_req_clock m \<or> (\<exists>se \<in> set (ss_se_list ss'). \<exists>x q. emitter_queue se = x # q
            \<and> qm_req_clock x \<le> qm_req_clock m \<and> qm_min_clock x \<noteq> 0 \<and> move_clock < qm_req_clock x))
     \<and> is_heap (ss_move_clocks ss') \<and> length (ss_move_clocks ss') = length (ss_move_clocks ss)"
proof -
  from flush_batch_ok [OF assms(1,2), of move_clock "ss_se_list ss"] assms(3)
  obtain parts orig msgs ses' mc' where b: "flush_batch move_clock (ss_se_list ss) (ss_move_clocks ss) = Some (msgs, ses', mc')"
    "batch_of move_clock (ss_se_list ss) (ss_move_clocks ss) parts orig msgs ses' mc'" "is_heap mc'"
    "length mc' = length (ss_move_clocks ss)" "flush_one move_clock ses' mc' = Some None" "sorted (map qm_req_clock orig)" by blast
  have rest: "MAX_CLOCK \<le> qm_req_clock m \<or> (\<exists>se \<in> set ses'. \<exists>x q. emitter_queue se = x # q
      \<and> qm_req_clock x \<le> qm_req_clock m \<and> qm_min_clock x \<noteq> 0 \<and> move_clock < qm_req_clock x)"
    if m: "se \<in> set ses'" "emitter_queue se = m # q" for se m q
  proof (cases "lowest_msg ses' 0 MAX_CLOCK None")
    case None
    then show ?thesis using m by (auto simp: lowest_msg_None)
  next
    case (Some p)
    obtain i x where p: "p = (i, x)" by (cases p)
    note l = lowest_is_lowest [OF Some [unfolded p]]
    have "qm_min_clock x \<noteq> 0 \<and> move_clock < qm_req_clock x"
      using b(5) by (auto simp: flush_one_def Some p bind_eq_Some_conv split: if_splits)
    moreover have "qm_req_clock x \<le> qm_req_clock m" using l(4) m by blast
    ultimately show ?thesis using l(1,2) nth_mem [OF l(1)] by blast
  qed
  have "steppersync_flush move_clock ss = Some (msgs, ss\<lparr>ss_se_list := ses', ss_move_clocks := mc'\<rparr>)"
    by (simp add: steppersync_flush_def b(1))
  then show ?thesis using b rest
    by (intro exI [of _ msgs] exI [of _ "ss\<lparr>ss_se_list := ses', ss_move_clocks := mc'\<rparr>"] exI [of _ parts] exI [of _ orig])
      (auto simp: batch_of_def)
qed

definition demo_steppersync :: "(int, unit) steppersync" where
  "demo_steppersync = \<lparr>ss_se_list = demo_emitters, ss_ce = clock_fill 1 0 0 0, ss_move_clocks = [0, 0, 0]\<rparr>"

lemma demo_steppersync_ok:
  "is_heap (ss_move_clocks demo_steppersync)" "ss_move_clocks demo_steppersync \<noteq> []" "sorted_queues (ss_se_list demo_steppersync)"
proof -
  have "(\<forall>q \<in> set (map emitter_queue demo_emitters). sorted (map qm_req_clock q))"
    unfolding demo_emitters_queues by (simp add: demo_message_def)
  then show "sorted_queues (ss_se_list demo_steppersync)" by (simp add: sorted_queues_def demo_steppersync_def)
qed (auto simp: demo_steppersync_def is_heap_def nth_Cons' split: if_splits)


theorem flush_merges_queues_witness:
  "\<exists>msgs ss' parts orig. steppersync_flush 250 demo_steppersync = Some (msgs, ss')
     \<and> length (ss_se_list ss') = length (ss_se_list demo_steppersync) \<and> length parts = length (ss_se_list demo_steppersync)
     \<and> (\<forall>i < length parts. emitter_queue (ss_se_list demo_steppersync ! i) = parts ! i @ emitter_queue (ss_se_list ss' ! i))
     \<and> merged parts orig \<and> sorted (map qm_req_clock orig) \<and> sent_as orig msgs"
  using flush_merges_queues [OF demo_steppersync_ok, of 250] by blast




definition demo_workers :: "(int, unit) syncemitter list" where
  "demo_workers = map (\<lambda>name. (syncemitter_alloc demo_fops name 1)\<lparr>se_sk := Some (), se_have_work := 1\<rparr>) [''stepper_x'', ''stepper_y'']"


end
