(* ===== verification/Host_Path.thy ===== *)
theory Host_Path
  imports Serialqueue_Props Steppersync_Props
begin

text \<open>
  The host from the steppers to the serial port: the locale \<open>message_queue\<close> is what a sender relies on, \<open>serialqueue.c\<close>
  provides it, and the batches of \<open>steppersync.c\<close> go through it.
\<close>

section \<open>The interface of the serial queue\<close>

text \<open>
  What a sender relies on: a batch goes to the end of its command queue, each message as \<open>adjust\<close> makes it, and the other
  queues keep their messages.
\<close>

locale message_queue =
  fixes send_batch :: "nat \<Rightarrow> 'm list \<Rightarrow> 's \<Rightarrow> 's" and waiting :: "'s \<Rightarrow> nat \<Rightarrow> 'm list" and ok :: "'s \<Rightarrow> bool"
    and valid :: "'m \<Rightarrow> bool" and adjust :: "'m \<Rightarrow> 'm"
  assumes send_ok: "ok s \<Longrightarrow> \<forall>m \<in> set ms. valid m \<Longrightarrow> ms \<noteq> [] \<Longrightarrow> ok (send_batch q ms s)"
    and send_waiting: "ok s \<Longrightarrow> \<forall>m \<in> set ms. valid m \<Longrightarrow> ms \<noteq> [] \<Longrightarrow>
      waiting (send_batch q ms s) = (waiting s)(q := waiting s q @ map adjust ms)"
begin

text \<open>A sender that hands over only batches with messages.\<close>

lemma send_some_ok: "ok s \<Longrightarrow> \<forall>m \<in> set ms. valid m \<Longrightarrow> ok (if ms = [] then s else send_batch q ms s)"
  by (simp add: send_ok)

lemma send_some_waiting:
  "ok s \<Longrightarrow> \<forall>m \<in> set ms. valid m \<Longrightarrow>
     waiting (if ms = [] then s else send_batch q ms s) p = waiting s p @ (if p = q then map adjust ms else [])"
  by (simp add: send_waiting)

end

interpretation sqq: message_queue serialqueue_send_batch pending_of queues_ok "\<lambda>m. msg_ok m \<and> 0 < qm_len m" limit_min_clock
proof
  fix s :: "'a serialqueue" and ms :: "'a queue_message list" and q
  assume a: "queues_ok s" "\<forall>m \<in> set ms. msg_ok m \<and> 0 < qm_len m" "ms \<noteq> []"
  then have "\<forall>m \<in> set ms. msg_ok m" "\<exists>m \<in> set ms. 0 < qm_len m" by (auto simp: neq_Nil_conv)
  from send_batch_pending [OF a(1) this, of q]
  show "queues_ok (serialqueue_send_batch q ms s)"
    "pending_of (serialqueue_send_batch q ms s) = (pending_of s)(q := pending_of s q @ map limit_min_clock ms)" by blast+
qed

section \<open>From the steppers to the serial queue\<close>

text \<open>The end of \<open>steppersync_flush\<close>: its batch goes to the serial queue.\<close>

definition steppersync_transmit :: "nat \<Rightarrow> 'd queue_message list \<Rightarrow> 'd serialqueue \<Rightarrow> 'd serialqueue" where
  "steppersync_transmit cq msgs sq = (if msgs = [] then sq else serialqueue_send_batch cq msgs sq)"

lemmas transmit_ok = sqq.send_some_ok [folded steppersync_transmit_def]
lemmas transmit_waiting = sqq.send_some_waiting [folded steppersync_transmit_def]

lemma sent_as_valid:
  assumes "sent_as orig msgs" "\<forall>m \<in> set orig. msg_ok m \<and> 0 < qm_len m"
  shows "\<forall>m \<in> set msgs. msg_ok m \<and> 0 < qm_len m"
proof
  fix b assume "b \<in> set msgs"
  then obtain i where i: "i < length msgs" "b = msgs ! i" by (auto simp: in_set_conv_nth)
  then obtain c where "i < length orig" "b = (orig ! i)\<lparr>qm_min_clock := c\<rparr>" using assms(1) by (auto simp: sent_as_def list_all2_conv_all_nth)
  then show "msg_ok b \<and> 0 < qm_len b" using assms(2) by (auto simp: msg_ok_def)
qed

text \<open>
  C16. From the steppers to the line: when the pending commands of each stepper are in the order of their clocks, a flush moves
  a prefix of each stepper's commands to the end of the command queue of the micro-controller in the serial queue, merged in
  the order of their clocks and with nothing lost or repeated. The other command queues keep their messages, and the serial
  queue stays well-formed.
\<close>

theorem flush_reaches_queue:
  assumes "is_heap (ss_move_clocks ss)" "ss_move_clocks ss \<noteq> []" "sorted_queues (ss_se_list ss)" "queues_ok sq"
    and "\<forall>se \<in> set (ss_se_list ss). \<forall>m \<in> set (emitter_queue se). msg_ok m \<and> 0 < qm_len m"
  shows "\<exists>msgs ss' parts orig. steppersync_flush move_clock ss = Some (msgs, ss')
     \<and> length parts = length (ss_se_list ss) \<and> (\<forall>i < length parts. emitter_queue (ss_se_list ss ! i) = parts ! i @ emitter_queue (ss_se_list ss' ! i))
     \<and> merged parts orig \<and> sorted (map qm_req_clock orig) \<and> sent_as orig msgs
     \<and> queues_ok (steppersync_transmit cq msgs sq)
     \<and> (\<forall>q. pending_of (steppersync_transmit cq msgs sq) q = pending_of sq q @ (if q = cq then map limit_min_clock msgs else []))"
proof -
  from flush_batch_ok [OF assms(1,2), of move_clock "ss_se_list ss"] assms(3)
  obtain parts orig msgs ses' mc' where b: "flush_batch move_clock (ss_se_list ss) (ss_move_clocks ss) = Some (msgs, ses', mc')"
    "batch_of move_clock (ss_se_list ss) (ss_move_clocks ss) parts orig msgs ses' mc'" "sorted (map qm_req_clock orig)" by blast
  have "\<forall>m \<in> set orig. msg_ok m \<and> 0 < qm_len m" using b(2) assms(5) unfolding batch_of_def by blast
  moreover have "sent_as orig msgs" using b(2) by (simp add: batch_of_def)
  ultimately have v: "\<forall>m \<in> set msgs. msg_ok m \<and> 0 < qm_len m" by (rule sent_as_valid [rotated])
  have "steppersync_flush move_clock ss = Some (msgs, ss\<lparr>ss_se_list := ses', ss_move_clocks := mc'\<rparr>)" by (simp add: steppersync_flush_def b(1))
  then show ?thesis using b(2,3) transmit_ok [OF assms(4) v, of cq] transmit_waiting [OF assms(4) v, of cq]
    by (intro exI [of _ msgs] exI [of _ "ss\<lparr>ss_se_list := ses', ss_move_clocks := mc'\<rparr>"] exI [of _ parts] exI [of _ orig]) (simp add: batch_of_def)
qed

definition demo_steppers :: "(int, unit) steppersync" where
  "demo_steppers = demo_steppersync\<lparr>ss_se_list := [(syncemitter_alloc demo_fops ''stepper_x'' 0)
     \<lparr>se_msg_queue := [demo_command\<lparr>qm_min_clock := 100, qm_req_clock := 100\<rparr>, demo_command\<lparr>qm_min_clock := 300, qm_req_clock := 300\<rparr>]\<rparr>]\<rparr>"

lemma demo_steppers_ok:
  "is_heap (ss_move_clocks demo_steppers)" "ss_move_clocks demo_steppers \<noteq> []" "sorted_queues (ss_se_list demo_steppers)"
  "\<forall>se \<in> set (ss_se_list demo_steppers). \<forall>m \<in> set (emitter_queue se). msg_ok m \<and> 0 < qm_len m"
  using demo_steppersync_ok(1,2)
  by (simp_all add: demo_steppers_def sorted_queues_def emitter_queue_def syncemitter_alloc_def demo_command_def message_alloc_def msg_ok_def MAX_CLOCK_def)

theorem flush_reaches_queue_witness:
  "\<exists>msgs ss' parts orig. steppersync_flush 250 demo_steppers = Some (msgs, ss') \<and> merged parts orig \<and> sorted (map qm_req_clock orig) \<and> sent_as orig msgs
     \<and> pending_of (steppersync_transmit 7 msgs demo_queue) 7 = pending_of demo_queue 7 @ map limit_min_clock msgs"
proof -
  note f = flush_reaches_queue [OF demo_steppers_ok(1-3) demo_queue_ok(1) demo_steppers_ok(4), of 250 7]
  then obtain msgs ss' parts orig where "steppersync_flush 250 demo_steppers = Some (msgs, ss')" "merged parts orig" "sorted (map qm_req_clock orig)" "sent_as orig msgs"
    "\<forall>q. pending_of (steppersync_transmit 7 msgs demo_queue) q = pending_of demo_queue q @ (if q = 7 then map limit_min_clock msgs else [])" by blast
  then show ?thesis by (intro exI [of _ msgs] exI [of _ ss'] exI [of _ parts] exI [of _ orig]) simp
qed

end
