(* ===== verification/Link.thy ===== *)
theory Link
  imports Serialqueue_Lib "HOL-Library.Sublist"
begin

text \<open>
  The serial link between host and firmware: the step relation of both over a line that loses blocks and inserts noise,
  the arithmetic of the four-bit sequence numbers, and the invariant with its preservation by every step.
\<close>

section \<open>Sequence numbers\<close>

definition seq_at :: "nat \<Rightarrow> nat \<Rightarrow> u8" where
  "seq_at N i = seq_byte (of_nat (N + i))"

lemma unat_low_bits: "unat (take_bit 4 (of_nat k :: u64)) = k mod 16"
proof -
  have "unat (take_bit 4 (of_nat k :: u64)) = k mod 2 ^ LENGTH(64) mod 2 ^ 4"
    by (simp only: unsigned_take_bit_eq unat_of_nat take_bit_nat_def)
  also have "\<dots> = k mod 2 ^ 4" by (rule mod_mod_cancel) (rule le_imp_power_dvd, simp)
  finally show ?thesis by simp
qed

lemma ucast_Suc: "(ucast (s + 1 :: u64) :: u8) = ucast s + 1"
proof (transfer, goal_cases)
  case (1 s)
  have "take_bit 8 (take_bit 64 (s + 1)) = take_bit 8 (take_bit 8 s + take_bit 8 1)" by (simp only: take_bit_add take_bit_take_bit)
  also have "\<dots> = take_bit 8 (take_bit 8 (take_bit 64 s) + take_bit 8 1)" by simp
  also have "\<dots> = take_bit 8 (take_bit 64 s + 1)" by (simp only: take_bit_add)
  finally show ?case by simp
qed

lemma seq_at_inj:
  assumes "seq_at N i = seq_at N n" "i < n + 16" "n < i + 16"
  shows "i = n"
proof -
  have "take_bit 4 (of_nat (N + i) :: u64) = take_bit 4 (of_nat (N + n))" 
    using take_bit_seq_byte [of "of_nat (N + i)"] unfolding assms(1) [unfolded seq_at_def] take_bit_seq_byte by (rule sym)
  from arg_cong [OF this, of unat] have "(N + i) mod 16 = (N + n) mod 16" by (simp only: unat_low_bits)
  then have "16 dvd N + n - (N + i) \<or> i > n" "16 dvd N + i - (N + n) \<or> i < n"
    using mod_eq_dvd_iff_nat [of "N + i" "N + n" 16] mod_eq_dvd_iff_nat [of "N + n" "N + i" 16] by (auto simp: not_less)
  then show ?thesis using assms(2,3) by (cases i n rule: linorder_cases) (auto dest!: dvd_imp_le)
qed

lemma low_bits_Suc: "(x + 1) AND 15 = ((x AND 15) + 1) AND 15" for x :: u8
proof -
  have "take_bit 4 (x + 1) = take_bit 4 (take_bit 4 x + 1)"
  proof (transfer, goal_cases)
    case (1 x)
    have "take_bit 4 (x + 1) = take_bit 4 (take_bit 4 (take_bit 4 x) + take_bit 4 1)" by (simp only: take_bit_add take_bit_take_bit min.idem)
    then show ?case by (simp only: take_bit_add) simp
  qed
  then show ?thesis by (simp add: take_bit_eq_mask mask_eq_exp_minus_1)
qed

lemma next_seq_low:
  assumes "y AND 15 = y"
  shows "next_seq (16 OR y) = 16 OR ((y + 1) AND 15)"
proof -
  have "list_all (\<lambda>n. next_seq (16 OR of_nat n) = 16 OR ((of_nat n + 1) AND 15)) [0..<16]" by code_simp
  moreover have "unat y < 16"
  proof -
    have "y = take_bit 4 y" using assms by (simp add: take_bit_eq_mask mask_eq_exp_minus_1)
    then have "unat y = take_bit 4 (unat y)" by (metis unsigned_take_bit_eq)
    also have "\<dots> < 2 ^ 4" by (rule take_bit_nat_less_exp)
    finally show ?thesis by simp
  qed
  ultimately show ?thesis by (auto simp only: list_all_iff set_upt atLeastLessThan_iff dest!: bspec [of _ _ "unat y"]) simp
qed

lemma next_seq_byte: "next_seq (seq_byte s) = seq_byte (s + 1)"
  using next_seq_low [of "ucast s AND 15"] by (simp add: seq_byte_def ucast_Suc low_bits_Suc [of "ucast s"])

lemma next_seq_at: "next_seq (seq_at N n) = seq_at N (Suc n)"
  by (simp add: seq_at_def next_seq_byte add.commute)

section \<open>The link\<close>

text \<open>
  \<open>l_down\<close> and \<open>l_up\<close> are the blocks on the line in their order, those of the firmware by their sequence byte. \<open>l_blocks\<close>
  are all blocks the host has built, \<open>l_delivered\<close> those the firmware has accepted.
\<close>

record ('d, 'z) link =
  l_host :: "'d serialqueue"
  l_mcu :: "'z console_state_scheme"
  l_down :: "u8 list list"
  l_up :: "u8 list"
  l_blocks :: "u8 list list"
  l_delivered :: "u8 list list"

text \<open>The sequence bytes of the blocks a firmware function has sent.\<close>

definition answers :: "'z console_state_scheme \<Rightarrow> 'z console_state_scheme \<Rightarrow> u8 list" where
  "answers s s' = map fst (drop (length (sent s)) (sent s'))"

inductive link_step :: "'d fops \<Rightarrow> ('d, 'z) link \<Rightarrow> ('d, 'z) link \<Rightarrow> bool" for F where
  submit: "link_step F l (l\<lparr>l_host := serialqueue_send_batch cq msgs (l_host l)\<rparr>)"
| pull: "link_step F l (l\<lparr>l_host := snd (serialqueue_pull (l_host l))\<rparr>)"
| command: "command_event F wr now t (l_host l) = Some (w, sq') \<Longrightarrow> clock_runs F t \<Longrightarrow> unat (sq_receive_seq (l_host l)) < 0x8000000000000000 \<Longrightarrow>
    map Some blks = map qm_bytes (drop (length (sq_sent_queue (l_host l))) (sq_sent_queue sq')) \<Longrightarrow>
    link_step F l (l\<lparr>l_host := sq', l_down := l_down l @ blks, l_blocks := l_blocks l @ blks\<rparr>)"
| retransmit: "retransmit_event F wr now t (l_host l) = Some (w, sq') \<Longrightarrow> map Some blks = map qm_bytes (sq_sent_queue (l_host l)) \<Longrightarrow>
    link_step F l (l\<lparr>l_host := sq', l_down := l_down l @ blks\<rparr>)"
| lose_down: "l_down l = xs @ f # ys \<Longrightarrow> link_step F l (l\<lparr>l_down := xs @ ys\<rparr>)"
| lose_up: "l_up l = xs @ q # ys \<Longrightarrow> link_step F l (l\<lparr>l_up := xs @ ys\<rparr>)"
| noise: "command_find_block buf n (l_mcu l) = Ret (r, k) s' \<Longrightarrow> n \<le> length buf \<Longrightarrow> r \<noteq> 1 \<Longrightarrow>
    link_step F l (l\<lparr>l_mcu := s', l_up := l_up l @ answers (l_mcu l) s'\<rparr>)"
| receive: "l_down l = f # fs \<Longrightarrow> command_find_block f (length f) (l_mcu l) = Ret (r, k) s' \<Longrightarrow>
    link_step F l (l\<lparr>l_mcu := s', l_down := fs, l_up := l_up l @ answers (l_mcu l) s',
      l_delivered := l_delivered l @ (if r = 1 then [take k f] else [])\<rparr>)"
| answer: "link_step F l (l\<lparr>l_mcu := command_sendf m (l_mcu l), l_up := l_up l @ answers (l_mcu l) (command_sendf m (l_mcu l))\<rparr>)"
| handle: "l_up l = q # qs \<Longrightarrow> length payload \<le> MESSAGE_PAYLOAD_MAX \<Longrightarrow>
    handle_message F t now (length payload + MESSAGE_MIN) ((l_host l)\<lparr>sq_input_buf := frame q payload\<rparr>) = Some sq' \<Longrightarrow>
    link_step F l (l\<lparr>l_host := sq', l_up := qs\<rparr>)"

text \<open>A host and a firmware that agree on the next number, and an empty line.\<close>

definition link_start :: "('d, 'z) link \<Rightarrow> bool" where
  "link_start l \<longleftrightarrow> sq_sent_queue (l_host l) = [] \<and> sq_send_seq (l_host l) = sq_receive_seq (l_host l)
     \<and> next_sequence (l_mcu l) = seq_byte (sq_receive_seq (l_host l)) \<and> l_down l = [] \<and> l_up l = [] \<and> l_blocks l = [] \<and> l_delivered l = []"

section \<open>The firmware\<close>

lemma replicate_ex: "\<exists>k. [] = replicate k x" "\<exists>k. [x] = replicate k x"
  by (rule exI [of _ 0], simp) (rule exI [of _ 1], simp)

lemma sendf_answers: "\<exists>k. answers s (command_sendf m s) = replicate k (next_sequence s)"
  by (simp add: answers_def command_sendf_eq replicate_ex)

lemma sendf_sequence [simp]: "next_sequence (command_sendf m s) = next_sequence s"
  by (simp add: command_sendf_eq)

lemma find_block_answers:
  assumes "command_find_block buf n s = Ret (r, k) s'" "n \<le> length buf"
  shows "\<exists>k. answers s s' = replicate k (next_sequence s)"
proof -
  define P where "P = (\<lambda>s s' :: 'a console_state_scheme. s' = s \<or> (\<exists>ss. s' = s\<lparr>sync_state := ss\<rparr>)
    \<or> (\<exists>ss. s' = command_sendf Acknak (s\<lparr>sync_state := ss\<rparr>)) \<or> (\<exists>ss ns. s' = s\<lparr>sync_state := ss, next_sequence := ns\<rparr>))"
  have "P s s'"
    using assms(1)
    by (auto simp: P_def command_find_block_def find_block_error_def find_block_need_sync_def Let_def split: if_splits option.splits bool.splits)
  then show ?thesis
    by (auto simp: P_def answers_def command_sendf_eq replicate_ex)
qed

section \<open>The invariant\<close>

text \<open>\<open>N\<close> is the first number and \<open>B\<close> the blocks built so far; \<open>a\<close> of them are acknowledged and \<open>n\<close> delivered.\<close>

definition blocks_ok :: "nat \<Rightarrow> u8 list list \<Rightarrow> bool" where
  "blocks_ok N B \<longleftrightarrow> (\<forall>i < length B. \<exists>payload. length payload \<le> 59 \<and> B ! i = frame (seq_at N i) payload)"

definition host_ok :: "nat \<Rightarrow> u8 list list \<Rightarrow> nat \<Rightarrow> 'd serialqueue \<Rightarrow> bool" where
  "host_ok N B a sq \<longleftrightarrow> link_ok sq \<and> unat (sq_receive_seq sq) = N + a \<and> a + length (sq_sent_queue sq) = length B
     \<and> map qm_bytes (sq_sent_queue sq) = map Some (drop a B)"

definition down_ok :: "u8 list list \<Rightarrow> nat \<Rightarrow> u8 list list \<Rightarrow> bool" where
  "down_ok B n down \<longleftrightarrow>
     (\<exists>is. down = map ((!) B) is \<and> (\<forall>i \<in> set is. i < length B \<and> n \<le> i + 12) \<and> sorted_wrt (\<lambda>j i. j < i + 12) is)"

definition up_ok :: "nat \<Rightarrow> nat \<Rightarrow> nat \<Rightarrow> u8 list \<Rightarrow> bool" where
  "up_ok N a n up \<longleftrightarrow> (\<exists>xs. up = map (seq_at N) xs \<and> sorted xs \<and> (\<forall>x \<in> set xs. a \<le> x \<and> x \<le> n))"

definition link_at :: "nat \<Rightarrow> nat \<Rightarrow> nat \<Rightarrow> ('d, 'z) link \<Rightarrow> bool" where
  "link_at N a n l \<longleftrightarrow> blocks_ok N (l_blocks l) \<and> host_ok N (l_blocks l) a (l_host l) \<and> a \<le> n \<and> n \<le> length (l_blocks l)
     \<and> l_delivered l = take n (l_blocks l) \<and> next_sequence (l_mcu l) = seq_at N n
     \<and> down_ok (l_blocks l) n (l_down l) \<and> up_ok N a n (l_up l)"

lemma host_window: "host_ok N B a sq \<Longrightarrow> length B \<le> a + 12"
  by (auto simp: host_ok_def link_ok_def MAX_PENDING_BLOCKS_def)

lemma host_ok_cong: "same_link sq sq' \<Longrightarrow> host_ok N B a sq' = host_ok N B a sq"
  using link_ok_cong [of sq sq'] by (simp add: host_ok_def same_link_def)

lemma host_blocks:
  assumes "host_ok N B a sq" "a \<le> i" "i < length B"
  shows "\<exists>payload. length payload \<le> 59 \<and> B ! i = frame (seq_at N i) payload"
proof -
  define j where "j = i - a"
  have h: "link_ok sq" "unat (sq_receive_seq sq) = N + a" "map qm_bytes (sq_sent_queue sq) = map Some (drop a B)" "j < length (sq_sent_queue sq)"
    using assms by (auto simp: host_ok_def j_def)
  obtain payload where p: "length payload \<le> 59" "qm_bytes (sq_sent_queue sq ! j) = Some (frame (seq_byte (sq_receive_seq sq + of_nat j)) payload)"
    using h(1,4) unfolding link_ok_def by blast
  have "map qm_bytes (sq_sent_queue sq) ! j = Some (B ! i)" unfolding h(3) using assms by (simp add: j_def)
  then have "B ! i = frame (seq_byte (sq_receive_seq sq + of_nat j)) payload" using p h(4) by simp
  moreover have "seq_byte (sq_receive_seq sq + of_nat j) = seq_at N i"
    using arg_cong [OF h(2), of "of_nat :: nat \<Rightarrow> u64"] assms(2) by (simp add: seq_at_def j_def of_nat_diff)
  ultimately show ?thesis using p(1) by auto
qed

lemma down_ok_append:
  assumes "down_ok B n down" "n \<le> length B" "length B \<le> a + 12"
  shows "down_ok B n (down @ drop a B)"
proof -
  obtain "is" where i: "down = map ((!) B) is" "\<forall>i \<in> set is. i < length B \<and> n \<le> i + 12" "sorted_wrt (\<lambda>j i. j < i + 12) is"
    using assms(1) by (auto simp: down_ok_def)
  have "drop a B = map ((!) B) [a..<length B]" by (rule nth_equalityI) auto
  moreover have "sorted_wrt (\<lambda>j i. j < i + 12) [a..<length B]" by (rule sorted_wrt_mono_rel [OF _ sorted_wrt_upt]) simp
  ultimately show ?thesis unfolding down_ok_def using i assms(2,3)
    by (intro exI [of _ "is @ [a..<length B]"]) (fastforce simp: sorted_wrt_append)
qed

lemma down_ok_grow: "down_ok B n down \<Longrightarrow> down_ok (B @ C) n down"
  unfolding down_ok_def by (elim exE, rule_tac x = "is" in exI) (auto simp: nth_append)

lemma map_remove:
  assumes "xs @ f # ys = map g is"
  obtains us z zs where "is = us @ z # zs" "xs = map g us" "f = g z" "ys = map g zs"
  using assms by (auto simp: map_eq_append_conv map_eq_Cons_conv dest!: sym [of _ "map g is"])

lemma down_ok_remove: "down_ok B n (xs @ f # ys) \<Longrightarrow> down_ok B n (xs @ ys)"
  unfolding down_ok_def
proof (elim exE conjE, erule map_remove, goal_cases)
  case (1 "is" us z zs)
  then show ?case by (intro exI [of _ "us @ zs"]) (auto simp: sorted_wrt_append)
qed

lemma up_ok_remove: "up_ok N a n (xs @ q # ys) \<Longrightarrow> up_ok N a n (xs @ ys)"
  unfolding up_ok_def
proof (elim exE conjE, erule map_remove, goal_cases)
  case (1 ks us z zs)
  then show ?case by (intro exI [of _ "us @ zs"]) (auto simp: sorted_append)
qed

lemma up_ok_answers:
  assumes "up_ok N a n up" "a \<le> n" "\<exists>k. qs = replicate k (seq_at N n)"
  shows "up_ok N a n (up @ qs)"
proof -
  obtain xs k where "up = map (seq_at N) xs" "sorted xs" "\<forall>x \<in> set xs. a \<le> x \<and> x \<le> n" "qs = replicate k (seq_at N n)"
    using assms by (auto simp: up_ok_def)
  then show ?thesis unfolding up_ok_def using assms(2)
    by (intro exI [of _ "xs @ replicate k n"]) (auto simp: sorted_append map_replicate_const simp flip: replicate_append_same)
qed

section \<open>Every step keeps the invariant\<close>

lemma map_Some_inj: "map Some xs = map Some ys \<longleftrightarrow> xs = ys"
  by (simp add: inj_map_eq_map)

lemma submit_keeps: "same_link sq (serialqueue_send_batch cq msgs sq)"
  by (simp add: serialqueue_send_batch_def same_link_def kick_bg_thread_def Let_def)

lemma pull_keeps: "same_link sq (snd (serialqueue_pull sq))"
  by (simp add: serialqueue_pull_def same_link_def split: list.split)

lemma same_link_at: "link_at N a n l \<Longrightarrow> same_link (l_host l) sq' \<Longrightarrow> link_at N a n (l\<lparr>l_host := sq'\<rparr>)"
  by (simp add: link_at_def host_ok_cong)

lemma command_at:
  assumes l: "link_at N a n l" and c: "command_event F wr now t (l_host l) = Some (w, sq')" "clock_runs F t"
    "unat (sq_receive_seq (l_host l)) < 0x8000000000000000"
    and b: "map Some blks = map qm_bytes (drop (length (sq_sent_queue (l_host l))) (sq_sent_queue sq'))"
  shows "link_at N a n (l\<lparr>l_host := sq', l_down := l_down l @ blks, l_blocks := l_blocks l @ blks\<rparr>)"
proof -
  define B where "B = l_blocks l"
  have h: "blocks_ok N B" "host_ok N B a (l_host l)" "a \<le> n" "n \<le> length B" "down_ok B n (l_down l)"
    using l by (simp_all add: link_at_def B_def)
  have "link_ok (l_host l)" using h(2) by (simp add: host_ok_def)
  from command_event_link [OF c(1) this c(3,2)] obtain outs blks'
    where o: "link_ok sq'" "sq_receive_seq sq' = sq_receive_seq (l_host l)" "sq_sent_queue sq' = sq_sent_queue (l_host l) @ outs"
      "map qm_bytes outs = map Some blks'" by metis
  then have m: "map qm_bytes outs = map Some blks" "length outs = length blks" using b o(3) by (auto dest: map_eq_imp_length_eq)
  have al: "a \<le> length B" using h by simp
  have k: "host_ok N (B @ blks) a sq'" using h(2) o m al by (simp add: host_ok_def)
  have "blocks_ok N (B @ blks)" unfolding blocks_ok_def
  proof (intro allI impI)
    fix i assume "i < length (B @ blks)"
    then show "\<exists>payload. length payload \<le> 59 \<and> (B @ blks) ! i = frame (seq_at N i) payload"
      using host_blocks [OF k, of i] h(1) al by (cases "a \<le> i") (auto simp: blocks_ok_def nth_append)
  qed
  moreover have "down_ok (B @ blks) n (l_down l @ drop (length B) (B @ blks))"
    using host_window [OF k] h al by (intro down_ok_append down_ok_grow) auto
  ultimately show ?thesis using l k by (simp add: link_at_def B_def)
qed

lemma retransmit_at:
  assumes l: "link_at N a n l" and r: "retransmit_event F wr now t (l_host l) = Some (w, sq')"
    and b: "map Some blks = map qm_bytes (sq_sent_queue (l_host l))"
  shows "link_at N a n (l\<lparr>l_host := sq', l_down := l_down l @ blks\<rparr>)"
proof -
  have h: "host_ok N (l_blocks l) a (l_host l)" "n \<le> length (l_blocks l)" "down_ok (l_blocks l) n (l_down l)" using l by (simp_all add: link_at_def)
  have "same_link (l_host l) sq'"
    using retransmit_sends [of "l_host l" F wr now t] h(1) r by (fastforce simp: host_ok_def)
  moreover have "blks = drop a (l_blocks l)" using b h(1) by (simp add: host_ok_def map_Some_inj)
  ultimately show ?thesis using l down_ok_append [OF h(3,2) host_window [OF h(1)]] by (simp add: link_at_def host_ok_cong)
qed

lemma mcu_at:
  assumes "link_at N a n l" "next_sequence s' = next_sequence (l_mcu l)" "\<exists>k. qs = replicate k (next_sequence (l_mcu l))"
  shows "link_at N a n (l\<lparr>l_mcu := s', l_up := l_up l @ qs\<rparr>)"
  using assms by (simp add: link_at_def up_ok_answers)

lemma find_block_rejects:
  "command_find_block buf n s = Ret (r, k) s' \<Longrightarrow> n \<le> length buf \<Longrightarrow> r \<noteq> 1 \<Longrightarrow> next_sequence s' = next_sequence s"
  by (rule find_block_cases [of n buf s]) auto

lemma down_ok_Cons:
  assumes "down_ok B n (f # fs)"
  obtains i where "f = B ! i" "i < length B" "n \<le> i + 12" "down_ok B n fs" "i = n \<Longrightarrow> down_ok B (Suc n) fs"
proof -
  obtain "is" where o: "f # fs = map ((!) B) is" "\<forall>i \<in> set is. i < length B \<and> n \<le> i + 12" "sorted_wrt (\<lambda>j i. j < i + 12) is"
    using assms unfolding down_ok_def by (elim exE conjE) (rule that)
  from o(1) obtain i js where j: "is = i # js" "f = B ! i" "fs = map ((!) B) js" by (cases "is") auto
  show ?thesis
  proof (rule that [of i])
    show "down_ok B n fs" "i = n \<Longrightarrow> down_ok B (Suc n) fs"
      unfolding down_ok_def using j o(2,3) by (intro exI [of _ js]; auto simp: Suc_le_eq)+
  qed (use j o(2) in auto)
qed

lemma up_ok_Suc: "up_ok N a n up \<Longrightarrow> up_ok N a (Suc n) up"
  unfolding up_ok_def by (elim ex_forward) auto

lemma find_block_new:
  assumes "command_find_block f (length f) s = Ret (1, k) s'" "f = frame q payload" "length payload \<le> 59"
  shows "k = length f" "q = next_sequence s" "next_sequence s' = next_seq (next_sequence s)" "sent s' = sent s"
proof -
  obtain b: "block_at f (length f) k (next_sequence s)" and s': "next_sequence s' = next_seq (next_sequence s)" "sent s' = sent s"
    by (rule find_block_cases [of "length f" f s]) (use assms(1) in auto)
  obtain pl where p: "length pl \<le> 59" "take k f = frame (next_sequence s) pl" "k \<le> length f" using b by (auto simp: block_at_def)
  have whole: "take (length f) f = frame q payload" using assms(2) by simp
  note at_k = take_frame_parts [OF p(2,3,1)] and at_f = take_frame_parts [OF whole le_refl assms(3)]
  show "k = length f" using at_k(2) at_f(2) by simp
  show "q = next_sequence s" using at_k(3) at_f(3) by simp
  show "next_sequence s' = next_seq (next_sequence s)" "sent s' = sent s" by (fact s')+
qed

lemma receive_at:
  assumes l: "link_at N a n l" and d: "l_down l = f # fs" and c: "command_find_block f (length f) (l_mcu l) = Ret (r, k) s'"
  shows "link_at N a (if r = 1 then Suc n else n) (l\<lparr>l_mcu := s', l_down := fs, l_up := l_up l @ answers (l_mcu l) s',
      l_delivered := l_delivered l @ (if r = 1 then [take k f] else [])\<rparr>)"
proof -
  have h: "blocks_ok N (l_blocks l)" "host_ok N (l_blocks l) a (l_host l)" "a \<le> n" "n \<le> length (l_blocks l)" "down_ok (l_blocks l) n (f # fs)"
    "next_sequence (l_mcu l) = seq_at N n" "up_ok N a n (l_up l)" "l_delivered l = take n (l_blocks l)"
    using l d by (simp_all add: link_at_def)
  obtain i where i: "f = l_blocks l ! i" "i < length (l_blocks l)" "n \<le> i + 12" "down_ok (l_blocks l) n fs" "i = n \<Longrightarrow> down_ok (l_blocks l) (Suc n) fs"
    using down_ok_Cons [OF h(5)] by metis
  show ?thesis
  proof (cases "r = 1")
    case False
    have "up_ok N a n (l_up l @ answers (l_mcu l) s')" using up_ok_answers [OF h(7,3)] find_block_answers [OF c] h(6) by simp
    then show ?thesis using l i(4) False find_block_rejects [OF c] by (simp add: link_at_def)
  next
    case True
    obtain payload where p: "length payload \<le> 59" "f = frame (seq_at N i) payload" using h(1) i(1,2) by (auto simp: blocks_ok_def)
    note w = find_block_new [OF c [unfolded True] p(2,1)]
    have "seq_at N i = seq_at N n" using w(2) h(6) by simp
    then have e: "i = n" by (rule seq_at_inj) (use i host_window [OF h(2)] h(3) in auto)
    have "answers (l_mcu l) s' = []" by (simp add: answers_def w(4))
    then show ?thesis
      using l True w(1,3) h i e up_ok_Suc [OF h(7)]
      by (simp add: link_at_def next_seq_at take_Suc_conv_app_nth)
  qed
qed

lemma handle_at:
  assumes l: "link_at N a n l" and u: "l_up l = q # qs" and p: "length payload \<le> MESSAGE_PAYLOAD_MAX"
    and m: "handle_message F t now (length payload + MESSAGE_MIN) ((l_host l)\<lparr>sq_input_buf := frame q payload\<rparr>) = Some sq'"
  obtains x where "a \<le> x" "x \<le> n" "q = seq_at N x" "link_at N x n (l\<lparr>l_host := sq', l_up := qs\<rparr>)"
proof -
  let ?sq = "(l_host l)\<lparr>sq_input_buf := frame q payload\<rparr>"
  have h: "host_ok N (l_blocks l) a ?sq" "n \<le> length (l_blocks l)" "up_ok N a n (q # qs)" "a \<le> n"
    using l u host_ok_cong [of "l_host l" ?sq] by (simp_all add: link_at_def same_link_def)
  obtain x xs where x: "q = seq_at N x" "qs = map (seq_at N) xs" "sorted (x # xs)" "\<forall>y \<in> set (x # xs). a \<le> y \<and> y \<le> n"
    using h(3) by (auto simp: up_ok_def Cons_eq_map_conv)
  have r: "rd (sq_input_buf ?sq) MESSAGE_POS_SEQ = Some (seq_byte (of_nat (N + x)))"
    by (simp add: rd_def frame_nth x(1) seq_at_def)
  have k: "link_ok ?sq" "unat (sq_receive_seq ?sq) = N + a" "unat (sq_send_seq ?sq) = N + length (l_blocks l)"
    using h(1) by (auto simp: host_ok_def link_ok_def)
  have s: "unat (of_nat (N + x) :: u64) = N + x"
  proof -
    have "N + x < 2 ^ LENGTH(64)" using k(3) unsigned_less [of "sq_send_seq ?sq", where ?'a = nat] h(2) x(4) by simp
    then show ?thesis by (simp only: unat_of_nat mod_less)
  qed
  have e: "link_ok sq' \<and> sq_receive_seq sq' = of_nat (N + x) \<and> sq_send_seq sq' = sq_send_seq ?sq \<and> sq_sent_queue sq' = drop (x - a) (sq_sent_queue ?sq)"
    using handle_ack_link [OF m r k(1)] s k x(4) h(2) by simp
  then have "host_ok N (l_blocks l) x sq'"
    using h(1) x(4) s h(2) by (auto simp: host_ok_def drop_map [symmetric])
  moreover have "up_ok N x n qs" unfolding up_ok_def using x by (intro exI [of _ xs]) auto
  ultimately have "link_at N x n (l\<lparr>l_host := sq', l_up := qs\<rparr>)" using l x(4) by (simp add: link_at_def)
  then show ?thesis using that x by auto
qed

end
