(* ===== verification/Link_Props.thy ===== *)
theory Link_Props
  imports Link Serialqueue_Props
begin

text \<open>
  What the link guarantees in every reachable state: delivery once and in order, and that it can recover; and how host and
  firmware come to agree at first contact.
\<close>

lemma link_start_at: "link_start l \<Longrightarrow> link_at (unat (sq_receive_seq (l_host l))) 0 0 l"
  by (auto simp: link_start_def link_at_def blocks_ok_def host_ok_def link_ok_def down_ok_def up_ok_def seq_at_def)

lemma lose_down_at: "link_at N a n l \<Longrightarrow> l_down l = xs @ f # ys \<Longrightarrow> link_at N a n (l\<lparr>l_down := xs @ ys\<rparr>)"
  by (auto simp: link_at_def dest: down_ok_remove)

lemma lose_up_at: "link_at N a n l \<Longrightarrow> l_up l = xs @ q # ys \<Longrightarrow> link_at N a n (l\<lparr>l_up := xs @ ys\<rparr>)"
  by (auto simp: link_at_def dest: up_ok_remove)

lemma link_step_at:
  assumes "link_step F l l'" "link_at N a n l"
  shows "\<exists>a' n'. link_at N a' n' l'"
  using assms(1)
proof cases
  case (handle q qs payload t now sq')
  then show ?thesis using handle_at [OF assms(2)] by metis
next
  case submit
  then show ?thesis using same_link_at [OF assms(2) submit_keeps] by blast
next
  case pull
  then show ?thesis using same_link_at [OF assms(2) pull_keeps] by blast
next
  case command
  then show ?thesis using command_at [OF assms(2)] by blast
next
  case retransmit
  then show ?thesis using retransmit_at [OF assms(2)] by blast
next
  case lose_down
  then show ?thesis using lose_down_at [OF assms(2)] by blast
next
  case lose_up
  then show ?thesis using lose_up_at [OF assms(2)] by blast
next
  case noise
  then show ?thesis using mcu_at [OF assms(2) find_block_rejects find_block_answers] by blast
next
  case receive
  then show ?thesis using receive_at [OF assms(2)] by blast
next
  case answer
  then show ?thesis using mcu_at [OF assms(2) sendf_sequence sendf_answers] by blast
qed

lemma link_reach_at:
  assumes "(link_step F)\<^sup>*\<^sup>* l l'" "link_start l"
  shows "\<exists>a n. link_at (unat (sq_receive_seq (l_host l))) a n l'"
  using assms by (induction rule: rtranclp_induct) (use link_start_at link_step_at in blast)+

section \<open>Delivery\<close>

text \<open>
  C1. The host and the firmware over a line that loses blocks and inserts noise, from a state where they agree on the next
  number: the firmware accepts exactly a prefix of the blocks the host has built, each once and in order; the host keeps
  every block that is not accepted yet for retransmission, and never has more than \<open>MAX_PENDING_BLOCKS\<close> of them.
\<close>

theorem link_exactly_once:
  assumes "link_start l" "(link_step F)\<^sup>*\<^sup>* l l'"
  shows "prefix (l_delivered l') (l_blocks l')
     \<and> (\<exists>acked \<le> length (l_delivered l'). length (l_blocks l') \<le> acked + MAX_PENDING_BLOCKS
          \<and> map qm_bytes (sq_sent_queue (l_host l')) = map Some (drop acked (l_blocks l')))"
proof -
  obtain a n where l: "link_at (unat (sq_receive_seq (l_host l))) a n l'" using link_reach_at [OF assms(2,1)] by blast
  then have "length (l_blocks l') \<le> a + MAX_PENDING_BLOCKS" using host_window by (fastforce simp: link_at_def MAX_PENDING_BLOCKS_def)
  then show ?thesis using l by (auto simp: link_at_def host_ok_def take_is_prefix intro!: exI [of _ a])
qed

section \<open>Recovery\<close>

abbreviation in_sync :: "'z console_state_scheme \<Rightarrow> bool" where
  "in_sync s \<equiv> sync_state s AND CF_NEED_SYNC = 0"

lemma find_block_sendf: "command_find_block buf n s = Ret (r, k) s' \<Longrightarrow> in_sendf s' = in_sendf s"
  by (auto simp: command_find_block_def find_block_error_def find_block_need_sync_def command_sendf_eq Let_def split: if_splits option.splits bool.splits)

lemma clear_bit0: "((x AND - 2) OR 2) AND 1 = 0" "(x AND - 2) AND 1 = 0" "x AND 1 = 0 \<Longrightarrow> (x AND y) AND 1 = 0" for x y :: u8
proof -
  have n: "- 2 = NOT (1 :: u8)" by simp
  show "((x AND - 2) OR 2) AND 1 = 0" unfolding n by (rule bit_word_eqI) (auto simp: bit_simps bit_1_iff)
  show "(x AND - 2) AND 1 = 0" unfolding n by (rule bit_word_eqI) (auto simp: bit_simps bit_1_iff)
  assume "x AND 1 = 0"
  then show "(x AND y) AND 1 = 0" by (metis and.assoc and.left_commute and_zero_eq)
qed

lemma resync_step:
  obtains l' where "(link_step F)\<^sup>*\<^sup>* l l'" "in_sync (l_mcu l')" "in_sendf (l_mcu l') = in_sendf (l_mcu l)" "l_host l' = l_host l" "l_blocks l' = l_blocks l"
proof (cases "in_sync (l_mcu l)")
  case False
  have "\<exists>k s'. command_find_block [MESSAGE_SYNC] 1 (l_mcu l) = Ret (-1, k) s' \<and> in_sync s'"
    using False
    by (cases "(sync_state (l_mcu l) AND - 2) AND 2 = 0")
      (simp_all add: command_find_block_def find_block_need_sync_def command_sendf_eq Let_def clear_bit0)
  then obtain k s' where f: "command_find_block [MESSAGE_SYNC] 1 (l_mcu l) = Ret (-1, k) s'" "in_sync s'" by blast
  then have "link_step F l (l\<lparr>l_mcu := s', l_up := l_up l @ answers (l_mcu l) s'\<rparr>)" by (intro link_step.noise) auto
  then have "(link_step F)\<^sup>*\<^sup>* l (l\<lparr>l_mcu := s', l_up := l_up l @ answers (l_mcu l) s'\<rparr>)" by (rule r_into_rtranclp)
  then show ?thesis by (rule that) (use f find_block_sendf [OF f(1)] in simp_all)
qed (use that in blast)

lemma quiet_steps:
  obtains l' where "(link_step F)\<^sup>*\<^sup>* l l'" "l' = l\<lparr>l_down := [], l_up := []\<rparr>"
proof -
  have d: "(link_step F)\<^sup>*\<^sup>* (l\<lparr>l_down := fs\<rparr>) (l\<lparr>l_down := []\<rparr>)" for fs and l :: "('a, 'b) link"
  proof (induction fs)
    case (Cons f fs)
    have "link_step F (l\<lparr>l_down := f # fs\<rparr>) (l\<lparr>l_down := fs\<rparr>)" using link_step.lose_down [of "l\<lparr>l_down := f # fs\<rparr>" "[]" f fs F] by simp
    then show ?case using Cons by (rule converse_rtranclp_into_rtranclp)
  qed simp
  have u: "(link_step F)\<^sup>*\<^sup>* (l\<lparr>l_up := qs\<rparr>) (l\<lparr>l_up := []\<rparr>)" for qs and l :: "('a, 'b) link"
  proof (induction qs)
    case (Cons q qs)
    have "link_step F (l\<lparr>l_up := q # qs\<rparr>) (l\<lparr>l_up := qs\<rparr>)" using link_step.lose_up [of "l\<lparr>l_up := q # qs\<rparr>" "[]" q qs F] by simp
    then show ?case using Cons by (rule converse_rtranclp_into_rtranclp)
  qed simp
  show ?thesis using that d [of "l_down l" l] u [of "l_up l" "l\<lparr>l_down := []\<rparr>"] by (auto intro: rtranclp_trans)
qed

lemma find_block_old:
  assumes "in_sync s" "seq_ok q" "q \<noteq> next_sequence s" "length payload \<le> 59"
  shows "\<exists>k s'. command_find_block (frame q payload) (length (frame q payload)) s = Ret (-1, k) s' \<and> in_sync s'"
proof -
  let ?f = "frame q payload"
  have w: "take (length ?f) ?f = frame q payload" by simp
  note p = take_frame_parts [OF w le_refl assms(4)]
  have r: "rd ?f 0 = Some (?f ! 0)" "rd ?f (Suc 0) = Some q" using p(3) by (simp_all add: rd_def frame_nth)
  have "trailer_ok ?f (length ?f) = Some True" using trailer_ok_frame [of "length ?f" ?f] p assms(4) by simp
  then show ?thesis
    using r p(2) assms by (simp add: command_find_block_def seq_ok_def command_sendf_eq Let_def clear_bit0)
qed

lemma receive_one:
  assumes l: "link_at N a n l" "l_down l = drop i (l_blocks l)" "i \<le> n" "i < length (l_blocks l)" "in_sync (l_mcu l)"
  obtains l' n' where "link_step F l l'" "link_at N a n' l'" "l_down l' = drop (Suc i) (l_blocks l')" "Suc i \<le> n'" "in_sync (l_mcu l')"
    "l_blocks l' = l_blocks l" "in_sendf (l_mcu l') = in_sendf (l_mcu l)"
proof -
  let ?f = "l_blocks l ! i"
  have d: "l_down l = ?f # drop (Suc i) (l_blocks l)" using assms(2,4) by (simp add: Cons_nth_drop_Suc)
  obtain payload where p: "length payload \<le> 59" "?f = frame (seq_at N i) payload" using l(1) assms(4) by (auto simp: link_at_def blocks_ok_def)
  have m: "next_sequence (l_mcu l) = seq_at N n" using l(1) by (simp add: link_at_def)
  have ok: "seq_ok (seq_at N i)" "seq_ok (seq_at N n)" by (simp_all add: seq_at_def seq_byte_ok)
  obtain r k s' where c: "command_find_block ?f (length ?f) (l_mcu l) = Ret (r, k) s'" "in_sync s'" "r \<noteq> 1 \<longrightarrow> i \<noteq> n"
  proof (cases "seq_at N i = seq_at N n")
    case True
    have "block_at ?f (length ?f) (length ?f) (next_sequence (l_mcu l))" unfolding m True [symmetric] block_at_def using p by auto
    from find_block_accepts [OF le_refl assms(5) this ok(2) [folded m]] show ?thesis using that assms(5) by (auto simp: clear_bit0)
  next
    case False
    then show ?thesis using find_block_old [OF assms(5) ok(1) _ p(1)] that m unfolding p(2) by fastforce
  qed
  have "Suc i \<le> (if r = 1 then Suc n else n)" using c(3) assms(3) by auto
  then show ?thesis
    using that [OF link_step.receive [OF d c(1)] receive_at [OF l(1) d c(1)]] c(2) find_block_sendf [OF c(1)] by simp
qed

lemma receive_all:
  assumes "link_at N a n l" "l_down l = drop i (l_blocks l)" "i \<le> n" "in_sync (l_mcu l)"
  shows "\<exists>l'. (link_step F)\<^sup>*\<^sup>* l l' \<and> link_at N a (length (l_blocks l)) l' \<and> l_blocks l' = l_blocks l \<and> in_sendf (l_mcu l') = in_sendf (l_mcu l)"
  using assms
proof (induction "length (l_blocks l) - i" arbitrary: l i n)
  case 0
  then have "n = length (l_blocks l)" by (auto simp: link_at_def)
  then show ?case using 0 by blast
next
  case (Suc x)
  then obtain l1 n1 where o: "link_step F l l1" "link_at N a n1 l1" "l_down l1 = drop (Suc i) (l_blocks l1)" "Suc i \<le> n1" "in_sync (l_mcu l1)"
    "l_blocks l1 = l_blocks l" "in_sendf (l_mcu l1) = in_sendf (l_mcu l)"
    using receive_one [of N a n l i F] by (metis zero_less_Suc zero_less_diff)
  have "x = length (l_blocks l1) - Suc i" using Suc.hyps(2) o(6) by simp
  from Suc.hyps(1) [OF this o(2-5)] show ?case using o(1,6,7) by (metis converse_rtranclp_into_rtranclp)
qed

lemma quiet_at: "link_at N a n l \<Longrightarrow> link_at N a n (l\<lparr>l_down := [], l_up := []\<rparr>)"
  by (simp add: link_at_def down_ok_def up_ok_def)

lemma resend_all:
  assumes l: "link_at N a n l" "l_down l = []" "in_sync (l_mcu l)"
  shows "\<exists>l'. (link_step F)\<^sup>*\<^sup>* l l' \<and> link_at N a (length (l_blocks l)) l' \<and> l_blocks l' = l_blocks l \<and> in_sendf (l_mcu l') = in_sendf (l_mcu l)"
proof -
  have h: "host_ok N (l_blocks l) a (l_host l)" "a \<le> n" using l(1) by (simp_all add: link_at_def)
  obtain blks w sq' where r: "map qm_bytes (sq_sent_queue (l_host l)) = map Some blks" "retransmit_event F (\<lambda>_. 0) (f_int F 0) (f_int F 0) (l_host l) = Some (w, sq')"
    using retransmit_sends [of "l_host l" F "\<lambda>_. 0" "f_int F 0" "f_int F 0"] h(1) unfolding host_ok_def by metis
  let ?l = "l\<lparr>l_host := sq', l_down := l_down l @ blks\<rparr>"
  have s: "link_step F l ?l" "link_at N a n ?l" using link_step.retransmit [OF r(2) r(1) [symmetric]] retransmit_at [OF l(1) r(2) r(1) [symmetric]] by auto
  have "blks = drop a (l_blocks l)" using r(1) h(1) by (simp add: host_ok_def map_Some_inj)
  then show ?thesis using receive_all [OF s(2), of a F] s(1) l(2,3) h(2) by (auto intro: converse_rtranclp_into_rtranclp)
qed

lemma handle_ack_total:
  assumes "rd (sq_input_buf sq) MESSAGE_POS_SEQ = Some q"
  shows "\<exists>sq'. handle_message F t now MESSAGE_MIN sq = Some sq'"
  using assms by (simp add: handle_message_def Let_def split: prod.split)

lemma acknowledge_all:
  assumes l: "link_at N a n l" "l_up l = []" "in_sendf (l_mcu l) = 0"
  shows "\<exists>l'. (link_step F)\<^sup>*\<^sup>* l l' \<and> link_at N n n l' \<and> l_blocks l' = l_blocks l"
proof -
  let ?s = "command_sendf Acknak (l_mcu l)" and ?q = "seq_at N n"
  let ?l = "l\<lparr>l_mcu := ?s, l_up := l_up l @ answers (l_mcu l) ?s\<rparr>"
  have u: "l_up ?l = [?q]" using l by (simp add: answers_def command_sendf_eq link_at_def)
  have s: "link_step F l ?l" "link_at N a n ?l" by (rule link_step.answer) (rule mcu_at [OF l(1) sendf_sequence sendf_answers])
  have p: "length ([] :: u8 list) \<le> MESSAGE_PAYLOAD_MAX" by simp
  have "rd (sq_input_buf ((l_host ?l)\<lparr>sq_input_buf := frame ?q []\<rparr>)) MESSAGE_POS_SEQ = Some ?q" by (simp add: rd_def frame_nth)
  from handle_ack_total [OF this, of F "f_int F 0" "f_int F 0"] obtain sq'
    where m: "handle_message F (f_int F 0) (f_int F 0) (length ([] :: u8 list) + MESSAGE_MIN) ((l_host ?l)\<lparr>sq_input_buf := frame ?q []\<rparr>) = Some sq'" by auto
  obtain x where x: "a \<le> x" "x \<le> n" "?q = seq_at N x" "link_at N x n (?l\<lparr>l_host := sq', l_up := []\<rparr>)"
    using handle_at [OF s(2) u p m] by metis
  have "n \<le> a + 12" using l(1) host_window by (fastforce simp: link_at_def)
  then have "x = n" using seq_at_inj [OF x(3) [symmetric]] x(1,2) by simp
  then show ?thesis using s(1) link_step.handle [OF u p m] x(4) by (intro exI conjI) (rule converse_rtranclp_into_rtranclp, assumption, erule r_into_rtranclp, simp_all)
qed


section \<open>A run\<close>

definition demo_host :: "int serialqueue" where
  "demo_host = demo_queue\<lparr>cq_ready := (\<lambda>_. [])(0 := [demo_command]), sq_ready_queues := [0], sq_ready_bytes := 3\<rparr>"

lemma demo_host_fields:
  "sq_ready_bytes demo_host = 3" "sq_min_release_clock demo_host = MAX_CLOCK" "sq_receive_seq demo_host = 1" "sq_send_seq demo_host = 1"
  "sq_receive_window demo_host = 0" "sq_ce demo_host = clock_fill 0 0 0 0" "cq_ready demo_host = (\<lambda>_. [])(0 := [demo_command])" "sq_ready_queues demo_host = [0]"
  "sq_sent_queue demo_host = []" "sq_serial_fd_type demo_host = SQT_UART" "sq_output demo_host = []" "sq_bittime_adjust demo_host = 0" "sq_idle_time demo_host = 0"
  by (simp_all add: demo_host_def demo_queue_def serialqueue_alloc_def Let_def SQT_UART_def SQT_DEBUGFILE_def demo_fops_def)

lemma demo_now: "PR_NOW demo_fops = 0" "f_eq demo_fops a b \<longleftrightarrow> a = b"
  by (simp_all add: PR_NOW_def demo_fops_def)

lemma demo_check:
  "check_send_command demo_fops 0 1 demo_host = Some (0, demo_host\<lparr>sq_need_kick_clock := 0\<rparr>)"
  by (simp add: check_send_command_def check_upcoming_queues_def must_wait_ack_def check_ready_def demo_host_fields Let_def calculate_bittime_def
      MAX_PENDING_BLOCKS_def SQT_UART_def SQT_CAN_def demo_fops_def clock_from_time_def clock_fill_def MAX_CLOCK_def PR_NOW_def)

lemma demo_build:
  "\<exists>out sq'. build_and_send_command demo_fops 0 1 (demo_host\<lparr>sq_need_kick_clock := 0\<rparr>) = Some (frame 0x11 [1, 2, 3], sq')
     \<and> sq_sent_queue sq' = [out] \<and> qm_bytes out = Some (frame 0x11 [1, 2, 3]) \<and> sq_ready_bytes sq' = 0 \<and> sq_min_release_clock sq' = MAX_CLOCK
     \<and> sq_send_seq sq' = 2 \<and> sq_receive_seq sq' = 1 \<and> sq_receive_window sq' = 0 \<and> sq_ce sq' = clock_fill 0 0 0 0"
proof -
  obtain sq1 where p: "build_payload [] (demo_host\<lparr>sq_need_kick_clock := 0\<rparr>) = Some ([1, 2, 3], sq1)"
    "sq_sent_queue sq1 = []" "sq_ready_bytes sq1 = 0" "sq_min_release_clock sq1 = MAX_CLOCK" "sq_send_seq sq1 = 1" "sq_receive_seq sq1 = 1"
    "sq_receive_window sq1 = 0" "sq_ce sq1 = clock_fill 0 0 0 0"
    by (subst (asm) build_payload.simps, subst (asm) build_payload.simps)
      (simp add: demo_host_fields demo_command_def qm_bytes_def take_ready_def message_alloc_def MAX_CLOCK_def Let_def)
  have f: "frame 0x11 [1, 2, 3] = [8, 0x11, 1, 2, 3] @ [ucast (drop_bit 8 (crc_of [8, 0x11, 1, 2, 3])), ucast (crc_of [8, 0x11, 1, 2, 3] AND 0xff), MESSAGE_SYNC]"
  proof -
    have "(ucast (x AND 0xff) :: u8) = ucast x" for x :: u16 by (rule bit_word_eqI) (auto simp: bit_simps and_255 numeral_eq_Suc less_Suc_eq)
    then show ?thesis by (simp add: frame_def Let_def)
  qed
  obtain out where m: "message_fill demo_fops (frame 0x11 [1, 2, 3]) 8 = Some out" using message_fill_total [of 8 "frame 0x11 [1, 2, 3]" demo_fops] by auto
  have c: "msgblock_crc16_ccitt [8, 0x11, 1, 2, 3] 5 = Some (crc_of [8, 0x11, 1, 2, 3])" using block_is_frame [of "[1, 2, 3]" "0x11"] by simp
  show ?thesis
    using p c m message_fill_bytes [OF m] unfolding f
    by (simp add: build_and_send_command_def store_block_def update_timer_def Let_def qm_bytes_times)
qed

lemma demo_host_sends:
  "\<exists>w out sq'. command_event demo_fops (\<lambda>_. 0) 1 1 demo_host = Some (w, sq') \<and> sq_sent_queue sq' = [out] \<and> qm_bytes out = Some (frame 0x11 [1, 2, 3])"
proof -
  obtain out sq1 where b: "build_and_send_command demo_fops 0 1 (demo_host\<lparr>sq_need_kick_clock := 0\<rparr>) = Some (frame 0x11 [1, 2, 3], sq1)"
    "sq_sent_queue sq1 = [out]" "qm_bytes out = Some (frame 0x11 [1, 2, 3])" "sq_ready_bytes sq1 = 0" "sq_min_release_clock sq1 = MAX_CLOCK"
    "sq_send_seq sq1 = 2" "sq_receive_seq sq1 = 1" "sq_receive_window sq1 = 0" "sq_ce sq1 = clock_fill 0 0 0 0" using demo_build by blast
  have c: "check_send_command demo_fops 8 1 sq1 = Some (9999999999999999, sq1\<lparr>sq_need_kick_clock := 1\<rparr>)"
    using b by (simp add: check_send_command_def check_upcoming_queues_def update_need_kick_clock_def must_wait_ack_def check_ready_def Let_def
      MAX_PENDING_BLOCKS_def word_le_nat_alt demo_fops_def clock_from_time_def clock_fill_def MAX_CLOCK_def PR_NEVER_def)
  have "command_loop demo_fops 1 [] demo_host = Some (9999999999999999, frame 0x11 [1, 2, 3], sq1\<lparr>sq_need_kick_clock := 1\<rparr>)"
    using b(1) c by (subst command_loop.simps, subst command_loop.simps) (simp add: demo_check demo_now MAX_PENDING_BLOCKS_def)
  moreover have "sq_sent_queue (do_write demo_fops (\<lambda>_. 0) 1 (frame 0x11 [1, 2, 3]) (sq1\<lparr>sq_need_kick_clock := 1\<rparr>)) = [out]"
    using do_write_keeps [of "sq1\<lparr>sq_need_kick_clock := 1\<rparr>" demo_fops "\<lambda>_. 0" 1 "frame 0x11 [1, 2, 3]"] b(2) by (simp add: same_link_def)
  ultimately show ?thesis using b(3) by (auto simp: command_event_def Let_def dest: arg_cong [of _ _ length])
qed

definition demo_link :: "(int, unit) link" where
  "demo_link = \<lparr>l_host = demo_host, l_mcu = \<lparr>next_sequence = 0x11, sync_state = 0, in_sendf = 0, sent = []\<rparr>,
     l_down = [], l_up = [], l_blocks = [], l_delivered = []\<rparr>"

lemma demo_link_start: "link_start demo_link"
  by (simp add: link_start_def demo_link_def demo_host_fields seq_byte_def)

lemma demo_link_sends:
  obtains l where "(link_step demo_fops)\<^sup>*\<^sup>* demo_link l" "l_blocks l = [frame 0x11 [1, 2, 3]]" "l_down l = [frame 0x11 [1, 2, 3]]"
    "l_mcu l = l_mcu demo_link" "l_delivered l = []"
proof -
  obtain w out sq' where c: "command_event demo_fops (\<lambda>_. 0) 1 1 demo_host = Some (w, sq')" "sq_sent_queue sq' = [out]" "qm_bytes out = Some (frame 0x11 [1, 2, 3])"
    using demo_host_sends by blast
  have "link_step demo_fops demo_link (demo_link\<lparr>l_host := sq', l_down := l_down demo_link @ [frame 0x11 [1, 2, 3]],
      l_blocks := l_blocks demo_link @ [frame 0x11 [1, 2, 3]]\<rparr>)"
    by (rule link_step.command [of _ "\<lambda>_. 0" 1 1])
      (use c in \<open>simp_all add: demo_link_def demo_host_fields clock_runs_def demo_fops_def PR_NOW_def\<close>)
  then have "(link_step demo_fops)\<^sup>*\<^sup>* demo_link (demo_link\<lparr>l_host := sq', l_down := l_down demo_link @ [frame 0x11 [1, 2, 3]],
      l_blocks := l_blocks demo_link @ [frame 0x11 [1, 2, 3]]\<rparr>)" by (rule r_into_rtranclp)
  then show ?thesis by (rule that) (simp_all add: demo_link_def)
qed

theorem link_exactly_once_witness:
  "\<exists>l. (link_step demo_fops)\<^sup>*\<^sup>* demo_link l \<and> l_delivered l = [frame 0x11 [1, 2, 3]] \<and> prefix (l_delivered l) (l_blocks l)"
proof -
  obtain l where l: "(link_step demo_fops)\<^sup>*\<^sup>* demo_link l" "l_down l = [frame 0x11 [1, 2, 3]]" "l_mcu l = l_mcu demo_link" "l_delivered l = []"
    using demo_link_sends by metis
  have "block_at (frame 0x11 [1, 2, 3]) 8 8 0x11" using block_at_self [of "[1, 2, 3]" "0x11" "[]"] by simp
  then obtain s' where f: "command_find_block (frame 0x11 [1, 2, 3]) (length (frame 0x11 [1, 2, 3])) (l_mcu l) = Ret (1, 8) s'"
    using find_block_accepts [of 8 "frame 0x11 [1, 2, 3]" "l_mcu l" 8] by (simp add: l(3) demo_link_def seq_ok_def)
  let ?l = "l\<lparr>l_mcu := s', l_down := [], l_up := l_up l @ answers (l_mcu l) s',
      l_delivered := l_delivered l @ (if (1 :: int) = 1 then [take 8 (frame 0x11 [1, 2, 3])] else [])\<rparr>"
  have r: "(link_step demo_fops)\<^sup>*\<^sup>* demo_link ?l" by (rule rtranclp.rtrancl_into_rtrancl [OF l(1) link_step.receive [OF l(2) f]])
  then show ?thesis using link_exactly_once [OF demo_link_start r] l(4) by (intro exI [of _ ?l]) simp
qed


lemma low_bits_ack: "take_bit 4 (ack_seq q r) = take_bit 4 (ucast q)"
proof -
  have "take_bit 4 (r + take_bit 4 (x - r)) = take_bit 4 x" for x :: u64
  proof (transfer, goal_cases)
    case (1 r x)
    have "take_bit 4 (r + take_bit 4 (x - r)) = take_bit 4 (take_bit 4 r + take_bit 4 (take_bit 4 (x - r)))" by (simp only: take_bit_add)
    also have "\<dots> = take_bit 4 (r + (x - r))" by (simp only: take_bit_add take_bit_take_bit min.idem)
    finally show ?case by simp
  qed
  then show ?thesis by (simp only: ack_seq_def seq_mask take_bit_eq_mask [symmetric])
qed

lemma seq_byte_ack: 
  assumes "seq_ok q"
  shows "seq_byte (ack_seq q r) = q"
proof (rule bit_word_eqI)
  fix n assume n: "n < LENGTH(8)"
  have m: "MESSAGE_SEQ_MASK = (mask 4 :: u8)" by (simp add: mask_eq_exp_minus_1)
  have low: "bit (ack_seq q r) n = bit q n" if "n < 4"
    using arg_cong [OF low_bits_ack [of q r], of "\<lambda>w. bit w n"] that n by (simp add: bit_take_bit_iff bit_ucast_iff)
  have high: "bit q n = (n = 4)" if "\<not> n < 4"
  proof -
    have e: "bit (q AND NOT (mask 4)) n = bit (16 :: u8) n" using assms unfolding seq_ok_def m by (simp only: MESSAGE_DEST_def)
    have "bit (NOT (mask 4 :: u8)) n" by (simp only: bit_not_iff bit_mask_iff possible_bit_word) (use that n in simp)
    then show ?thesis using e by (simp only: bit_and_iff bit_16) simp
  qed
  have "bit (seq_byte s) n = (n = 4 \<or> n < 4 \<and> bit s n)" for s
    unfolding seq_byte_def m MESSAGE_DEST_def by (simp only: bit_or_iff bit_and_iff bit_mask_iff bit_16 bit_ucast_iff possible_bit_word) (use n in auto)
  then show "bit (seq_byte (ack_seq q r)) n = bit q n" using low high by (cases "n < 4") auto
qed



end
