(* ===== verification/Spec2Isabelle.thy ===== *)
theory Spec2Isabelle
  imports Basecmd_Props Buttons_Props Host_Path Link_Props
begin

text \<open>
  A verification development for the motion control software of this repository: the C firmware of the
  micro-controllers (\<open>src/\<close> and \<open>src/generic\<close>, \<open>src/stm32\<close>) and the C helper library of the host
  (\<open>klippy/chelper\<close>).

  \<^bold>\<open>The program.\<close> The host turns planned motion into step times, compresses them into moves (\<open>stepcompress.c\<close>), merges
  the moves of all steppers of a micro-controller in the order of their clocks (\<open>steppersync.c\<close>), and sends them in numbered
  blocks over a serial line (\<open>serialqueue.c\<close>, \<open>msgblock.c\<close>, driven by \<open>pollreactor.c\<close>). The firmware finds blocks in the
  received bytes and runs the handlers of their commands (\<open>command.c\<close>); handlers queue moves and set timers
  (\<open>basecmd.c\<close>, \<open>sched.c\<close>), and the timer events of the components (\<open>stepper.c\<close>, \<open>endstop.c\<close>, \<open>trsync.c\<close>,
  \<open>gpiocmds.c\<close>, \<open>pwmcmds.c\<close>, \<open>adccmds.c\<close>, \<open>buttons.c\<close>, \<open>pulse_counter.c\<close>) drive the pins (\<open>stm32/gpio.c\<close>,
  \<open>stm32/hard_pwm.c\<close>, \<open>stm32/adc.c\<close>). Responses go back the same way.

  \<^bold>\<open>How the code is modelled.\<close> Integers keep their width as words. A firmware function takes and returns the state
  record; its result is an \<open>outcome\<close>: a return, the \<open>longjmp\<close> of \<open>shutdown()\<close> with its reason, or \<open>Fault\<close> for an access
  outside a buffer or through a null pointer. The state is one record extended from theory to theory, so that each
  component adds the static variables of its file; objects of a type live in a store indexed by their address. A
  function of the host library returns an option, with \<^const>\<open>None\<close> for such an access and for the overflow of a signed
  integer. Doubles of the host are a type variable with their operations in a record \<open>fops\<close>, so what is shown of that
  code does not depend on rounding. Loops are structural recursion or have a termination proof; the loops
  over the linked lists of timers, signals and moves and the wait for the clock are partial functions, and the theorems
  show that they return on the lists the invariants describe.
  Device registers, the clock, the generated command table, \<open>read\<close>, \<open>write\<close> and \<open>poll\<close> are arguments or fields of the
  state that the environment sets. Every definition translates the lines its entry in \<open>PROJECT.json\<close> names.

  \<^bold>\<open>Theories of the firmware.\<close>
  \<^item> \<open>Prelude\<close>: word types, outcomes, checked byte buffers, shared lemmas.
  \<^item> \<open>Vlq\<close>, \<open>Crc\<close>: the integer encoding with its round trip, and the checksum as an equivalent of the bitwise CRC.
  \<^item> \<open>Console\<close>, \<open>Command\<close>, \<open>Command_Blocks\<close>, \<open>Command_Dispatch\<close>: \<open>command.c\<close>. A block is accepted exactly when it is a
    frame with the expected number; the search makes progress and gets back in sync; dispatch reads only the block and
    runs the handlers of its commands in order, gated by the shutdown state.
  \<^item> \<open>Sched\<close>, \<open>Sched_List\<close>, \<open>Sched_Queue\<close>: \<open>sched.c\<close>. The linked timer list refines a list sorted by waketime; the locale
    \<open>timer_queue\<close> is the contract its clients use, interpreted on the code's add, delete and dispatch.
  \<^item> \<open>Basecmd\<close>, \<open>Move_Pool\<close>, \<open>Basecmd_Props\<close>: \<open>basecmd.c\<close>. The locale \<open>move_pool\<close> is the contract of the move queues;
    object ids and their iteration, load statistics, the 64-bit time.
  \<^item> \<open>Gpio\<close>, \<open>Trsync\<close>, \<open>Stepper\<close>, \<open>Stepper_Lib\<close>, \<open>Stepper_Props\<close>: \<open>trsync.c\<close> and \<open>stepper.c\<close>. The times and the number
    of the steps of a move, the position, the width of the pulses, and that a trigger stops every stepper that waits for it.
  \<^item> \<open>Endstop\<close>, \<open>Endstop_Props\<close>: \<open>endstop.c\<close>. A trigger needs the full run of matching samples, and then stops the steppers.
  \<^item> \<open>Digital_Out\<close>, \<open>Digital_Props\<close>, \<open>Pwm_Out\<close>, \<open>Pwm_Props\<close>: outputs, their deadlines and the rounding of PWM cycles.
  \<^item> \<open>Analog_In\<close>, \<open>Analog_Props\<close>, \<open>Buttons\<close>, \<open>Buttons_Props\<close>: sampling cycles, the delivery of button changes, and counters.

  \<^bold>\<open>Theories of the host.\<close>
  \<^item> \<open>Msgblock\<close>, \<open>Msgblock_Props\<close>: \<open>msgblock.c\<close>, its block check and the round trip with the firmware's encoder.
  \<^item> \<open>Stepcompress\<close>, \<open>Stepcompress_Lib\<close>, \<open>Stepcompress_Props\<close>: \<open>stepcompress.c\<close>. The search for a move ends without
    overflow with a move that passes \<open>check_line\<close>; a flush sends the queued steps in order, each within its bounds. The
    hypotheses \<open>queue_small\<close> and \<open>arith_ok\<close> bound the queue and the clocks so that no 32-bit product overflows; without
    them the overflow is a theorem of \<open>Stepcompress_Props\<close>.
  \<^item> \<open>Steppersync\<close>, \<open>Steppersync_Props\<close>: \<open>steppersync.c\<close>. The heap as a priority queue, the merge of the message queues,
    the capacity of the micro-controller's move queue, and the threads under every interleaving.
  \<^item> \<open>Pollreactor\<close>, \<open>Serialqueue\<close>, \<open>Serialqueue_Lib\<close>, \<open>Serialqueue_Props\<close>: \<open>pollreactor.c\<close> and \<open>serialqueue.c\<close>. The blocks
    the host builds are frames, at most twelve are unacknowledged, what an acknowledgement and a retransmission do, and
    the queues of pending messages.
  \<^item> \<open>Host_Path\<close>: the locale \<open>message_queue\<close> is the contract of \<open>serialqueue_send_batch\<close> with its senders, interpreted on
    the serial queue; through it the batches of \<open>steppersync_flush\<close> reach the queue complete and in the order of clocks.

  \<^bold>\<open>Both sides together.\<close> \<open>Link\<close> and \<open>Link_Props\<close> are a step relation of the host's queue and the firmware's block
  search over a line with two channels in order that lose blocks and insert noise. Every reachable state delivers a prefix
  of the host's blocks once and in order, and can recover. The hypotheses are that both start from one number, that fewer
  than \<open>2 ^ 63\<close> blocks are acknowledged, and that the time of the reactor is not a quarter of a second before its origin
  (\<open>clock_runs\<close>); a block on the line is delivered as it was sent, as noise that is not a block, or not at all.

  \<^bold>\<open>Not modelled.\<close> The endless loops \<open>run_tasks\<close> and \<open>sched_main\<close> and the masking of interrupts; the transports
  (\<open>serial_irq.c\<close>, \<open>canserial.c\<close>, \<open>usb_cdc.c\<close>), start-up code, the other drivers and boards, and the bus, sensor and
  display commands, whose effects lie in device registers or in chips described outside this repository; the trajectory
  queue and the kinematics (\<open>trapq.c\<close>, \<open>itersolve.c\<close>, \<open>kin_*.c\<close>), floating point geometry without a semantics of
  rounding here; the debugging commands, which read and write arbitrary memory; the Python application above the library;
  vendored code.
\<close>

end
